(* ===== verification/Prelude.thy ===== *)
theory Prelude
  imports Main "HOL-Library.Word"
begin

text \<open>
  Shared vocabulary of the development: the fixed-width integer types of the C++ code, byte strings,
  the outcome of an operation that can fail or leave the defined behaviour of C++, checked accesses
  to memory blocks, big-endian byte sequences, and the generic lemmas the component theories use.
\<close>

unbundle bit_operations_syntax

section \<open>Machine types\<close>

text \<open>
  \<open>uint8_t\<close>, \<open>uint16_t\<close>, \<open>uint32_t\<close> and \<open>uint64_t\<close> are words of their width, so that \<open>+\<close>, \<open>-\<close> and
  \<open>*\<close> wrap as in C++. \<open>int32_t\<close> is modelled by \<open>int\<close>; conversions to it are written out
  (\<open>as_i32\<close>), and a sum that leaves its range is a fault, as signed overflow is undefined.
  A \<open>std::string\<close> and a \<open>std::vector<uint8_t>\<close> are both byte lists.
\<close>

type_synonym u8 = "8 word"
type_synonym u16 = "16 word"
type_synonym u32 = "32 word"
type_synonym u64 = "64 word"
type_synonym bytes = "u8 list"

named_theorems outcome_simps "rewriting of the outcome type and its sequencing"
named_theorems mem_simps "accesses to memory blocks that stay inside the block"
named_theorems wire_simps "decoding what an encoder wrote"

section \<open>Outcomes\<close>

text \<open>
  The result of an operation: a value (\<open>Done\<close>), a failure the code reports itself by \<open>return false\<close>
  or \<open>std::nullopt\<close> (\<open>Reject\<close>), or a step outside what the code handles (\<open>Crash\<close>): an access outside
  a block, a signed overflow, a division by zero, a null or dangling pointer, the destruction of a running thread, or an exception thrown by the standard library that
  no caller catches.
\<close>

datatype fault =
    OutOfBounds | SignedOverflow | DivideByZero | LengthError | InvalidArgument | OutOfRange
  | NullPointer | BadFree | UseAfterFree | Terminated

datatype 'a outcome = Done 'a | Reject | Crash fault

fun and_then :: "'a outcome \<Rightarrow> ('a \<Rightarrow> 'b outcome) \<Rightarrow> 'b outcome" where
  "and_then (Done x) f = f x"
| "and_then Reject f = Reject"
| "and_then (Crash e) f = Crash e"

fun no_crash :: "'a outcome \<Rightarrow> bool" where
  "no_crash (Crash e) = False"
| "no_crash _ = True"

definition guard_or_reject :: "bool \<Rightarrow> unit outcome" where
  "guard_or_reject b = (if b then Done () else Reject)"

lemma and_then_Done_iff [outcome_simps]:
  "and_then m f = Done y \<longleftrightarrow> (\<exists>x. m = Done x \<and> f x = Done y)"
  by (cases m) auto

lemma and_then_assoc [outcome_simps]:
  "and_then (and_then m f) g = and_then m (\<lambda>x. and_then (f x) g)"
  by (cases m) auto

lemma no_crash_and_then:
  "no_crash m \<Longrightarrow> (\<And>x. m = Done x \<Longrightarrow> no_crash (f x)) \<Longrightarrow> no_crash (and_then m f)"
  by (cases m) auto

text \<open>
  Postconditions: \<open>yields m P\<close> says that \<open>m\<close> returns a value satisfying \<open>P\<close>, \<open>allows m P\<close> only that every
  value it returns does.
\<close>

definition yields :: "'a outcome \<Rightarrow> ('a \<Rightarrow> bool) \<Rightarrow> bool" where
  "yields m P \<longleftrightarrow> (case m of Done x \<Rightarrow> P x | _ \<Rightarrow> False)"

definition allows :: "'a outcome \<Rightarrow> ('a \<Rightarrow> bool) \<Rightarrow> bool" where
  "allows m P \<longleftrightarrow> (case m of Done x \<Rightarrow> P x | _ \<Rightarrow> True)"

lemma yields_simps [simp]:
  "yields (Done x) P \<longleftrightarrow> P x" "\<not> yields Reject P" "\<not> yields (Crash e) P"
  "yields (and_then m f) P \<longleftrightarrow> yields m (\<lambda>x. yields (f x) P)"
  by (simp_all add: yields_def split: outcome.split)

lemma allows_simps [simp]:
  "allows (Done x) P \<longleftrightarrow> P x" "allows Reject P" "allows (Crash e) P"
  "allows (and_then m f) P \<longleftrightarrow> allows m (\<lambda>x. allows (f x) P)"
  by (simp_all add: allows_def split: outcome.split)

lemma yields_mono: "yields m P \<Longrightarrow> (\<And>x. m = Done x \<Longrightarrow> P x \<Longrightarrow> R x) \<Longrightarrow> yields m R"
  by (cases m) simp_all

lemma allows_mono: "allows m P \<Longrightarrow> (\<And>x. m = Done x \<Longrightarrow> P x \<Longrightarrow> R x) \<Longrightarrow> allows m R"
  by (cases m) simp_all

lemma allowsD: "allows m P \<Longrightarrow> m = Done x \<Longrightarrow> P x"
  by simp

lemma allowsI: "(\<And>x. m = Done x \<Longrightarrow> P x) \<Longrightarrow> allows m P"
  by (cases m) simp_all

lemma yieldsE: "yields m P \<Longrightarrow> (\<And>x. m = Done x \<Longrightarrow> P x \<Longrightarrow> thesis) \<Longrightarrow> thesis"
  by (cases m) simp_all

lemma yields_allows: "yields m P \<Longrightarrow> allows m P"
  by (cases m) simp_all

lemma allows_True [simp]: "allows m (\<lambda>x. True)"
  by (cases m) simp_all

lemma allows_const: "P \<Longrightarrow> allows m (\<lambda>x. P)"
  by (cases m) simp_all

lemma allows_conj: "allows m P \<Longrightarrow> allows m R \<Longrightarrow> allows m (\<lambda>x. P x \<and> R x)"
  by (cases m) simp_all

lemma allows_conj2:
  "allows m (\<lambda>(a, x). P x) \<Longrightarrow> allows m (\<lambda>(a, x). R x) \<Longrightarrow> allows m (\<lambda>(a, x). P x \<and> R x)"
  by (cases m) auto

lemma and_then_cong [fundef_cong]:
  "m = m' \<Longrightarrow> (\<And>x. m' = Done x \<Longrightarrow> f x = f' x) \<Longrightarrow> and_then m f = and_then m' f'"
  by (cases m') auto

section \<open>Signed 32-bit values\<close>

text \<open>\<open>static_cast<int32_t>\<close> of a 64-bit and of a 32-bit unsigned value keeps the low 32 bits.\<close>

definition as_i32 :: "u64 \<Rightarrow> int" where
  "as_i32 w = sint (ucast w :: u32)"

definition i32_max :: int where
  "i32_max = 2147483647"

definition i32_add :: "int \<Rightarrow> int \<Rightarrow> int outcome" where
  "i32_add a b = (if a + b > i32_max \<or> a + b < - i32_max - 1 then Crash SignedOverflow else Done (a + b))"

lemma as_i32_small:
  assumes "uint w < 2147483648"
  shows "as_i32 w = uint w"
proof -
  have "take_bit 32 (uint w) = uint w"
    using assms by (simp add: take_bit_int_eq_self_iff)
  then have u: "uint (ucast w :: u32) = uint w"
    by (simp add: unsigned_ucast_eq unsigned_take_bit_eq)
  have "sint (ucast w :: u32) = signed_take_bit 31 (uint (ucast w :: u32))"
    by (simp add: sint_uint)
  also have "\<dots> = uint w"
  proof -
    have "- 2147483648 \<le> uint w"
      by (rule order_trans [of _ 0]) simp_all
    then show ?thesis
      using assms u by (simp add: signed_take_bit_int_eq_self_iff)
  qed
  finally show ?thesis by (simp add: as_i32_def)
qed

lemma sint_u32_small:
  assumes "unat (w :: u32) < 2147483648"
  shows "sint w = int (unat w)"
proof -
  have "uint w = int (unat w)"
    by simp
  then have "- 2147483648 \<le> uint w" and "uint w < 2147483648"
    using assms by linarith+
  then have "signed_take_bit 31 (uint w) = uint w"
    by (simp add: signed_take_bit_int_eq_self_iff)
  then show ?thesis
    by (simp add: sint_uint)
qed

lemma as_i32_range: "- i32_max - 1 \<le> as_i32 w" "as_i32 w \<le> i32_max"
proof -
  have "- (2 ^ 31) \<le> sint (ucast w :: u32) \<and> sint (ucast w :: u32) < 2 ^ 31"
    using sint_range_size [of "ucast w :: u32"] by (simp add: word_size)
  then show "- i32_max - 1 \<le> as_i32 w" "as_i32 w \<le> i32_max"
    by (simp_all add: as_i32_def i32_max_def)
qed

lemma i32_add_Done [simp]:
  "a + b \<le> i32_max \<Longrightarrow> - i32_max - 1 \<le> a + b \<Longrightarrow> i32_add a b = Done (a + b)"
  by (simp add: i32_add_def)

section \<open>Memory blocks\<close>

text \<open>
  Reading \<open>n\<close> elements at an offset of a block, and overwriting them (\<open>memcpy\<close> into the block), both
  with the bounds the C++ code has to respect.
\<close>

definition mem_read :: "'a list \<Rightarrow> nat \<Rightarrow> nat \<Rightarrow> 'a list outcome" where
  "mem_read blk off n = (if off + n \<le> length blk then Done (take n (drop off blk)) else Crash OutOfBounds)"

definition mem_write :: "'a list \<Rightarrow> nat \<Rightarrow> 'a list \<Rightarrow> 'a list outcome" where
  "mem_write blk off xs =
     (if off + length xs \<le> length blk then Done (take off blk @ xs @ drop (off + length xs) blk)
      else Crash OutOfBounds)"

definition elem_at :: "'a list \<Rightarrow> nat \<Rightarrow> 'a outcome" where
  "elem_at blk i = (if i < length blk then Done (blk ! i) else Crash OutOfBounds)"

lemma mem_read_Done [mem_simps]:
  "off + n \<le> length blk \<Longrightarrow> mem_read blk off n = Done (take n (drop off blk))"
  by (simp add: mem_read_def)

lemma mem_write_Done [mem_simps]:
  "off + length xs \<le> length blk \<Longrightarrow>
     mem_write blk off xs = Done (take off blk @ xs @ drop (off + length xs) blk)"
  by (simp add: mem_write_def)

lemma elem_at_Done [mem_simps]: "i < length blk \<Longrightarrow> elem_at blk i = Done (blk ! i)"
  by (simp add: elem_at_def)

lemma mem_write_length: "mem_write blk off xs = Done blk' \<Longrightarrow> length blk' = length blk"
  by (auto simp: mem_write_def split: if_splits)

section \<open>Big-endian byte sequences\<close>

primrec be_value :: "'w::len word \<Rightarrow> bytes \<Rightarrow> 'w word" where
  "be_value acc [] = acc"
| "be_value acc (b # bs) = be_value (push_bit 8 acc OR ucast b) bs"

primrec be_bytes :: "nat \<Rightarrow> 'w::len word \<Rightarrow> bytes" where
  "be_bytes 0 v = []"
| "be_bytes (Suc n) v = ucast (drop_bit (8 * n) v) # be_bytes n v"

lemma length_be_bytes [simp]: "length (be_bytes n v) = n"
  by (induction n) simp_all

lemma push_take_join:
  "push_bit n (ucast (ucast (drop_bit n v) :: u8)) OR take_bit n v = take_bit (8 + n) (v :: 'w::len word)"
  by (rule bit_word_eqI) (auto simp: bit_simps)

lemma be_value_be_bytes:
  "be_value acc (be_bytes n v) = push_bit (8 * n) acc OR take_bit (8 * n) v"
proof (induction n arbitrary: acc)
  case 0
  then show ?case by simp
next
  case (Suc n)
  have "be_value acc (be_bytes (Suc n) v)
      = push_bit (8 * n) (push_bit 8 acc OR ucast (ucast (drop_bit (8 * n) v) :: u8)) OR take_bit (8 * n) v"
    using Suc.IH by simp
  also have "\<dots> = push_bit (8 * n) (push_bit 8 acc) OR
      (push_bit (8 * n) (ucast (ucast (drop_bit (8 * n) v) :: u8)) OR take_bit (8 * n) v)"
    by (simp add: or.assoc)
  also have "\<dots> = push_bit (8 * Suc n) acc OR take_bit (8 * Suc n) v"
    by (simp only: push_take_join) (simp add: ac_simps)
  finally show ?case .
qed

lemma be_value_snoc: "be_value acc (xs @ [b]) = push_bit 8 (be_value acc xs) OR ucast b"
  by (induction xs arbitrary: acc) simp_all

lemma be_bytes_snoc: "be_bytes (Suc n) v = be_bytes n (drop_bit 8 v) @ [ucast v]"
proof (induction n)
  case 0
  then show ?case by simp
next
  case (Suc n)
  then show ?case by (simp add: ac_simps)
qed

lemma be_value_small: "take_bit (8 * length xs) (be_value 0 xs) = (be_value 0 xs :: 'w::len word)"
proof (induction xs rule: rev_induct)
  case Nil
  then show ?case by simp
next
  case (snoc b xs)
  have "take_bit (8 + 8 * length xs) (push_bit 8 (be_value 0 xs) OR ucast b :: 'w word)
      = push_bit 8 (take_bit (8 * length xs) (be_value 0 xs)) OR take_bit (8 + 8 * length xs) (ucast b)"
    by (simp add: take_bit_push_bit)
  also have "take_bit (8 + 8 * length xs) (ucast b) = (ucast b :: 'w word)"
    by (rule bit_word_eqI) (auto simp: bit_simps dest: bit_imp_le_length)
  finally show ?case
    by (simp add: be_value_snoc snoc.IH)
qed

text \<open>The bytes of a value read from no more bytes than the word is wide.\<close>

lemma be_bytes_be_value:
  "8 * length xs \<le> LENGTH('w) \<Longrightarrow> be_bytes (length xs) (be_value 0 xs :: 'w::len word) = xs"
proof (induction xs rule: rev_induct)
  case Nil
  then show ?case by simp
next
  case (snoc b xs)
  let ?v = "be_value 0 xs :: 'w word"
  have "drop_bit 8 (push_bit 8 (take_bit (8 * length xs) ?v) OR ucast b) = take_bit (8 * length xs) ?v"
    using snoc.prems by (intro bit_word_eqI) (auto simp: bit_simps dest: bit_imp_le_length)
  moreover have "ucast (push_bit 8 ?v OR ucast b) = b"
    using snoc.prems by (intro bit_word_eqI) (auto simp: bit_simps)
  ultimately show ?case
    using snoc by (simp add: be_value_snoc be_bytes_snoc be_value_small del: be_bytes.simps)
qed

lemma ucast_and_FF: "ucast (x AND 0xFF) = (ucast (x :: 'w::len word) :: u8)"
proof -
  have "x AND 0xFF = take_bit 8 x"
    by (simp add: take_bit_eq_mask mask_eq_exp_minus_1)
  then show ?thesis
    by (simp only:) (rule bit_word_eqI, auto simp: bit_simps)
qed

section \<open>Lists\<close>

lemma drop_append_at: "length pre = n \<Longrightarrow> drop n (pre @ xs) = xs"
  by simp

lemma take_append_at: "length xs = n \<Longrightarrow> take n (xs @ ys) = xs"
  by simp

lemma drop_nat_int_length: "drop (nat (int (length pre))) (pre @ xs) = xs"
  by simp

text \<open>
  A record field that a fold over a list overwrites for the elements satisfying \<open>P\<close> ends up with what
  the last such element wrote.
\<close>

lemma fold_last_write:
  assumes "\<And>p r. f (ap p r) = (if P p then g p else f r)"
  shows "f (fold ap ps r) = (if filter P ps = [] then f r else g (last (filter P ps)))"
proof (induction ps arbitrary: r)
  case Nil
  then show ?case by simp
next
  case (Cons p ps)
  then show ?case by (simp add: assms)
qed

lemma fold_unwritten:
  assumes "\<And>p r. f (ap p r) = f r"
  shows "f (fold ap ps r) = f r"
  by (induction ps arbitrary: r) (simp_all add: assms)

section \<open>Loops that may not end\<close>

text \<open>\<open>while (c) b\<close> over a state: \<open>None\<close> when the loop never ends.\<close>

definition next_state :: "('s \<Rightarrow> bool outcome) \<Rightarrow> ('s \<Rightarrow> 's outcome) \<Rightarrow> 's \<Rightarrow> 's option" where
  "next_state c b s = (case and_then (c s) (\<lambda>go. if go then b s else Reject) of Done s' \<Rightarrow> Some s' | _ \<Rightarrow> None)"

definition loop_end :: "('s \<Rightarrow> bool outcome) \<Rightarrow> ('s \<Rightarrow> 's outcome) \<Rightarrow> 's \<Rightarrow> 's outcome" where
  "loop_end c b s = and_then (c s) (\<lambda>go. if go then b s else Done s)"

partial_function (option) loop_while :: "('s \<Rightarrow> bool outcome) \<Rightarrow> ('s \<Rightarrow> 's outcome) \<Rightarrow> 's \<Rightarrow> 's outcome option" where
  "loop_while c b s = (case next_state c b s of Some s' \<Rightarrow> loop_while c b s' | None \<Rightarrow> Some (loop_end c b s))"

lemma loop_while_step: "c s = Done True \<Longrightarrow> b s = Done s' \<Longrightarrow> loop_while c b s = loop_while c b s'"
  by (subst loop_while.simps) (simp add: next_state_def)

lemma loop_while_stop: "c s = Done False \<Longrightarrow> loop_while c b s = Some (Done s)"
  by (subst loop_while.simps) (simp add: next_state_def loop_end_def)

lemma loop_while_crash: "c s = Done True \<Longrightarrow> b s = Crash e \<Longrightarrow> loop_while c b s = Some (Crash e)"
  by (subst loop_while.simps) (simp add: next_state_def loop_end_def)

definition then_maybe :: "'a outcome option \<Rightarrow> ('a \<Rightarrow> 'b outcome option) \<Rightarrow> 'b outcome option" where
  "then_maybe m f =
     (case m of None \<Rightarrow> None | Some (Done x) \<Rightarrow> f x | Some Reject \<Rightarrow> Some Reject | Some (Crash e) \<Rightarrow> Some (Crash e))"

lemma then_maybe_simps [simp]:
  "then_maybe None f = None" "then_maybe (Some (Done x)) f = f x" "then_maybe (Some Reject) f = Some Reject"
  "then_maybe (Some (Crash e)) f = Some (Crash e)"
  by (simp_all add: then_maybe_def)

text \<open>A loop whose condition and body stay within an invariant and whose measure decreases ends.\<close>

lemma loop_while_ends:
  assumes "I s" and "\<And>s. I s \<Longrightarrow> \<exists>go. c s = Done go"
    and "\<And>s. I s \<Longrightarrow> c s = Done True \<Longrightarrow> yields (b s) (\<lambda>s'. I s' \<and> (m s' :: nat) < m s)"
  shows "\<exists>s'. loop_while c b s = Some (Done s') \<and> I s' \<and> c s' = Done False"
  using assms(1)
proof (induction "m s" arbitrary: s rule: less_induct)
  case less
  obtain go where go: "c s = Done go"
    using assms(2) [OF less.prems] by blast
  show ?case
  proof (cases go)
    case True
    then obtain s' where s': "b s = Done s'" "I s'" "m s' < m s"
      using assms(3) [OF less.prems] go by (auto elim: yieldsE)
    from less.hyps [OF s'(3,2)] show ?thesis
      using go True s'(1) loop_while_step [of c s b s'] by simp
  next
    case False
    then show ?thesis
      using go less.prems loop_while_stop [of c s b] by simp
  qed
qed

text \<open>If the body may also fail, which ends the loop, it still ends, and what the body keeps holds then.\<close>

lemma loop_while_returns:
  assumes "I s" and "\<And>s. I s \<Longrightarrow> c s = Done True \<Longrightarrow> allows (b s) (\<lambda>s'. I s' \<and> (m s' :: nat) < m s)"
  shows "\<exists>r. loop_while c b s = Some r \<and> allows r I"
  using assms(1)
proof (induction "m s" arbitrary: s rule: less_induct)
  case less
  show ?case
  proof (cases "next_state c b s")
    case None
    then show ?thesis
      using less.prems by (subst loop_while.simps, cases "c s"; cases "b s") (auto simp: next_state_def loop_end_def split: if_splits)
  next
    case (Some s')
    then have "c s = Done True" "b s = Done s'"
      by (cases "c s"; cases "b s"; auto simp: next_state_def split: if_splits)+
    then show ?thesis
      using less.hyps [of s'] assms(2) [OF less.prems] loop_while_step [of c s b s'] by simp
  qed
qed

text \<open>A loop whose condition holds in every state the body leads to never ends.\<close>

lemma loop_while_never_ends:
  assumes "I s" and "\<And>s. I s \<Longrightarrow> c s = Done True \<and> yields (b s) I"
  shows "loop_while c b s = None"
proof (cases "loop_while c b s")
  case (Some r)
  have "c = c \<and> b = b \<longrightarrow> \<not> I s"
  proof (rule loop_while.raw_induct [where P = "\<lambda>c' b' s r. c' = c \<and> b' = b \<longrightarrow> \<not> I s", OF _ Some], intro impI notI)
    fix f c' b' s r
    assume IH: "\<And>c' b' s r. f c' b' s = Some r \<Longrightarrow> c' = c \<and> b' = b \<longrightarrow> \<not> I s"
      and eq: "(case next_state c' b' s of Some s' \<Rightarrow> f c' b' s' | None \<Rightarrow> Some (loop_end c' b' s)) = Some r"
      and cb: "c' = c \<and> b' = b" and inv: "I s"
    obtain s' where "c s = Done True" "b s = Done s'" "I s'"
      using assms(2) [OF inv] by (blast elim: yieldsE)
    then show False
      using IH [of c b s' r] eq cb by (simp add: next_state_def)
  qed
  with assms(1) show ?thesis by blast
qed simp

text \<open>What the body of a loop keeps holds at its end.\<close>

lemma loop_while_keeps:
  assumes "loop_while c b s = Some r" and "I s" and "\<And>s. I s \<Longrightarrow> allows (b s) I"
  shows "allows r I"
proof -
  have "c = c \<and> b = b \<longrightarrow> I s \<longrightarrow> allows r I"
  proof (rule loop_while.raw_induct [where P = "\<lambda>c' b' s r. c' = c \<and> b' = b \<longrightarrow> I s \<longrightarrow> allows r I", OF _ assms(1)],
      intro impI)
    fix f c' b' s r
    assume IH: "\<And>c' b' s r. f c' b' s = Some r \<Longrightarrow> c' = c \<and> b' = b \<longrightarrow> I s \<longrightarrow> allows r I"
      and eq: "(case next_state c' b' s of Some s' \<Rightarrow> f c' b' s' | None \<Rightarrow> Some (loop_end c' b' s)) = Some r"
      and cb: "c' = c \<and> b' = b" and inv: "I s"
    show "allows r I"
    proof (cases "next_state c b s")
      case None
      then show ?thesis
        using eq cb inv by (cases "c s"; cases "b s") (auto simp: next_state_def loop_end_def split: if_splits)
    next
      case (Some s')
      then have "I s'"
        using inv assms(3) [OF inv] by (cases "c s"; cases "b s") (auto simp: next_state_def split: if_splits)
      then show ?thesis
        using IH [of c b s' r] eq cb Some by simp
    qed
  qed
  with assms(2) show ?thesis by simp
qed

lemma then_maybe_returns:
  "\<exists>r. m = Some r \<Longrightarrow> (\<And>x. m = Some (Done x) \<Longrightarrow> \<exists>r. f x = Some r) \<Longrightarrow> \<exists>r. then_maybe m f = Some r"
  by (auto simp: then_maybe_def split: outcome.split)

text \<open>A postcondition of what may not end.\<close>

definition maybe_allows :: "'a outcome option \<Rightarrow> ('a \<Rightarrow> bool) \<Rightarrow> bool" where
  "maybe_allows m P \<longleftrightarrow> (case m of None \<Rightarrow> True | Some r \<Rightarrow> allows r P)"

lemma maybe_allows_simps [simp]: "maybe_allows None P" "maybe_allows (Some r) P = allows r P"
  by (simp_all add: maybe_allows_def)

lemma maybe_allows_then: "maybe_allows m P \<Longrightarrow> (\<And>x. P x \<Longrightarrow> maybe_allows (f x) R) \<Longrightarrow> maybe_allows (then_maybe m f) R"
  by (cases m, simp, rename_tac r, case_tac r) auto

lemma maybe_allows_loop: "I s \<Longrightarrow> (\<And>s. I s \<Longrightarrow> allows (b s) I) \<Longrightarrow> maybe_allows (loop_while c b s) I"
  using loop_while_keeps [of c b s _ I] by (auto simp: maybe_allows_def split: option.split)

end
