(* ===== verification/Varint.thy ===== *)
theory Varint
  imports Prelude
begin

text \<open>
  The QUIC variable-length integer (RFC 9000 section 16) as \<open>encode_varint\<close>, \<open>decode_varint\<close> and
  \<open>varint_size\<close> of \<open>moq_protocol.cpp\<close> implement it: the top two bits of the first byte select a
  length of 1, 2, 4 or 8 bytes. Lemmas: the size of an encoding, the round trip (also for values that
  do not fit in 62 bits, which lose their top two bits), and the bounds a decoder result satisfies.
\<close>

section \<open>Definitions\<close>

definition encode_varint :: "u64 \<Rightarrow> bytes" where
  "encode_varint value =
     (if value \<le> 63 then [ucast value]
      else if value \<le> 16383 then
        [ucast (drop_bit 8 value OR 0x40), ucast (value AND 0xFF)]
      else if value \<le> 1073741823 then
        [ucast (drop_bit 24 value OR 0x80), ucast (drop_bit 16 value AND 0xFF),
         ucast (drop_bit 8 value AND 0xFF), ucast (value AND 0xFF)]
      else
        [ucast (drop_bit 56 value OR 0xC0), ucast (drop_bit 48 value AND 0xFF),
         ucast (drop_bit 40 value AND 0xFF), ucast (drop_bit 32 value AND 0xFF),
         ucast (drop_bit 24 value AND 0xFF), ucast (drop_bit 16 value AND 0xFF),
         ucast (drop_bit 8 value AND 0xFF), ucast (value AND 0xFF)])"

text \<open>
  \<open>decode_varint\<close> returns the value and sets \<open>bytes_read\<close>, 0 for an error. Its argument is the part of
  the buffer from \<open>buffer\<close> on, so that \<open>buffer_len\<close> is the length of the list.
\<close>

definition decode_varint :: "bytes \<Rightarrow> u64 \<times> nat" where
  "decode_varint buffer =
     (if length buffer < 1 then (0, 0)
      else
        let prefix = drop_bit 6 (buffer ! 0) in
        if prefix = 0 then (ucast (buffer ! 0 AND 0x3F), 1)
        else if prefix = 1 then
          (if length buffer < 2 then (0, 0)
           else (push_bit 8 (ucast (buffer ! 0 AND 0x3F)) OR ucast (buffer ! 1), 2))
        else if prefix = 2 then
          (if length buffer < 4 then (0, 0)
           else (push_bit 24 (ucast (buffer ! 0 AND 0x3F)) OR push_bit 16 (ucast (buffer ! 1)) OR
                 push_bit 8 (ucast (buffer ! 2)) OR ucast (buffer ! 3), 4))
        else if prefix = 3 then
          (if length buffer < 8 then (0, 0)
           else (push_bit 56 (ucast (buffer ! 0 AND 0x3F)) OR push_bit 48 (ucast (buffer ! 1)) OR
                 push_bit 40 (ucast (buffer ! 2)) OR push_bit 32 (ucast (buffer ! 3)) OR
                 push_bit 24 (ucast (buffer ! 4)) OR push_bit 16 (ucast (buffer ! 5)) OR
                 push_bit 8 (ucast (buffer ! 6)) OR ucast (buffer ! 7), 8))
        else (0, 0))"

definition varint_size :: "u64 \<Rightarrow> nat" where
  "varint_size value =
     (if value \<le> 63 then 1 else if value \<le> 16383 then 2 else if value \<le> 1073741823 then 4 else 8)"

text \<open>The largest value the format can represent, \<open>2^62 - 1\<close>.\<close>

definition varint_max :: u64 where
  "varint_max = 0x3FFFFFFFFFFFFFFF"

section \<open>Sizes\<close>

lemma length_encode_varint [simp]: "length (encode_varint v) = varint_size v"
  by (simp add: encode_varint_def varint_size_def)

lemma varint_size_bounds: "1 \<le> varint_size v" "varint_size v \<le> 8"
  by (simp_all add: varint_size_def)

lemma varint_size_not_0 [simp]: "varint_size v \<noteq> 0"
  by (simp add: varint_size_def)

lemma varint_size_cases: "varint_size v \<in> {1, 2, 4, 8}"
  by (simp add: varint_size_def)

lemma encode_varint_not_Nil [simp]: "encode_varint v \<noteq> []"
  using length_encode_varint [of v] varint_size_bounds(1) [of v] by fastforce

section \<open>Round trip\<close>

lemma take_bit_eq_if_small:
  fixes v :: "'w::len word"
  assumes "uint v < 2 ^ n"
  shows "take_bit n v = v"
proof -
  have "take_bit n (uint v) = uint v"
    using assms by (simp add: take_bit_int_eq_self_iff)
  then show ?thesis
    by (metis unsigned_take_bit_eq word_uint_eqI)
qed

lemma take_bit_of_range:
  "v \<le> (63 :: u64) \<Longrightarrow> take_bit 6 v = v"
  "v \<le> (16383 :: u64) \<Longrightarrow> take_bit 14 v = v"
  "v \<le> (1073741823 :: u64) \<Longrightarrow> take_bit 30 v = v"
  "v \<le> varint_max \<Longrightarrow> take_bit 62 v = v"
  by (rule take_bit_eq_if_small, simp add: word_le_def varint_max_def)+

lemma prefix_of_encoding:
  "v \<le> 63 \<Longrightarrow> drop_bit 6 (ucast (v :: u64) :: u8) = 0"
  "v \<le> 16383 \<Longrightarrow> drop_bit 6 (ucast (drop_bit 8 v OR 0x40 :: u64) :: u8) = 1"
  "v \<le> 1073741823 \<Longrightarrow> drop_bit 6 (ucast (drop_bit 24 v OR 0x80 :: u64) :: u8) = 2"
  "drop_bit 6 (ucast (drop_bit 56 v OR 0xC0 :: u64) :: u8) = 3"
proof -
  show "drop_bit 6 (ucast (v :: u64) :: u8) = 0" if "v \<le> 63"
  proof -
    have "v = take_bit 6 v"
      using that by (simp add: take_bit_of_range)
    then have "drop_bit 6 (ucast v :: u8) = drop_bit 6 (ucast (take_bit 6 v) :: u8)"
      by simp
    also have "\<dots> = 0"
      by (rule bit_word_eqI) (auto simp: bit_simps)
    finally show ?thesis .
  qed
  show "drop_bit 6 (ucast (drop_bit 8 v OR 0x40 :: u64) :: u8) = 1" if "v \<le> 16383"
  proof -
    have "drop_bit 8 v = drop_bit 8 (take_bit 14 v)"
      using that by (simp add: take_bit_of_range)
    moreover have "drop_bit 6 (ucast (drop_bit 8 (take_bit 14 v) OR 0x40 :: u64) :: u8) = 1"
      by (rule bit_word_eqI) (auto simp: bit_simps less_Suc_eq numeral_eq_Suc)
    ultimately show ?thesis by simp
  qed
  show "drop_bit 6 (ucast (drop_bit 24 v OR 0x80 :: u64) :: u8) = 2" if "v \<le> 1073741823"
  proof -
    have "drop_bit 24 v = drop_bit 24 (take_bit 30 v)"
      using that by (simp add: take_bit_of_range)
    moreover have "drop_bit 6 (ucast (drop_bit 24 (take_bit 30 v) OR 0x80 :: u64) :: u8) = 2"
      by (rule bit_word_eqI) (auto simp: bit_simps less_Suc_eq numeral_eq_Suc)
    ultimately show ?thesis by simp
  qed
  show "drop_bit 6 (ucast (drop_bit 56 v OR 0xC0 :: u64) :: u8) = 3"
    by (rule bit_word_eqI) (auto simp: bit_simps less_Suc_eq numeral_eq_Suc)
qed

text \<open>The value decoders read is the big-endian value of the bytes, the first one without its prefix.\<close>

lemma varint_value_be:
  "push_bit 8 (ucast a) OR ucast b = be_value (0 :: u64) [a, b]"
  "push_bit 24 (ucast a) OR push_bit 16 (ucast b) OR push_bit 8 (ucast c) OR ucast d
     = be_value (0 :: u64) [a, b, c, d]"
  "push_bit 56 (ucast a) OR push_bit 48 (ucast b) OR push_bit 40 (ucast c) OR push_bit 32 (ucast d) OR
   push_bit 24 (ucast e) OR push_bit 16 (ucast f) OR push_bit 8 (ucast g) OR ucast h
     = be_value (0 :: u64) [a, b, c, d, e, f, g, h]"
  by (simp_all add: or.assoc)

lemma masked_first_byte:
  "ucast (drop_bit 8 v OR 0x40 :: u64) AND (0x3F :: u8) = ucast (drop_bit 8 (take_bit 14 v))"
  "ucast (drop_bit 24 v OR 0x80 :: u64) AND (0x3F :: u8) = ucast (drop_bit 24 (take_bit 30 v))"
  "ucast (drop_bit 56 v OR 0xC0 :: u64) AND (0x3F :: u8) = ucast (drop_bit 56 (take_bit 62 v))"
  by (rule bit_word_eqI, auto simp: bit_simps less_Suc_eq numeral_eq_Suc)+

lemma low_bytes_of_take_bit:
  assumes "k + 8 \<le> m"
  shows "(ucast (drop_bit k (take_bit m v)) :: u8) = ucast (drop_bit k (v :: u64))"
  using assms by (intro bit_word_eqI) (auto simp: bit_simps)

lemma low_byte_of_take_bit:
  assumes "8 \<le> m"
  shows "(ucast (take_bit m v) :: u8) = ucast (v :: u64)"
  using low_bytes_of_take_bit [of 0 m v] assms by simp

lemma be_value_of_take_bit:
  assumes "m \<le> 8 * n"
  shows "be_value 0 (be_bytes n (take_bit m v)) = take_bit m (v :: u64)"
  using assms by (simp add: be_value_be_bytes min_def)

lemma be_bytes_unfold:
  "be_bytes 2 v = [ucast (drop_bit 8 v), ucast v]"
  "be_bytes 4 v = [ucast (drop_bit 24 v), ucast (drop_bit 16 v), ucast (drop_bit 8 v), ucast v]"
  "be_bytes 8 v = [ucast (drop_bit 56 v), ucast (drop_bit 48 v), ucast (drop_bit 40 v),
     ucast (drop_bit 32 v), ucast (drop_bit 24 v), ucast (drop_bit 16 v), ucast (drop_bit 8 v), ucast v]"
  by (simp_all add: numeral_eq_Suc)

lemma decode_encode_varint [wire_simps]:
  "decode_varint (encode_varint v @ rest) = (take_bit 62 v, varint_size v)"
proof -
  have m62: "take_bit 62 v = take_bit k v" if "take_bit k v = v" "k \<le> 62" for k
    using that by (metis min.absorb2 take_bit_take_bit)
  consider (one) "v \<le> 63" | (two) "\<not> v \<le> 63" "v \<le> 16383"
    | (four) "\<not> v \<le> 63" "\<not> v \<le> 16383" "v \<le> 1073741823"
    | (eight) "\<not> v \<le> 63" "\<not> v \<le> 16383" "\<not> v \<le> 1073741823"
    by blast
  then show ?thesis
  proof cases
    case one
    have "ucast ((ucast v :: u8) AND 0x3F) = take_bit 6 v"
      by (rule bit_word_eqI) (auto simp: bit_simps less_Suc_eq numeral_eq_Suc)
    with one show ?thesis
      by (simp add: encode_varint_def decode_varint_def varint_size_def prefix_of_encoding
          m62 [of 6] take_bit_of_range)
  next
    case two
    have "be_value 0 (be_bytes 2 (take_bit 14 v)) = take_bit 14 v"
      by (rule be_value_of_take_bit) simp
    then have "push_bit 8 (ucast (ucast (drop_bit 8 v OR 0x40 :: u64) AND (0x3F :: u8)))
        OR ucast (ucast (v AND 0xFF) :: u8) = take_bit 14 v"
      unfolding varint_value_be(1)
      by (simp add: be_bytes_unfold masked_first_byte ucast_and_FF low_byte_of_take_bit)
    with two show ?thesis
      by (simp add: encode_varint_def decode_varint_def varint_size_def prefix_of_encoding
          m62 [of 14] take_bit_of_range)
  next
    case four
    have "be_value 0 (be_bytes 4 (take_bit 30 v)) = take_bit 30 v"
      by (rule be_value_of_take_bit) simp
    then have "push_bit 24 (ucast (ucast (drop_bit 24 v OR 0x80 :: u64) AND (0x3F :: u8)))
        OR push_bit 16 (ucast (ucast (drop_bit 16 v AND 0xFF) :: u8))
        OR push_bit 8 (ucast (ucast (drop_bit 8 v AND 0xFF) :: u8))
        OR ucast (ucast (v AND 0xFF) :: u8) = take_bit 30 v"
      unfolding varint_value_be(2)
      by (simp add: be_bytes_unfold masked_first_byte ucast_and_FF low_byte_of_take_bit low_bytes_of_take_bit)
    with four show ?thesis
      by (simp add: encode_varint_def decode_varint_def varint_size_def prefix_of_encoding
          m62 [of 30] take_bit_of_range)
  next
    case eight
    have "be_value 0 (be_bytes 8 (take_bit 62 v)) = take_bit 62 v"
      by (rule be_value_of_take_bit) simp
    then have "push_bit 56 (ucast (ucast (drop_bit 56 v OR 0xC0 :: u64) AND (0x3F :: u8)))
        OR push_bit 48 (ucast (ucast (drop_bit 48 v AND 0xFF) :: u8))
        OR push_bit 40 (ucast (ucast (drop_bit 40 v AND 0xFF) :: u8))
        OR push_bit 32 (ucast (ucast (drop_bit 32 v AND 0xFF) :: u8))
        OR push_bit 24 (ucast (ucast (drop_bit 24 v AND 0xFF) :: u8))
        OR push_bit 16 (ucast (ucast (drop_bit 16 v AND 0xFF) :: u8))
        OR push_bit 8 (ucast (ucast (drop_bit 8 v AND 0xFF) :: u8))
        OR ucast (ucast (v AND 0xFF) :: u8) = take_bit 62 v"
      unfolding varint_value_be(3)
      by (simp add: be_bytes_unfold masked_first_byte ucast_and_FF low_byte_of_take_bit low_bytes_of_take_bit)
    with eight show ?thesis
      by (simp add: encode_varint_def decode_varint_def varint_size_def prefix_of_encoding)
  qed
qed

section \<open>Bounds\<close>

lemma uint_less_of_take_bit:
  fixes v :: "'w::len word"
  assumes "take_bit n v = v"
  shows "uint v < 2 ^ n"
proof -
  have "uint (take_bit n v) = take_bit n (uint v)"
    by (simp add: unsigned_take_bit_eq)
  then show ?thesis
    using assms take_bit_int_less_exp [of n "uint v"] by simp
qed

lemma take_bit_masked_byte [simp]:
  "take_bit 6 (ucast (b AND (0x3F :: u8)) :: u64) = ucast (b AND 0x3F)"
  by (rule bit_word_eqI) (auto simp: bit_simps less_Suc_eq numeral_eq_Suc)

lemma take_bit_ucast_byte:
  assumes "8 \<le> n"
  shows "take_bit n (ucast (b :: u8) :: u64) = ucast b"
  using assms by (intro bit_word_eqI) (auto simp: bit_simps dest: bit_imp_le_length)

lemma decode_varint_cases:
  assumes "decode_varint buf = (v, n)"
  shows "n = 0 \<and> v = 0 \<or> n = 1 \<and> 1 \<le> length buf \<and> take_bit 6 v = v
    \<or> n = 2 \<and> 2 \<le> length buf \<and> take_bit 14 v = v
    \<or> n = 4 \<and> 4 \<le> length buf \<and> take_bit 30 v = v
    \<or> n = 8 \<and> 8 \<le> length buf \<and> take_bit 62 v = v"
  using assms by (auto simp: decode_varint_def Let_def take_bit_push_bit take_bit_ucast_byte Suc_le_eq
      split: if_splits)

lemma varint_size_le:
  "uint v < 2 ^ 6 \<Longrightarrow> varint_size v \<le> 1"
  "uint v < 2 ^ 14 \<Longrightarrow> varint_size v \<le> 2"
  "uint v < 2 ^ 30 \<Longrightarrow> varint_size v \<le> 4"
  by (simp_all add: varint_size_def word_le_def)

lemma decode_varint_bounds:
  assumes "decode_varint buf = (v, n)"
  shows "n \<in> {0, 1, 2, 4, 8}" and "n \<le> length buf" and "v \<le> varint_max"
    and "n \<noteq> 0 \<Longrightarrow> varint_size v \<le> n"
proof -
  note cases = decode_varint_cases [OF assms]
  show "n \<in> {0, 1, 2, 4, 8}" and "n \<le> length buf"
    using cases by auto
  have "uint v < 2 ^ 62"
    using cases by (auto dest!: uint_less_of_take_bit)
  then show "v \<le> varint_max"
    by (simp add: word_le_def varint_max_def)
  show "varint_size v \<le> n" if "n \<noteq> 0"
    using cases that varint_size_bounds(2) [of v]
    by (auto dest!: uint_less_of_take_bit intro: varint_size_le [simplified])
qed

lemma decode_varint_Nil [simp]: "decode_varint [] = (0, 0)"
  by (simp add: decode_varint_def)

lemma decode_varint_append:
  assumes "snd (decode_varint buf) \<noteq> 0"
  shows "decode_varint (buf @ rest) = decode_varint buf"
proof -
  have ne: "buf \<noteq> []"
    using assms by auto
  then have first: "(buf @ rest) ! 0 = buf ! 0"
    by (simp add: nth_append)
  have nth: "(buf @ rest) ! i = buf ! i" if "i < length buf" for i
    using that by (simp add: nth_append)
  consider "drop_bit 6 (buf ! 0) = 0" | "drop_bit 6 (buf ! 0) = 1" "2 \<le> length buf"
    | "drop_bit 6 (buf ! 0) = 2" "4 \<le> length buf" | "drop_bit 6 (buf ! 0) = 3" "8 \<le> length buf"
    using assms by (fastforce simp: decode_varint_def Let_def split: if_splits)
  then show ?thesis
    using ne by cases (simp_all add: decode_varint_def Let_def first nth)
qed

section \<open>Properties\<close>

text \<open>Decoding an encoded varint returns its low 62 bits and consumes exactly the bytes written,
  whatever follows them; values up to \<open>2^62 - 1\<close>, and only those, survive unchanged.\<close>

theorem varint_round_trip:
  "decode_varint (encode_varint v @ rest) = (take_bit 62 v, length (encode_varint v)) \<and>
   (take_bit 62 v = v \<longleftrightarrow> v \<le> varint_max)"
proof -
  have "uint v < 2 ^ 62" if "take_bit 62 v = v"
    using uint_less_of_take_bit [OF that] .
  then show ?thesis
    by (auto simp: decode_encode_varint take_bit_of_range word_le_def varint_max_def)
qed

end
