(* ===== verification/Wire.thy ===== *)
theory Wire
  imports Varint
begin

text \<open>
  The building blocks of the MOQ wire format in \<open>moq_protocol.cpp\<close>: the offset-passing readers
  \<open>read_varint\<close>, \<open>read_string\<close> and \<open>read_byte\<close>, the namespace tuple and the delta-encoded key-value
  parameters. A reader takes the buffer and an offset and returns the value and the new offset; the
  buffer's length is the list's length.

  The locales state what a reader and a matching encoder promise each other; the varint and the
  string code interpret them, and the namespace and parameter lemmas rest on the interpretations.
\<close>

section \<open>Buffers of int32 length\<close>

text \<open>A buffer the callers can describe: its length is a non-negative \<open>int32_t\<close>.\<close>

definition fits_i32 :: "bytes \<Rightarrow> bool" where
  "fits_i32 buf \<longleftrightarrow> int (length buf) \<le> i32_max"

lemma fits_i32_appendD: "fits_i32 (xs @ ys) \<Longrightarrow> fits_i32 xs \<and> fits_i32 ys"
  by (simp add: fits_i32_def)

section \<open>Writers\<close>

definition append_varint :: "bytes \<Rightarrow> u64 \<Rightarrow> bytes" where
  "append_varint vec value = vec @ encode_varint value"

definition append_string_bytes :: "bytes \<Rightarrow> bytes \<Rightarrow> bytes" where
  "append_string_bytes vec str = append_varint vec (of_nat (length str)) @ str"

section \<open>Readers\<close>

definition read_varint :: "bytes \<Rightarrow> nat \<Rightarrow> (u64 \<times> nat) outcome" where
  "read_varint buffer offset =
     (let (out, br) = decode_varint (drop offset buffer) in
      if br = 0 then Reject else Done (out, offset + br))"

text \<open>
  The bytes after a length field: \<open>offset + static_cast<int32_t>(len) > buffer_len\<close> is refused, and
  otherwise \<open>len\<close> bytes (all 64 bits of it) are copied from the buffer. \<open>read_string\<close> and
  \<open>decode_params\<close> both have this code. A copy that runs past the buffer is a fault of the model (the
  code reads foreign memory, or the allocation of \<open>len\<close> bytes throws first).
\<close>

definition read_counted :: "bytes \<Rightarrow> nat \<Rightarrow> u64 \<Rightarrow> (bytes \<times> nat) outcome" where
  "read_counted buffer offset len =
     and_then (i32_add (int offset) (as_i32 len)) (\<lambda>end_offset.
       if end_offset > int (length buffer) then Reject
       else and_then (mem_read buffer offset (unat len)) (\<lambda>out. Done (out, nat end_offset)))"

definition read_string :: "bytes \<Rightarrow> nat \<Rightarrow> (bytes \<times> nat) outcome" where
  "read_string buffer offset =
     and_then (read_varint buffer offset) (\<lambda>(len, offset). read_counted buffer offset len)"

definition read_byte :: "bytes \<Rightarrow> nat \<Rightarrow> (u8 \<times> nat) outcome" where
  "read_byte buffer offset =
     (if offset \<ge> length buffer then Reject else Done (buffer ! offset, offset + 1))"

text \<open>A counted loop that reads one element per round (\<open>for (i = 0; i < count; ++i)\<close>).\<close>

fun read_many :: "(bytes \<Rightarrow> nat \<Rightarrow> ('a \<times> nat) outcome) \<Rightarrow> nat \<Rightarrow> bytes \<Rightarrow> nat \<Rightarrow> ('a list \<times> nat) outcome" where
  "read_many rd 0 buffer offset = Done ([], offset)"
| "read_many rd (Suc n) buffer offset =
     and_then (rd buffer offset) (\<lambda>(x, offset).
       and_then (read_many rd n buffer offset) (\<lambda>(xs, offset). Done (x # xs, offset)))"

section \<open>Interfaces\<close>

text \<open>A reader that always advances and never leaves the buffer.\<close>

locale reader =
  fixes dec :: "bytes \<Rightarrow> nat \<Rightarrow> ('a \<times> nat) outcome"
  assumes advances: "fits_i32 buf \<Longrightarrow> dec buf off = Done (x, off') \<Longrightarrow> off < off' \<and> off' \<le> length buf"
begin

lemma read_many_advances:
  "fits_i32 buf \<Longrightarrow> read_many dec n buf off = Done (xs, off') \<Longrightarrow> off \<le> length buf \<Longrightarrow>
     length xs = n \<and> off + n \<le> off' \<and> off' \<le> length buf"
proof (induction n arbitrary: off xs)
  case 0
  then show ?case by simp
next
  case (Suc n)
  then obtain x off1 xs' where x: "dec buf off = Done (x, off1)"
      and xs': "read_many dec n buf off1 = Done (xs', off')" and xs: "xs = x # xs'"
    by (auto simp: outcome_simps)
  have "off < off1 \<and> off1 \<le> length buf"
    using advances [OF Suc.prems(1) x] .
  with Suc.IH [OF Suc.prems(1) xs'] xs show ?case by auto
qed

text \<open>The number of elements a hostile count can make the loop store is bounded by the buffer.\<close>

lemma read_many_count:
  "fits_i32 buf \<Longrightarrow> off \<le> length buf \<Longrightarrow> read_many dec n buf off = Done (xs, off') \<Longrightarrow>
     n \<le> length buf - off"
  using read_many_advances [of buf n off xs off'] by arith

end

text \<open>An encoder whose output the reader turns back into the value, wherever it stands in a buffer.\<close>

locale codec = reader dec for dec :: "bytes \<Rightarrow> nat \<Rightarrow> ('a \<times> nat) outcome" +
  fixes enc :: "'a \<Rightarrow> bytes" and ok :: "'a \<Rightarrow> bool"
  assumes dec_enc: "ok x \<Longrightarrow> fits_i32 (pre @ enc x @ post) \<Longrightarrow>
    dec (pre @ enc x @ post) (length pre) = Done (x, length pre + length (enc x))"
begin

lemma dec_enc_at:
  assumes "ok x" and "buf = pre @ enc x @ post" and "fits_i32 buf" and "off = length pre"
  shows "dec buf off = Done (x, off + length (enc x))"
  using assms dec_enc by simp

lemma read_many_enc:
  "list_all ok xs \<Longrightarrow> fits_i32 (pre @ concat (map enc xs) @ post) \<Longrightarrow>
     read_many dec (length xs) (pre @ concat (map enc xs) @ post) (length pre)
       = Done (xs, length pre + length (concat (map enc xs)))"
proof (induction xs arbitrary: pre)
  case Nil
  then show ?case by simp
next
  case (Cons x xs)
  let ?buf = "pre @ concat (map enc (x # xs)) @ post"
  have x: "dec ?buf (length pre) = Done (x, length pre + length (enc x))"
    by (rule dec_enc_at [where post = "concat (map enc xs) @ post"]) (use Cons.prems in simp_all)
  have "read_many dec (length xs) ((pre @ enc x) @ concat (map enc xs) @ post) (length (pre @ enc x))
      = Done (xs, length (pre @ enc x) + length (concat (map enc xs)))"
    by (rule Cons.IH) (use Cons.prems in simp_all)
  with x show ?case by (simp add: add.assoc)
qed

end

section \<open>Varints and strings\<close>

lemma read_varint_advances:
  assumes "read_varint buf off = Done (x, off')"
  shows "off < off' \<and> off' \<le> length buf"
proof -
  obtain v br where d: "decode_varint (drop off buf) = (v, br)"
    by (cases "decode_varint (drop off buf)")
  with assms have "br \<noteq> 0" and "off' = off + br"
    by (auto simp: read_varint_def split: if_splits)
  moreover have "br \<le> length buf - off"
    using decode_varint_bounds(2) [OF d] by simp
  ultimately show ?thesis by simp
qed

lemma read_varint_enc:
  "v \<le> varint_max \<Longrightarrow> read_varint (pre @ encode_varint v @ post) (length pre)
     = Done (v, length pre + length (encode_varint v))"
  by (simp add: read_varint_def wire_simps take_bit_of_range varint_size_bounds
      less_le_trans [OF zero_less_one varint_size_bounds(1), THEN less_imp_neq, THEN not_sym])

lemma no_crash_read_varint [simp]: "no_crash (read_varint buf off)"
  by (simp add: read_varint_def split: prod.split)

interpretation varint: codec read_varint encode_varint "\<lambda>v. v \<le> varint_max"
  by unfold_locales (auto dest: read_varint_advances simp: read_varint_enc)

lemma read_counted_Done:
  assumes "read_counted buf off len = Done (out, off')"
  shows "out = take (unat len) (drop off buf)" and "off + unat len \<le> length buf"
    and "int off' = max 0 (int off + as_i32 len)"
  using assms by (auto simp: read_counted_def i32_add_def mem_read_def split: if_splits)

lemma as_i32_unat:
  assumes "unat len = n" and "n \<le> 2147483647"
  shows "as_i32 len = int n"
proof -
  have "uint len = int n"
    using assms(1) by (metis uint_nat)
  with assms(2) show ?thesis
    by (simp add: as_i32_small)
qed

lemma read_counted_ok:
  assumes "fits_i32 buf" and "off + unat len \<le> length buf"
  shows "read_counted buf off len = Done (take (unat len) (drop off buf), off + unat len)"
proof -
  obtain n where n: "unat len = n" by simp
  then have "as_i32 len = int n"
    using assms by (intro as_i32_unat) (simp_all add: fits_i32_def i32_max_def)
  then show ?thesis
    using assms n by (simp add: read_counted_def mem_simps fits_i32_def i32_max_def nat_add_distrib)
qed

lemma read_counted_reject:
  assumes "off \<le> length buf" and "off + unat len \<le> 2147483647" and "length buf < off + unat len"
  shows "read_counted buf off len = Reject"
proof -
  obtain n where n: "unat len = n" by simp
  then have "as_i32 len = int n"
    using assms by (intro as_i32_unat) simp_all
  then show ?thesis
    using assms n by (simp add: read_counted_def i32_max_def)
qed

text \<open>
  Exactly the lengths from \<open>2^31 - offset\<close> on can defeat the bounds check: the sum overflows, or the
  truncated length is small enough to pass while all 64 bits of it are copied.
\<close>

lemma read_counted_crash_iff:
  assumes "fits_i32 buf" and "off \<le> length buf"
  shows "\<not> no_crash (read_counted buf off len) \<longleftrightarrow>
     2147483648 \<le> off + unat len \<and>
       (int off + as_i32 len \<le> int (length buf) \<or> i32_max < int off + as_i32 len)"
proof (cases "off + unat len \<le> 2147483647")
  case True
  obtain n where n: "unat len = n" by simp
  then have "as_i32 len = int n"
    using True by (intro as_i32_unat) simp_all
  then show ?thesis
    using True n by (simp add: read_counted_def i32_max_def mem_read_def)
next
  case False
  have "\<not> off + unat len \<le> length buf"
    using False assms(1) by (simp add: fits_i32_def i32_max_def)
  then show ?thesis
    using False as_i32_range [of len]
    by (simp add: read_counted_def i32_add_def mem_read_def)
qed

lemma read_counted_advances:
  assumes "fits_i32 buf" and "read_counted buf off len = Done (out, off')"
  shows "off' = off + unat len" and "off' \<le> length buf"
proof -
  have le: "off + unat len \<le> length buf"
    using read_counted_Done(2) [OF assms(2)] .
  with read_counted_ok [OF assms(1) le] assms(2) show "off' = off + unat len" and "off' \<le> length buf"
    by simp_all
qed

lemma unat_of_nat_length: "length xs < 2 ^ 64 \<Longrightarrow> unat (of_nat (length xs) :: u64) = length xs"
  by (simp add: unsigned_of_nat take_bit_nat_eq_self)

lemma of_nat_length_ok: "fits_i32 xs \<Longrightarrow> (of_nat (length xs) :: u64) \<le> varint_max"
  by (simp add: word_le_nat_alt unat_of_nat_length fits_i32_def i32_max_def varint_max_def)

lemma append_string_bytes_eq: "append_string_bytes vec str = vec @ append_string_bytes [] str"
  by (simp add: append_string_bytes_def append_varint_def)

lemma length_append_string_bytes:
  "length (append_string_bytes [] str) = varint_size (of_nat (length str)) + length str"
  by (simp add: append_string_bytes_def append_varint_def)

lemma read_string_advances:
  assumes "fits_i32 buf" and "read_string buf off = Done (x, off')"
  shows "off < off' \<and> off' \<le> length buf"
proof -
  obtain len off1 where "read_varint buf off = Done (len, off1)" and "read_counted buf off1 len = Done (x, off')"
    using assms(2) by (auto simp: read_string_def outcome_simps)
  with read_varint_advances [of buf off len off1] read_counted_advances [OF assms(1), of off1 len x off']
  show ?thesis by simp
qed

lemma read_string_enc:
  assumes "fits_i32 (pre @ append_string_bytes [] str @ post)"
  shows "read_string (pre @ append_string_bytes [] str @ post) (length pre)
     = Done (str, length pre + length (append_string_bytes [] str))"
proof -
  let ?len = "of_nat (length str) :: u64"
  let ?buf = "pre @ encode_varint ?len @ str @ post"
  have buf: "pre @ append_string_bytes [] str @ post = ?buf"
    by (simp add: append_string_bytes_def append_varint_def)
  have fits_buf: "fits_i32 ?buf"
    using assms by (simp only: buf)
  have fits: "fits_i32 str"
    using assms by (simp add: fits_i32_def append_string_bytes_def append_varint_def)
  have len: "unat ?len = length str"
    using fits by (intro unat_of_nat_length) (simp add: fits_i32_def i32_max_def)
  have "read_varint ?buf (length pre) = Done (?len, length pre + length (encode_varint ?len))"
    using fits by (intro varint.dec_enc) (simp_all add: of_nat_length_ok fits_buf)
  moreover have "read_counted ?buf (length (pre @ encode_varint ?len)) ?len
      = Done (str, length (pre @ encode_varint ?len) + length str)"
    using fits_buf by (subst read_counted_ok) (simp_all add: len)
  ultimately show ?thesis
    by (simp add: buf read_string_def length_append_string_bytes add.assoc)
qed

interpretation string: codec read_string "append_string_bytes []" "\<lambda>_. True"
  by unfold_locales (auto dest: read_string_advances simp: read_string_enc)

section \<open>Namespace tuple\<close>

text \<open>
  \<open>vector::reserve\<close> throws \<open>std::length_error\<close> above \<open>max_size()\<close>, the number of elements of the
  given size that fit into \<open>PTRDIFF_MAX\<close> bytes of a 64-bit address space. Running out of memory below
  that limit is not modelled.
\<close>

definition vector_reserve :: "nat \<Rightarrow> nat \<Rightarrow> unit outcome" where
  "vector_reserve elem_size count =
     (if count > (2 ^ 63 - 1) div elem_size then Crash LengthError else Done ())"

definition sizeof_string :: nat where "sizeof_string = 32"

definition encode_namespace :: "bytes list \<Rightarrow> bytes" where
  "encode_namespace parts = foldl append_string_bytes (append_varint [] (of_nat (length parts))) parts"

definition decode_namespace :: "bytes \<Rightarrow> nat \<Rightarrow> (bytes list \<times> nat) outcome" where
  "decode_namespace buffer offset =
     and_then (read_varint buffer offset) (\<lambda>(count, offset).
     and_then (vector_reserve sizeof_string (unat count)) (\<lambda>_.
       read_many read_string (unat count) buffer offset))"

lemma foldl_append_string_bytes:
  "foldl append_string_bytes vec parts = vec @ concat (map (append_string_bytes []) parts)"
proof (induction parts arbitrary: vec)
  case Nil
  then show ?case by simp
next
  case (Cons p ps)
  then show ?case
    by (simp add: append_string_bytes_eq [of vec p])
qed

lemma encode_namespace_eq:
  "encode_namespace parts =
     encode_varint (of_nat (length parts)) @ concat (map (append_string_bytes []) parts)"
  by (simp add: encode_namespace_def foldl_append_string_bytes append_varint_def)

lemma vector_reserve_Done:
  assumes "count \<le> 2147483647" and "0 < elem_size" and "elem_size \<le> 64"
  shows "vector_reserve elem_size count = Done ()"
proof -
  have "(2 ^ 63 - 1 :: nat) div 64 \<le> (2 ^ 63 - 1) div elem_size"
    using assms by (intro div_le_mono2) simp_all
  then show ?thesis
    using assms by (simp add: vector_reserve_def)
qed

lemma length_concat_strings: "length parts \<le> length (concat (map (append_string_bytes []) parts))"
proof (induction parts)
  case Nil
  then show ?case by simp
next
  case (Cons p ps)
  then show ?case
    using varint_size_bounds(1) [of "of_nat (length p)"] by (simp add: length_append_string_bytes)
qed

lemma decode_namespace_enc:
  assumes "fits_i32 (pre @ encode_namespace parts @ post)"
  shows "decode_namespace (pre @ encode_namespace parts @ post) (length pre)
     = Done (parts, length pre + length (encode_namespace parts))"
proof -
  let ?n = "of_nat (length parts) :: u64"
  let ?strs = "concat (map (append_string_bytes []) parts)"
  let ?buf = "pre @ encode_varint ?n @ ?strs @ post"
  have buf: "pre @ encode_namespace parts @ post = ?buf"
    by (simp add: encode_namespace_eq)
  have fits_buf: "fits_i32 ?buf"
    using assms by (simp only: buf)
  have small: "length parts \<le> 2147483647"
    using fits_buf length_concat_strings [of parts] by (simp add: fits_i32_def i32_max_def)
  then have n: "unat ?n = length parts"
    by (intro unat_of_nat_length) simp
  have n_ok: "?n \<le> varint_max"
    using small n by (simp add: word_le_nat_alt varint_max_def)
  have "read_varint ?buf (length pre) = Done (?n, length pre + length (encode_varint ?n))"
    using n_ok fits_buf by (intro varint.dec_enc) simp_all
  moreover have "read_many read_string (length parts) ((pre @ encode_varint ?n) @ ?strs @ post)
      (length (pre @ encode_varint ?n)) = Done (parts, length (pre @ encode_varint ?n) + length ?strs)"
    using fits_buf by (intro string.read_many_enc) (simp_all add: list_all_iff)
  moreover have "vector_reserve sizeof_string (length parts) = Done ()"
    using small by (intro vector_reserve_Done) (simp_all add: sizeof_string_def)
  ultimately show ?thesis
    by (simp add: buf decode_namespace_def n encode_namespace_eq add.assoc)
qed

lemma decode_namespace_advances:
  assumes "fits_i32 buf" and "decode_namespace buf off = Done (parts, off')"
  shows "off < off' \<and> off' \<le> length buf"
proof -
  obtain count off1 where c: "read_varint buf off = Done (count, off1)"
    and m: "read_many read_string (unat count) buf off1 = Done (parts, off')"
    using assms(2) by (auto simp: decode_namespace_def outcome_simps)
  from read_varint_advances [OF c] string.read_many_advances [OF assms(1) m]
  show ?thesis by simp
qed

interpretation namespace_tuple: codec decode_namespace encode_namespace "\<lambda>_. True"
  by unfold_locales (auto dest: decode_namespace_advances simp: decode_namespace_enc)

section \<open>Properties\<close>

text \<open>The bounds check of \<open>read_string\<close> and \<open>decode_params\<close>, which compares only the low 32 bits of
  the length, fails to protect the copy for exactly the lengths that reach \<open>2^31 - offset\<close> and whose
  truncated sum overflows or passes; every shorter length is read in bounds or rejected.\<close>

theorem string_length_check_gap:
  assumes "fits_i32 buf" and "off \<le> length buf"
  shows "\<not> no_crash (read_counted buf off len) \<longleftrightarrow>
     2147483648 \<le> off + unat len \<and>
       (int off + as_i32 len \<le> int (length buf) \<or> i32_max < int off + as_i32 len)"
  by (rule read_counted_crash_iff [OF assms])

theorem string_length_check_gap_witness:
  "\<not> no_crash (read_counted [1, 2, 3] 1 0x100000000)"
proof -
  have "as_i32 0x100000000 = 0" by (simp add: as_i32_def)
  then show ?thesis
    by (subst string_length_check_gap) (simp_all add: fits_i32_def i32_max_def)
qed

text \<open>A namespace tuple that was encoded anywhere in a buffer is decoded to its parts, and the
  offset advances by exactly its encoding.\<close>

theorem namespace_round_trip:
  assumes "fits_i32 (pre @ encode_namespace parts @ post)"
  shows "decode_namespace (pre @ encode_namespace parts @ post) (length pre)
     = Done (parts, length pre + length (encode_namespace parts))"
  by (rule namespace_tuple.dec_enc) (simp_all add: assms)

theorem namespace_round_trip_witness:
  "decode_namespace [9, 2, 1, 0x61, 0] 1 = Done ([[0x61], []], 5)"
  using namespace_round_trip [of "[9]" "[[0x61], []]" "[]"]
  by (simp add: fits_i32_def i32_max_def encode_namespace_eq append_string_bytes_def append_varint_def encode_varint_def)

text \<open>A namespace count read from the wire makes \<open>vector::reserve\<close> throw, an exception nothing
  catches, exactly when it exceeds the vector's \<open>max_size\<close>; no bound on it is checked before.\<close>

theorem namespace_count_throws:
  assumes "read_varint buf off = Done (count, off')"
  shows "decode_namespace buf off = Crash LengthError \<longleftrightarrow> (2 ^ 63 - 1) div sizeof_string < unat count"
proof -
  have str: "read_string buf o' \<noteq> Crash LengthError" for o'
    by (auto simp: read_string_def read_varint_def read_counted_def i32_add_def mem_read_def
        split: prod.split)
  have many: "read_many read_string n buf o' \<noteq> Crash LengthError" for n o'
  proof (induction n arbitrary: o')
    case 0
    then show ?case by simp
  next
    case (Suc n)
    show ?case
    proof (cases "read_string buf o'")
      case (Done r)
      then show ?thesis
        using Suc.IH [of "snd r"] by (cases "read_many read_string n buf (snd r)") (auto split: prod.split)
    qed (use str [of o'] in auto)
  qed
  show ?thesis
    using assms many by (simp add: decode_namespace_def vector_reserve_def)
qed

theorem namespace_count_throws_witness:
  "decode_namespace [0xFF, 0, 0, 0, 0, 0, 0, 0] 0 = Crash LengthError"
proof -
  have "read_varint [0xFF, 0, 0, 0, 0, 0, 0, 0] 0 = Done (0x3F00000000000000, 8)"
    by code_simp
  moreover have "(2 ^ 63 - 1) div sizeof_string = 0x3FFFFFFFFFFFFFF"
    by (simp add: sizeof_string_def)
  moreover have "0x3FFFFFFFFFFFFFF < unat (0x3F00000000000000 :: u64)"
    by simp
  ultimately show ?thesis
    using namespace_count_throws by metis
qed

end
