(* ===== verification/Params.thy ===== *)
theory Params
  imports Wire
begin

text \<open>
  The key-value parameters of draft-16: \<open>encode_params\<close> sorts by key and writes each key as the
  difference to the previous one, odd keys with length-prefixed bytes and even keys with a bare
  varint; \<open>decode_params\<close> accumulates the keys again. \<open>std::sort\<close> leaves the order of equal keys open:
  \<open>encode_params\<close> takes the stable order, and the round trip is proved for the loop after the sort on
  every sorted list, so it covers whatever order the sort leaves.
\<close>

record KvpParam =
  kvp_key :: u64
  kvp_int_value :: u64
  kvp_bytes_value :: bytes

definition sizeof_KvpParam :: nat where "sizeof_KvpParam = 40"

definition is_odd_key :: "u64 \<Rightarrow> bool" where
  "is_odd_key k \<longleftrightarrow> k AND 1 \<noteq> 0"

fun encode_params_loop :: "bytes \<Rightarrow> u64 \<Rightarrow> KvpParam list \<Rightarrow> bytes" where
  "encode_params_loop result prev [] = result"
| "encode_params_loop result prev (p # ps) =
     (let result = append_varint result (kvp_key p - prev);
          prev = kvp_key p in
      if is_odd_key (kvp_key p) then
        encode_params_loop (append_varint result (of_nat (length (kvp_bytes_value p))) @ kvp_bytes_value p) prev ps
      else encode_params_loop (append_varint result (kvp_int_value p)) prev ps)"

definition encode_sorted_params :: "KvpParam list \<Rightarrow> bytes" where
  "encode_sorted_params ps = encode_params_loop (append_varint [] (of_nat (length ps))) 0 ps"

definition encode_params :: "KvpParam list \<Rightarrow> bytes" where
  "encode_params params = encode_sorted_params (sort_key kvp_key params)"

text \<open>One round of the loop of \<open>decode_params\<close>: the parameter and the new offset.\<close>

definition read_param :: "bytes \<Rightarrow> nat \<Rightarrow> u64 \<Rightarrow> (KvpParam \<times> nat) outcome" where
  "read_param buffer offset prev =
     and_then (read_varint buffer offset) (\<lambda>(delta, offset).
       let key = prev + delta in
       if is_odd_key key then
         and_then (read_varint buffer offset) (\<lambda>(len, offset).
         and_then (read_counted buffer offset len) (\<lambda>(bs, offset).
           Done (\<lparr>kvp_key = key, kvp_int_value = 0, kvp_bytes_value = bs\<rparr>, offset)))
       else
         and_then (read_varint buffer offset) (\<lambda>(v, offset).
           Done (\<lparr>kvp_key = key, kvp_int_value = v, kvp_bytes_value = []\<rparr>, offset)))"

fun decode_params_loop :: "nat \<Rightarrow> bytes \<Rightarrow> nat \<Rightarrow> u64 \<Rightarrow> (KvpParam list \<times> nat) outcome" where
  "decode_params_loop 0 buffer offset prev = Done ([], offset)"
| "decode_params_loop (Suc n) buffer offset prev =
     and_then (read_param buffer offset prev) (\<lambda>(p, offset).
     and_then (decode_params_loop n buffer offset (kvp_key p)) (\<lambda>(ps, offset). Done (p # ps, offset)))"

definition decode_params :: "bytes \<Rightarrow> nat \<Rightarrow> (KvpParam list \<times> nat) outcome" where
  "decode_params buffer offset =
     and_then (read_varint buffer offset) (\<lambda>(count, offset).
     and_then (vector_reserve sizeof_KvpParam (unat count)) (\<lambda>_.
       decode_params_loop (unat count) buffer offset 0))"

text \<open>What the wire keeps of a parameter: its key and the value of the form the key's parity selects.\<close>

definition kvp_canonical :: "KvpParam \<Rightarrow> KvpParam" where
  "kvp_canonical p = (if is_odd_key (kvp_key p) then p\<lparr>kvp_int_value := 0\<rparr> else p\<lparr>kvp_bytes_value := []\<rparr>)"

definition kvp_encodable :: "KvpParam \<Rightarrow> bool" where
  "kvp_encodable p \<longleftrightarrow> kvp_key p \<le> varint_max \<and> kvp_int_value p \<le> varint_max"

section \<open>Shape of the encoding\<close>

definition param_body :: "u64 \<Rightarrow> KvpParam \<Rightarrow> bytes" where
  "param_body prev p = encode_varint (kvp_key p - prev) @
     (if is_odd_key (kvp_key p) then append_string_bytes [] (kvp_bytes_value p)
      else encode_varint (kvp_int_value p))"

fun params_body :: "u64 \<Rightarrow> KvpParam list \<Rightarrow> bytes" where
  "params_body prev [] = []"
| "params_body prev (p # ps) = param_body prev p @ params_body (kvp_key p) ps"

lemma encode_params_loop_eq: "encode_params_loop result prev ps = result @ params_body prev ps"
  by (induction ps arbitrary: result prev)
    (simp_all add: Let_def append_varint_def param_body_def append_string_bytes_def)

lemma encode_sorted_params_eq:
  "encode_sorted_params ps = encode_varint (of_nat (length ps)) @ params_body 0 ps"
  by (simp add: encode_sorted_params_def encode_params_loop_eq append_varint_def)

lemma length_params_body: "length ps \<le> length (params_body prev ps)"
proof (induction ps arbitrary: prev)
  case Nil
  then show ?case by simp
next
  case (Cons p ps)
  have "1 \<le> length (param_body prev p)"
    using varint_size_bounds(1) [of "kvp_key p - prev"] by (simp add: param_body_def)
  with Cons.IH [of "kvp_key p"] show ?case by simp
qed

section \<open>Round trip\<close>

lemma key_delta_ok:
  assumes "prev \<le> k" and "k \<le> varint_max"
  shows "k - prev \<le> varint_max"
  using word_sub_le [OF assms(1)] assms(2) by (rule order_trans)

lemma read_param_enc:
  assumes "prev \<le> kvp_key p" and "kvp_encodable p" and "fits_i32 (pre @ param_body prev p @ post)"
  shows "read_param (pre @ param_body prev p @ post) (length pre) prev
     = Done (kvp_canonical p, length pre + length (param_body prev p))"
proof -
  let ?buf = "pre @ param_body prev p @ post"
  let ?d = "encode_varint (kvp_key p - prev)"
  have key: "kvp_key p \<le> varint_max" and val: "kvp_int_value p \<le> varint_max"
    using assms(2) by (simp_all add: kvp_encodable_def)
  have delta: "read_varint ?buf (length pre) = Done (kvp_key p - prev, length pre + length ?d)"
    using assms(1,3) key by (intro varint.dec_enc_at) (auto simp: key_delta_ok param_body_def)
  show ?thesis
  proof (cases "is_odd_key (kvp_key p)")
    case True
    let ?bs = "kvp_bytes_value p"
    have "read_string ?buf (length pre + length ?d)
        = Done (?bs, length pre + length ?d + length (append_string_bytes [] ?bs))"
      using True assms(3)
      by (intro string.dec_enc_at [where pre = "pre @ ?d" and post = post]) (simp_all add: param_body_def)
    then obtain len off1 where "read_varint ?buf (length pre + length ?d) = Done (len, off1)"
      and "read_counted ?buf off1 len = Done (?bs, length pre + length ?d + length (append_string_bytes [] ?bs))"
      by (auto simp: read_string_def outcome_simps)
    with delta True show ?thesis
      by (simp add: read_param_def Let_def kvp_canonical_def param_body_def)
  next
    case False
    have "read_varint ?buf (length pre + length ?d)
        = Done (kvp_int_value p, length pre + length ?d + length (encode_varint (kvp_int_value p)))"
      using False assms(3) val
      by (intro varint.dec_enc_at [where pre = "pre @ ?d" and post = post]) (simp_all add: param_body_def)
    with delta False show ?thesis
      by (simp add: read_param_def Let_def kvp_canonical_def param_body_def)
  qed
qed

lemma kvp_key_canonical [simp]: "kvp_key (kvp_canonical p) = kvp_key p"
  by (simp add: kvp_canonical_def)

lemma decode_params_loop_enc:
  "sorted (map kvp_key ps) \<Longrightarrow> list_all kvp_encodable ps \<Longrightarrow>
   (\<forall>p\<in>set ps. prev \<le> kvp_key p) \<Longrightarrow> fits_i32 (pre @ params_body prev ps @ post) \<Longrightarrow>
     decode_params_loop (length ps) (pre @ params_body prev ps @ post) (length pre) prev
       = Done (map kvp_canonical ps, length pre + length (params_body prev ps))"
proof (induction ps arbitrary: pre prev)
  case Nil
  then show ?case by simp
next
  case (Cons p ps)
  let ?buf = "pre @ params_body prev (p # ps) @ post"
  have "read_param ?buf (length pre) prev = Done (kvp_canonical p, length pre + length (param_body prev p))"
    using read_param_enc [of prev p pre "params_body (kvp_key p) ps @ post"] Cons.prems by simp
  moreover have "decode_params_loop (length ps) ?buf (length (pre @ param_body prev p)) (kvp_key p)
      = Done (map kvp_canonical ps, length (pre @ param_body prev p) + length (params_body (kvp_key p) ps))"
    using Cons.IH [of "kvp_key p" "pre @ param_body prev p"] Cons.prems by simp
  ultimately show ?case
    by (simp add: add.assoc)
qed

lemma decode_sorted_params_enc:
  assumes "sorted (map kvp_key ps)" and "list_all kvp_encodable ps"
    and "fits_i32 (pre @ encode_sorted_params ps @ post)"
  shows "decode_params (pre @ encode_sorted_params ps @ post) (length pre)
     = Done (map kvp_canonical ps, length pre + length (encode_sorted_params ps))"
proof -
  let ?n = "of_nat (length ps) :: u64"
  let ?buf = "pre @ encode_varint ?n @ params_body 0 ps @ post"
  have buf: "pre @ encode_sorted_params ps @ post = ?buf"
    by (simp add: encode_sorted_params_eq)
  have fits_buf: "fits_i32 ?buf"
    using assms(3) by (simp only: buf)
  have small: "length ps \<le> 2147483647"
    using fits_buf length_params_body [of ps 0] by (simp add: fits_i32_def i32_max_def)
  then have n: "unat ?n = length ps"
    by (intro unat_of_nat_length) simp
  have n_ok: "?n \<le> varint_max"
    using small n by (simp add: word_le_nat_alt varint_max_def)
  have "read_varint ?buf (length pre) = Done (?n, length pre + length (encode_varint ?n))"
    using n_ok fits_buf by (intro varint.dec_enc) simp_all
  moreover have "decode_params_loop (length ps) ((pre @ encode_varint ?n) @ params_body 0 ps @ post)
      (length (pre @ encode_varint ?n)) 0
      = Done (map kvp_canonical ps, length (pre @ encode_varint ?n) + length (params_body 0 ps))"
    using assms(1,2) fits_buf by (intro decode_params_loop_enc) simp_all
  moreover have "vector_reserve sizeof_KvpParam (length ps) = Done ()"
    using small by (intro vector_reserve_Done) (simp_all add: sizeof_KvpParam_def)
  ultimately show ?thesis
    by (simp add: buf decode_params_def n encode_sorted_params_eq add.assoc)
qed

lemma decode_params_enc:
  assumes "list_all kvp_encodable ps" and "fits_i32 (pre @ encode_params ps @ post)"
  shows "decode_params (pre @ encode_params ps @ post) (length pre)
     = Done (map kvp_canonical (sort_key kvp_key ps), length pre + length (encode_params ps))"
  using assms unfolding encode_params_def
  by (intro decode_sorted_params_enc) (simp_all add: list_all_iff)

section \<open>What a decoder can return\<close>

lemma read_param_advances:
  assumes "fits_i32 buf" and "read_param buf off prev = Done (p, off')"
  shows "off + 2 \<le> off' \<and> off' \<le> length buf"
proof -
  obtain delta off1 where d: "read_varint buf off = Done (delta, off1)"
    using assms(2) by (auto simp: read_param_def outcome_simps)
  have "off1 < off' \<and> off' \<le> length buf"
  proof (cases "is_odd_key (prev + delta)")
    case True
    then obtain bs where "read_string buf off1 = Done (bs, off')"
      using assms(2) d by (auto simp: read_param_def read_string_def outcome_simps Let_def)
    then show ?thesis by (rule string.advances [OF assms(1)])
  next
    case False
    then obtain v where "read_varint buf off1 = Done (v, off')"
      using assms(2) d by (auto simp: read_param_def outcome_simps Let_def)
    then show ?thesis by (rule varint.advances [OF assms(1)])
  qed
  with read_varint_advances [OF d] show ?thesis by simp
qed

lemma decode_params_loop_advances:
  "fits_i32 buf \<Longrightarrow> decode_params_loop n buf off prev = Done (ps, off') \<Longrightarrow> off \<le> length buf \<Longrightarrow>
     length ps = n \<and> off + 2 * n \<le> off' \<and> off' \<le> length buf"
proof (induction n arbitrary: off prev ps)
  case 0
  then show ?case by simp
next
  case (Suc n)
  then obtain p off1 ps' where p: "read_param buf off prev = Done (p, off1)"
      and rest: "decode_params_loop n buf off1 (kvp_key p) = Done (ps', off')" and ps: "ps = p # ps'"
    by (auto simp: outcome_simps)
  from read_param_advances [OF Suc.prems(1) p] Suc.IH [OF Suc.prems(1) rest] ps show ?case by auto
qed

lemma decode_params_advances:
  assumes "fits_i32 buf" and "decode_params buf off = Done (ps, off')"
  shows "off < off' \<and> off' \<le> length buf"
proof -
  obtain count off1 where c: "read_varint buf off = Done (count, off1)"
    and m: "decode_params_loop (unat count) buf off1 0 = Done (ps, off')"
    using assms(2) by (auto simp: decode_params_def outcome_simps)
  from read_varint_advances [OF c] decode_params_loop_advances [OF assms(1) m]
  show ?thesis by simp
qed

text \<open>The parameters of a sorted list of encodable, canonical parameters form a code of their own.\<close>

interpretation params: codec decode_params encode_sorted_params
  "\<lambda>ps. sorted (map kvp_key ps) \<and> list_all kvp_encodable ps \<and> map kvp_canonical ps = ps"
  by unfold_locales (auto dest: decode_params_advances simp: decode_sorted_params_enc)

section \<open>Properties\<close>

text \<open>C32: parameters survive the wire sorted by key, each with the value its key's parity selects; the
  decoder's running sum undoes the encoder's key differences.\<close>

theorem params_round_trip:
  assumes "list_all kvp_encodable ps" and "fits_i32 (pre @ encode_params ps @ post)"
  shows "decode_params (pre @ encode_params ps @ post) (length pre)
     = Done (map kvp_canonical (sort_key kvp_key ps), length pre + length (encode_params ps))"
  by (rule decode_params_enc [OF assms])

theorem params_round_trip_witness:
  "decode_params (encode_params [\<lparr>kvp_key = 3, kvp_int_value = 0, kvp_bytes_value = [7, 8]\<rparr>,
       \<lparr>kvp_key = 2, kvp_int_value = 100, kvp_bytes_value = []\<rparr>]) 0
     = Done ([\<lparr>kvp_key = 2, kvp_int_value = 100, kvp_bytes_value = []\<rparr>,
              \<lparr>kvp_key = 3, kvp_int_value = 0, kvp_bytes_value = [7, 8]\<rparr>], 8)"
proof -
  let ?ps = "[\<lparr>kvp_key = 3, kvp_int_value = 0, kvp_bytes_value = [7, 8]\<rparr>,
       \<lparr>kvp_key = 2, kvp_int_value = 100, kvp_bytes_value = []\<rparr>] :: KvpParam list"
  have enc: "encode_params ?ps = [2, 2, 0x40, 100, 1, 2, 7, 8]" by code_simp
  have "map kvp_canonical (sort_key kvp_key ?ps) =
      [\<lparr>kvp_key = 2, kvp_int_value = 100, kvp_bytes_value = []\<rparr>,
       \<lparr>kvp_key = 3, kvp_int_value = 0, kvp_bytes_value = [7, 8]\<rparr>]"
    by code_simp
  then show ?thesis
    using params_round_trip [of ?ps "[]" "[]"]
    by (simp add: enc kvp_encodable_def varint_max_def fits_i32_def i32_max_def)
qed

end
