(* ===== verification/Framing.thy ===== *)
theory Framing
  imports Params
begin

text \<open>
  Control message framing of \<open>moq_protocol.cpp\<close>: a varint type, a 16-bit big-endian length and the
  content. Lemmas: a framed message is parsed back with exactly its bytes consumed, a proper prefix of
  it is refused (the caller waits for more bytes), and what was parsed does not depend on the bytes
  that follow. The length field is the content's size modulo \<open>2^16\<close>.
\<close>

section \<open>Message types\<close>

text \<open>
  \<open>enum class MessageType : uint64_t\<close>; a cast from any 64-bit value is defined in C++, so values that
  are no enumerator are kept in \<open>MT_Other\<close>.
\<close>

datatype MessageType =
    MT_Subscribe | MT_SubscribeOk | MT_SubscribeError | MT_Announce | MT_AnnounceOk | MT_AnnounceError
  | MT_SubscribeAnnounces | MT_SubscribeAnnouncesOk | MT_ClientSetup | MT_ServerSetup | MT_Other u64

fun type_code :: "MessageType \<Rightarrow> u64" where
  "type_code MT_Subscribe = 0x03"
| "type_code MT_SubscribeOk = 0x04"
| "type_code MT_SubscribeError = 0x05"
| "type_code MT_Announce = 0x06"
| "type_code MT_AnnounceOk = 0x07"
| "type_code MT_AnnounceError = 0x08"
| "type_code MT_SubscribeAnnounces = 0x11"
| "type_code MT_SubscribeAnnouncesOk = 0x12"
| "type_code MT_ClientSetup = 0x20"
| "type_code MT_ServerSetup = 0x21"
| "type_code (MT_Other x) = x"

definition type_of_code :: "u64 \<Rightarrow> MessageType" where
  "type_of_code x =
     (if x = 0x03 then MT_Subscribe else if x = 0x04 then MT_SubscribeOk
      else if x = 0x05 then MT_SubscribeError else if x = 0x06 then MT_Announce
      else if x = 0x07 then MT_AnnounceOk else if x = 0x08 then MT_AnnounceError
      else if x = 0x11 then MT_SubscribeAnnounces else if x = 0x12 then MT_SubscribeAnnouncesOk
      else if x = 0x20 then MT_ClientSetup else if x = 0x21 then MT_ServerSetup else MT_Other x)"

definition known_type :: "MessageType \<Rightarrow> bool" where
  "known_type t \<longleftrightarrow> (\<forall>x. t \<noteq> MT_Other x)"

lemma type_code_of_code [simp]: "type_code (type_of_code x) = x"
  by (simp add: type_of_code_def)

lemma type_of_code_code [simp]: "known_type t \<Longrightarrow> type_of_code (type_code t) = t"
  by (cases t) (simp_all add: type_of_code_def known_type_def)

lemma type_code_small: "known_type t \<Longrightarrow> type_code t \<le> 63"
  by (cases t) (simp_all add: known_type_def)

section \<open>Framing\<close>

definition build_control_message :: "MessageType \<Rightarrow> bytes \<Rightarrow> bytes" where
  "build_control_message type content =
     (let result = append_varint [] (type_code type);
          len = of_nat (length content) :: u16;
          result = result @ [ucast (drop_bit 8 len)];
          result = result @ [ucast (len AND 0xFF)]
      in result @ content)"

text \<open>
  The parsed type, the content (a slice of the buffer; its length is \<open>content_len\<close>) and the number of
  bytes consumed. The locations \<open>buffer[br]\<close> and \<open>buffer[br + 1]\<close> are inside the buffer by the test
  of \<open>header_size\<close> before them.
\<close>

definition parse_control_message :: "bytes \<Rightarrow> (MessageType \<times> bytes \<times> nat) outcome" where
  "parse_control_message buffer =
     (if length buffer < 3 then Reject
      else
        let (raw_type, br) = decode_varint buffer in
        if br = 0 then Reject
        else
          let header_size = br + 2 in
          if header_size > length buffer then Reject
          else
            let clen = push_bit 8 (ucast (buffer ! br)) OR ucast (buffer ! (br + 1)) :: u16;
                total = header_size + unat clen in
            if total > length buffer then Reject
            else Done (type_of_code raw_type, take (unat clen) (drop header_size buffer), total))"

lemma u16_of_bytes:
  fixes len :: u16
  shows "push_bit 8 (ucast (ucast (drop_bit 8 len) :: u8)) OR ucast (ucast (len AND 0xFF) :: u8) = len"
proof -
  have "be_value 0 (be_bytes 2 len) = take_bit 16 len"
    by (simp add: be_value_be_bytes)
  also have "take_bit 16 len = len"
    by (rule bit_word_eqI) (auto simp: bit_simps)
  finally show ?thesis
    by (simp add: be_bytes_unfold ucast_and_FF)
qed

lemma build_control_message_eq:
  "build_control_message t c = encode_varint (type_code t) @
     [ucast (drop_bit 8 (of_nat (length c) :: u16)), ucast ((of_nat (length c) :: u16) AND 0xFF)] @ c"
  by (simp add: build_control_message_def append_varint_def Let_def)

lemma length_build_control_message:
  "length (build_control_message t c) = varint_size (type_code t) + 2 + length c"
  by (simp add: build_control_message_eq)

text \<open>What the parser returns for a built message of any size: only \<open>length c mod 2^16\<close> bytes are taken.\<close>

lemma parse_build_control_message_any:
  assumes "type_code t \<le> varint_max"
  shows "parse_control_message (build_control_message t c @ rest)
     = Done (type_of_code (type_code t), take (length c mod 65536) c,
             varint_size (type_code t) + 2 + length c mod 65536)"
proof -
  let ?n = "of_nat (length c) :: u16"
  let ?buf = "build_control_message t c @ rest"
  let ?s = "varint_size (type_code t)"
  have buf: "?buf = encode_varint (type_code t) @
      [ucast (drop_bit 8 ?n), ucast (?n AND 0xFF)] @ c @ rest"
    by (simp add: build_control_message_eq)
  have d: "decode_varint ?buf = (type_code t, ?s)"
    by (simp add: buf wire_simps take_bit_of_range assms)
  have n: "unat ?n = length c mod 65536"
    by (simp add: unsigned_of_nat take_bit_eq_mod)
  have s: "1 \<le> ?s"
    by (rule varint_size_bounds)
  have "?buf ! ?s = ucast (drop_bit 8 ?n)" and "?buf ! (?s + 1) = ucast (?n AND 0xFF)"
    by (simp_all add: buf nth_append)
  then have clen: "push_bit 8 (ucast (?buf ! ?s)) OR ucast (?buf ! (?s + 1)) = ?n"
    by (simp only: u16_of_bytes)
  have dr: "drop (?s + 2) ?buf = c @ rest"
    by (simp add: buf)
  have len: "length ?buf = ?s + 2 + length c + length rest"
    by (simp add: length_build_control_message)
  have le: "length c mod 65536 \<le> length c"
    by simp
  show ?thesis
    unfolding parse_control_message_def d Let_def prod.case clen n dr len
    using s le by simp
qed

lemma parse_build_control_message [wire_simps]:
  assumes "known_type t" and "length c < 65536"
  shows "parse_control_message (build_control_message t c @ rest)
     = Done (t, c, length (build_control_message t c))"
proof -
  have "type_code t \<le> varint_max"
    using type_code_small [OF assms(1)] by (rule order_trans) (simp add: varint_max_def)
  then show ?thesis
    using assms by (simp add: parse_build_control_message_any length_build_control_message)
qed

lemma parse_control_message_consumed:
  assumes "parse_control_message buf = Done (t, c, n)"
  shows "3 \<le> n" and "n \<le> length buf" and "length c \<le> n - 3" and "length c < 65536"
proof -
  obtain raw br where d: "decode_varint buf = (raw, br)" by (cases "decode_varint buf")
  let ?clen = "push_bit 8 (ucast (buf ! br)) OR ucast (buf ! (br + 1)) :: u16"
  have "br \<noteq> 0" and "n = br + 2 + unat ?clen" and "n \<le> length buf" and "c = take (unat ?clen) (drop (br + 2) buf)"
    using assms d by (auto simp: parse_control_message_def Let_def split: if_splits)
  moreover have "unat ?clen < 2 ^ 16"
    using unsigned_less [of ?clen] by simp
  ultimately show "3 \<le> n" and "n \<le> length buf" and "length c \<le> n - 3" and "length c < 65536"
    by auto
qed

lemma parse_control_message_append:
  assumes "parse_control_message buf = Done r"
  shows "parse_control_message (buf @ rest) = Done r"
proof -
  obtain raw br where d: "decode_varint buf = (raw, br)" by (cases "decode_varint buf")
  have "br \<noteq> 0" and "br + 2 \<le> length buf"
    using assms d by (auto simp: parse_control_message_def Let_def split: if_splits)
  moreover from this d have "decode_varint (buf @ rest) = (raw, br)"
    by (simp add: decode_varint_append)
  ultimately show ?thesis
    using assms d by (auto simp: parse_control_message_def Let_def nth_append split: if_splits)
qed

lemma parse_control_message_no_crash [simp]: "no_crash (parse_control_message buf)"
  by (simp add: parse_control_message_def Let_def split: prod.split)

text \<open>A proper prefix of a framed message is not a message yet.\<close>

lemma parse_control_message_incomplete:
  assumes "known_type t" and "length c < 65536" and "k < length (build_control_message t c)"
  shows "parse_control_message (take k (build_control_message t c)) = Reject"
proof (cases "parse_control_message (take k (build_control_message t c))")
  case (Done r)
  let ?m = "build_control_message t c"
  have "parse_control_message (take k ?m @ drop k ?m @ []) = Done r"
    using parse_control_message_append [OF Done, of "drop k ?m @ []"] by simp
  then have "r = (t, c, length ?m)"
    using parse_build_control_message [OF assms(1,2), of "[]"] by simp
  with Done have "length ?m \<le> length (take k ?m)"
    using parse_control_message_consumed(2) [of "take k ?m" t c "length ?m"] by simp
  with assms(3) show ?thesis by simp
next
  case (Crash e)
  then show ?thesis
    using parse_control_message_no_crash [of "take k (build_control_message t c)"] by simp
qed simp

section \<open>Properties\<close>

text \<open>C29: a framed control message of fewer than \<open>2^16\<close> content bytes is parsed back, with exactly its own
  bytes consumed, whatever follows it in the stream, and no proper prefix of it is taken for a message.\<close>

theorem control_message_round_trip:
  assumes "known_type t" and "length c < 65536"
  shows "parse_control_message (build_control_message t c @ rest)
       = Done (t, c, length (build_control_message t c))
     \<and> (\<forall>k < length (build_control_message t c).
          parse_control_message (take k (build_control_message t c)) = Reject)"
  using parse_build_control_message [OF assms] parse_control_message_incomplete [OF assms] by simp

theorem control_message_round_trip_witness:
  "parse_control_message ([0x07, 0, 2, 10, 11] @ [0x20, 0]) = Done (MT_AnnounceOk, [10, 11], 5)
     \<and> parse_control_message [0x07, 0, 2, 10] = Reject"
proof -
  have b: "build_control_message MT_AnnounceOk [10, 11] = [0x07, 0, 2, 10, 11]"
    by code_simp
  show ?thesis
    using control_message_round_trip [of MT_AnnounceOk "[10, 11]" "[0x20, 0]"]
    by (auto simp: b known_type_def dest: spec [where x = 4])
qed

text \<open>\<open>build_control_message\<close> keeps only 16 bits of the content length, so a content of \<open>2^16\<close> bytes or
  more is parsed as its first \<open>length mod 2^16\<close> bytes and the rest is left in the stream as garbage.\<close>

theorem control_message_length_truncated:
  assumes "known_type t"
  shows "parse_control_message (build_control_message t c @ rest)
       = Done (t, take (length c mod 65536) c, 3 + length c mod 65536)"
proof -
  have "type_code t \<le> 63"
    using assms by (rule type_code_small)
  then have "type_code t \<le> varint_max" and "varint_size (type_code t) = 1"
    by (auto simp: varint_max_def varint_size_def intro: order_trans)
  then show ?thesis
    using assms by (simp add: parse_build_control_message_any)
qed

theorem control_message_length_truncated_witness:
  "parse_control_message (build_control_message MT_Subscribe (replicate 65537 7) @ [])
     = Done (MT_Subscribe, [7], 4)"
  using control_message_length_truncated [of MT_Subscribe "replicate 65537 7" "[]"]
  by (simp add: known_type_def)

end
