(* ===== verification/Messages.thy ===== *)
theory Messages
  imports Framing
begin

text \<open>
  The control messages of \<open>moq_protocol.cpp\<close>: a builder or a parser (or both) per message type, each
  message a record of the fields of the C++ struct. A parser works on the content of a framed message
  and starts at offset 0. The fields draft-16 moved into parameters are extracted by a loop over the
  decoded parameters, modelled by a fold.
\<close>

section \<open>Constants\<close>

definition kMoqVersion :: u64 where "kMoqVersion = 0xff000010"
definition kParamKeyPath :: u64 where "kParamKeyPath = 0x01"
definition kParamKeyMaxSubscribeId :: u64 where "kParamKeyMaxSubscribeId = 0x02"
definition kParamKeyAuthToken :: u64 where "kParamKeyAuthToken = 0x03"
definition kParamKeyForward :: u64 where "kParamKeyForward = 0x10"
definition kParamKeySubscriberPriority :: u64 where "kParamKeySubscriberPriority = 0x20"
definition kParamKeySubscriptionFilter :: u64 where "kParamKeySubscriptionFilter = 0x21"
definition kParamKeyGroupOrder :: u64 where "kParamKeyGroupOrder = 0x22"
definition kParamKeyExpires :: u64 where "kParamKeyExpires = 0x08"
definition kParamKeyLargestObject :: u64 where "kParamKeyLargestObject = 0x09"
definition kFilterLatestGroup :: u64 where "kFilterLatestGroup = 0x01"
definition kFilterLatestObject :: u64 where "kFilterLatestObject = 0x02"

lemmas param_keys = kParamKeyPath_def kParamKeyMaxSubscribeId_def kParamKeyAuthToken_def
  kParamKeyForward_def kParamKeySubscriberPriority_def kParamKeySubscriptionFilter_def
  kParamKeyGroupOrder_def kParamKeyExpires_def kParamKeyLargestObject_def

text \<open>A parameter with a varint value (even key) and one with bytes (odd key); the other member keeps its default.\<close>

definition int_param :: "u64 \<Rightarrow> u64 \<Rightarrow> KvpParam" where
  "int_param k v = \<lparr>kvp_key = k, kvp_int_value = v, kvp_bytes_value = []\<rparr>"

definition bytes_param :: "u64 \<Rightarrow> bytes \<Rightarrow> KvpParam" where
  "bytes_param k bs = \<lparr>kvp_key = k, kvp_int_value = 0, kvp_bytes_value = bs\<rparr>"

lemma kvp_key_params [simp]: "kvp_key (int_param k v) = k" "kvp_key (bytes_param k bs) = k"
  by (simp_all add: int_param_def bytes_param_def)

section \<open>CLIENT_SETUP and SERVER_SETUP\<close>

record ClientSetupConfig =
  csc_version :: u64
  csc_path :: bytes
  csc_max_subscribe_id :: u64

definition default_ClientSetupConfig :: ClientSetupConfig where
  "default_ClientSetupConfig = \<lparr>csc_version = kMoqVersion, csc_path = [0x2F], csc_max_subscribe_id = 100\<rparr>"

definition build_client_setup :: "ClientSetupConfig \<Rightarrow> bytes" where
  "build_client_setup config =
     build_control_message MT_ClientSetup
       (encode_params [bytes_param kParamKeyPath (csc_path config),
                       int_param kParamKeyMaxSubscribeId (csc_max_subscribe_id config)])"

record ServerSetupResult =
  ssr_version :: u64
  ssr_params :: "KvpParam list"

definition parse_server_setup :: "bytes \<Rightarrow> ServerSetupResult outcome" where
  "parse_server_setup content =
     and_then (decode_params content 0) (\<lambda>(params, offset).
       Done \<lparr>ssr_version = kMoqVersion, ssr_params = params\<rparr>)"

section \<open>SUBSCRIBE\<close>

record SubscribeConfig =
  subc_request_id :: u64
  subc_track_namespace :: "bytes list"
  subc_track_name :: bytes
  subc_priority :: u8
  subc_group_order :: u8
  subc_forward :: u8
  subc_filter_type :: u64
  subc_authorization :: bytes
  subc_extra_params :: "KvpParam list"

definition default_SubscribeConfig :: SubscribeConfig where
  "default_SubscribeConfig =
     \<lparr>subc_request_id = 0, subc_track_namespace = [], subc_track_name = [], subc_priority = 128,
      subc_group_order = 0, subc_forward = 0, subc_filter_type = kFilterLatestGroup,
      subc_authorization = [], subc_extra_params = []\<rparr>"

definition subscribe_params :: "SubscribeConfig \<Rightarrow> KvpParam list" where
  "subscribe_params config =
     [int_param kParamKeySubscriberPriority (ucast (subc_priority config)),
      int_param kParamKeyGroupOrder (ucast (subc_group_order config)),
      int_param kParamKeyForward (ucast (subc_forward config)),
      bytes_param kParamKeySubscriptionFilter (encode_varint (subc_filter_type config))]
     @ (if subc_authorization config \<noteq> [] then [bytes_param kParamKeyAuthToken (subc_authorization config)]
        else [])
     @ subc_extra_params config"

definition subscribe_content :: "SubscribeConfig \<Rightarrow> bytes" where
  "subscribe_content config =
     append_string_bytes (append_varint [] (subc_request_id config) @ encode_namespace (subc_track_namespace config))
       (subc_track_name config)
     @ encode_params (subscribe_params config)"

definition build_subscribe :: "SubscribeConfig \<Rightarrow> bytes" where
  "build_subscribe config = build_control_message MT_Subscribe (subscribe_content config)"

record SubscribeResult =
  subr_request_id :: u64
  subr_track_namespace :: "bytes list"
  subr_track_name :: bytes
  subr_priority :: u8
  subr_group_order :: u8
  subr_forward :: u8
  subr_filter_type :: u64
  subr_params :: "KvpParam list"

text \<open>One round of the switch over a parameter's key.\<close>

definition apply_subscribe_param :: "KvpParam \<Rightarrow> SubscribeResult \<Rightarrow> SubscribeResult" where
  "apply_subscribe_param p result =
     (if kvp_key p = kParamKeySubscriberPriority then result\<lparr>subr_priority := ucast (kvp_int_value p)\<rparr>
      else if kvp_key p = kParamKeyGroupOrder then result\<lparr>subr_group_order := ucast (kvp_int_value p)\<rparr>
      else if kvp_key p = kParamKeyForward then result\<lparr>subr_forward := ucast (kvp_int_value p)\<rparr>
      else if kvp_key p = kParamKeySubscriptionFilter then
        (if kvp_bytes_value p \<noteq> [] then
           let (ft, fo) = decode_varint (kvp_bytes_value p) in
           if fo > 0 then result\<lparr>subr_filter_type := ft\<rparr> else result
         else result)
      else result)"

definition parse_subscribe :: "bytes \<Rightarrow> SubscribeResult outcome" where
  "parse_subscribe content =
     and_then (read_varint content 0) (\<lambda>(request_id, offset).
     and_then (decode_namespace content offset) (\<lambda>(track_namespace, offset).
     and_then (read_string content offset) (\<lambda>(track_name, offset).
     and_then (decode_params content offset) (\<lambda>(params, offset).
       Done (fold apply_subscribe_param params
         \<lparr>subr_request_id = request_id, subr_track_namespace = track_namespace,
          subr_track_name = track_name, subr_priority = 128, subr_group_order = 1, subr_forward = 1,
          subr_filter_type = kFilterLatestObject, subr_params = params\<rparr>)))))"

section \<open>SUBSCRIBE_OK and SUBSCRIBE_ERROR\<close>

record SubscribeOkConfig =
  okc_request_id :: u64
  okc_track_alias :: u64
  okc_expires_ms :: u64
  okc_group_order :: u8
  okc_content_exists :: bool
  okc_largest_group_id :: u64
  okc_largest_object_id :: u64

definition default_SubscribeOkConfig :: SubscribeOkConfig where
  "default_SubscribeOkConfig =
     \<lparr>okc_request_id = 0, okc_track_alias = 0, okc_expires_ms = 0, okc_group_order = 0,
      okc_content_exists = False, okc_largest_group_id = 0, okc_largest_object_id = 0\<rparr>"

definition subscribe_ok_params :: "SubscribeOkConfig \<Rightarrow> KvpParam list" where
  "subscribe_ok_params config =
     (if okc_expires_ms config > 0 then [int_param kParamKeyExpires (okc_expires_ms config)] else [])
     @ (if okc_content_exists config then
          [bytes_param kParamKeyLargestObject
             (append_varint (append_varint [] (okc_largest_group_id config)) (okc_largest_object_id config))]
        else [])
     @ (if okc_group_order config \<noteq> 0 then [int_param kParamKeyGroupOrder (ucast (okc_group_order config))]
        else [])"

definition subscribe_ok_content :: "SubscribeOkConfig \<Rightarrow> bytes" where
  "subscribe_ok_content config =
     append_varint (append_varint [] (okc_request_id config)) (okc_track_alias config)
     @ encode_params (subscribe_ok_params config)"

definition build_subscribe_ok :: "SubscribeOkConfig \<Rightarrow> bytes" where
  "build_subscribe_ok config = build_control_message MT_SubscribeOk (subscribe_ok_content config)"

record SubscribeOkResult =
  okr_request_id :: u64
  okr_track_alias :: u64
  okr_expires_ms :: u64
  okr_group_order :: u8
  okr_content_exists :: bool
  okr_largest_group_id :: u64
  okr_largest_object_id :: u64
  okr_params :: "KvpParam list"

definition apply_subscribe_ok_param :: "KvpParam \<Rightarrow> SubscribeOkResult \<Rightarrow> SubscribeOkResult" where
  "apply_subscribe_ok_param p result =
     (if kvp_key p = kParamKeyExpires then result\<lparr>okr_expires_ms := kvp_int_value p\<rparr>
      else if kvp_key p = kParamKeyGroupOrder then result\<lparr>okr_group_order := ucast (kvp_int_value p)\<rparr>
      else if kvp_key p = kParamKeyLargestObject then
        (let (group, lo) = decode_varint (kvp_bytes_value p);
             result = result\<lparr>okr_content_exists := True, okr_largest_group_id := group\<rparr> in
         if lo > 0 then
           result\<lparr>okr_largest_object_id := fst (decode_varint (drop lo (kvp_bytes_value p)))\<rparr>
         else result)
      else result)"

definition parse_subscribe_ok :: "bytes \<Rightarrow> SubscribeOkResult outcome" where
  "parse_subscribe_ok content =
     and_then (read_varint content 0) (\<lambda>(request_id, offset).
     and_then (read_varint content offset) (\<lambda>(track_alias, offset).
     and_then (decode_params content offset) (\<lambda>(params, offset).
       Done (fold apply_subscribe_ok_param params
         \<lparr>okr_request_id = request_id, okr_track_alias = track_alias, okr_expires_ms = 0,
          okr_group_order = 0, okr_content_exists = False, okr_largest_group_id = 0,
          okr_largest_object_id = 0, okr_params = params\<rparr>))))"

record SubscribeErrorResult =
  ser_request_id :: u64
  ser_error_code :: u64
  ser_reason :: bytes
  ser_track_alias :: u64

definition parse_subscribe_error :: "bytes \<Rightarrow> SubscribeErrorResult outcome" where
  "parse_subscribe_error content =
     and_then (read_varint content 0) (\<lambda>(request_id, offset).
     and_then (read_varint content offset) (\<lambda>(error_code, offset).
     and_then (read_varint content offset) (\<lambda>(retry_interval, offset).
     and_then (read_string content offset) (\<lambda>(reason, offset).
       Done \<lparr>ser_request_id = request_id, ser_error_code = error_code, ser_reason = reason,
             ser_track_alias = 0\<rparr>))))"

section \<open>ANNOUNCE, ANNOUNCE_OK, SUBSCRIBE_ANNOUNCES\<close>

record AnnounceConfig =
  annc_request_id :: u64
  annc_track_namespace :: "bytes list"

definition announce_content :: "AnnounceConfig \<Rightarrow> bytes" where
  "announce_content config =
     append_varint (append_varint [] (annc_request_id config) @ encode_namespace (annc_track_namespace config)) 0"

definition build_announce :: "AnnounceConfig \<Rightarrow> bytes" where
  "build_announce config = build_control_message MT_Announce (announce_content config)"

record AnnounceResult =
  annr_request_id :: u64
  annr_track_namespace :: "bytes list"
  annr_params :: "KvpParam list"

definition parse_announce :: "bytes \<Rightarrow> AnnounceResult outcome" where
  "parse_announce content =
     and_then (read_varint content 0) (\<lambda>(request_id, offset).
     and_then (decode_namespace content offset) (\<lambda>(track_namespace, offset).
     and_then (decode_params content offset) (\<lambda>(params, offset).
       Done \<lparr>annr_request_id = request_id, annr_track_namespace = track_namespace, annr_params = params\<rparr>)))"

definition build_announce_ok :: "u64 \<Rightarrow> bytes" where
  "build_announce_ok request_id = build_control_message MT_AnnounceOk (append_varint [] request_id)"

definition parse_announce_ok :: "bytes \<Rightarrow> u64 outcome" where
  "parse_announce_ok content = and_then (read_varint content 0) (\<lambda>(request_id, offset). Done request_id)"

text \<open>\<open>SubscribeAnnouncesResult\<close> has the members of \<open>AnnounceResult\<close>.\<close>

record SubscribeAnnouncesResult =
  sar_request_id :: u64
  sar_track_namespace :: "bytes list"
  sar_params :: "KvpParam list"

definition parse_subscribe_announces :: "bytes \<Rightarrow> SubscribeAnnouncesResult outcome" where
  "parse_subscribe_announces content =
     and_then (read_varint content 0) (\<lambda>(request_id, offset).
     and_then (decode_namespace content offset) (\<lambda>(track_namespace, offset).
     and_then (decode_params content offset) (\<lambda>(params, offset).
       Done \<lparr>sar_request_id = request_id, sar_track_namespace = track_namespace, sar_params = params\<rparr>)))"

definition build_subscribe_announces_ok :: "u64 \<Rightarrow> bytes" where
  "build_subscribe_announces_ok request_id =
     build_control_message MT_SubscribeAnnouncesOk (append_varint [] request_id)"

section \<open>Round trips\<close>

lemma ucast_u8_ok [simp]: "(ucast (b :: u8) :: u64) \<le> varint_max"
proof -
  have "unat b < 256"
    using unsigned_less [of b] by simp
  then show ?thesis
    by (simp add: word_le_nat_alt varint_max_def unsigned_ucast_eq take_bit_nat_eq_self)
qed

lemma ucast_ucast_u8 [simp]: "ucast (ucast (b :: u8) :: u64) = b"
  by (rule bit_word_eqI) (auto simp: bit_simps)

lemma kvp_encodable_params [simp]:
  "kvp_encodable (int_param k v) \<longleftrightarrow> k \<le> varint_max \<and> v \<le> varint_max"
  "kvp_encodable (bytes_param k bs) \<longleftrightarrow> k \<le> varint_max"
  by (simp_all add: kvp_encodable_def int_param_def bytes_param_def)

lemma param_keys_small [simp]:
  "kParamKeyPath \<le> varint_max" "kParamKeyMaxSubscribeId \<le> varint_max" "kParamKeyAuthToken \<le> varint_max"
  "kParamKeyForward \<le> varint_max" "kParamKeySubscriberPriority \<le> varint_max"
  "kParamKeySubscriptionFilter \<le> varint_max" "kParamKeyGroupOrder \<le> varint_max"
  "kParamKeyExpires \<le> varint_max" "kParamKeyLargestObject \<le> varint_max"
  by (simp_all add: param_keys varint_max_def)

lemma canonical_int_param: "\<not> is_odd_key k \<Longrightarrow> kvp_canonical (int_param k v) = int_param k v"
  by (simp add: kvp_canonical_def int_param_def)

lemma canonical_bytes_param: "is_odd_key k \<Longrightarrow> kvp_canonical (bytes_param k bs) = bytes_param k bs"
  by (simp add: kvp_canonical_def bytes_param_def)

lemma param_parities [simp]:
  "is_odd_key kParamKeyPath" "\<not> is_odd_key kParamKeyMaxSubscribeId" "is_odd_key kParamKeyAuthToken"
  "\<not> is_odd_key kParamKeyForward" "\<not> is_odd_key kParamKeySubscriberPriority"
  "is_odd_key kParamKeySubscriptionFilter" "\<not> is_odd_key kParamKeyGroupOrder"
  "\<not> is_odd_key kParamKeyExpires" "is_odd_key kParamKeyLargestObject"
  by (simp_all add: is_odd_key_def param_keys)

text \<open>The parameters a receiver sees: sorted by key, each in the form the wire keeps.\<close>

definition wire_params :: "KvpParam list \<Rightarrow> KvpParam list" where
  "wire_params ps = map kvp_canonical (sort_key kvp_key ps)"

lemma filter_wire_params:
  assumes "\<And>p. Q (kvp_canonical p) \<longleftrightarrow> P p"
  shows "filter Q (wire_params ps) = map kvp_canonical (sort_key kvp_key (filter P ps))"
proof -
  have "Q \<circ> kvp_canonical = P"
    using assms by auto
  then show ?thesis
    by (simp add: wire_params_def filter_map filter_sort)
qed

lemma append_varint_Nil [simp]: "append_varint [] v = encode_varint v"
  by (simp add: append_varint_def)

lemma parse_subscribe_content:
  assumes "subc_request_id c \<le> varint_max" and "list_all kvp_encodable (subc_extra_params c)"
    and "fits_i32 (subscribe_content c)"
  shows "parse_subscribe (subscribe_content c) =
    Done (fold apply_subscribe_param (wire_params (subscribe_params c))
      \<lparr>subr_request_id = subc_request_id c, subr_track_namespace = subc_track_namespace c,
       subr_track_name = subc_track_name c, subr_priority = 128, subr_group_order = 1,
       subr_forward = 1, subr_filter_type = kFilterLatestObject,
       subr_params = wire_params (subscribe_params c)\<rparr>)"
proof -
  let ?id = "encode_varint (subc_request_id c)"
  let ?ns = "encode_namespace (subc_track_namespace c)"
  let ?nm = "append_string_bytes [] (subc_track_name c)"
  let ?ps = "encode_params (subscribe_params c)"
  let ?buf = "?id @ ?ns @ ?nm @ ?ps"
  have buf: "subscribe_content c = ?buf"
    by (simp add: subscribe_content_def append_string_bytes_eq [of "_ @ _"])
  have fits: "fits_i32 ?buf"
    using assms(3) by (simp only: buf)
  have id: "read_varint ?buf 0 = Done (subc_request_id c, length ?id)"
    using varint.dec_enc_at [of "subc_request_id c" ?buf "[]" "?ns @ ?nm @ ?ps" 0] assms(1) fits by simp
  have ns: "decode_namespace ?buf (length ?id) = Done (subc_track_namespace c, length ?id + length ?ns)"
    using fits by (intro namespace_tuple.dec_enc_at [where pre = ?id and post = "?nm @ ?ps"]) simp_all
  have nm: "read_string ?buf (length ?id + length ?ns)
      = Done (subc_track_name c, length ?id + length ?ns + length ?nm)"
    using fits by (intro string.dec_enc_at [where pre = "?id @ ?ns" and post = ?ps]) simp_all
  have "list_all kvp_encodable (subscribe_params c)"
    using assms(2) by (simp add: subscribe_params_def)
  then have ps: "decode_params ?buf (length ?id + length ?ns + length ?nm)
      = Done (wire_params (subscribe_params c), length ?buf)"
    using decode_params_enc [of "subscribe_params c" "?id @ ?ns @ ?nm" "[]"] fits
    by (simp add: wire_params_def add.assoc)
  show ?thesis
    unfolding buf parse_subscribe_def using id ns nm ps by simp
qed

text \<open>The keys the parser interprets; host parameters with other keys cannot disturb the fields.\<close>

definition reserved_subscribe_keys :: "u64 list" where
  "reserved_subscribe_keys =
     [kParamKeySubscriberPriority, kParamKeyGroupOrder, kParamKeyForward, kParamKeySubscriptionFilter]"

lemma subscribe_fields:
  "subr_priority (fold apply_subscribe_param ps r) =
     (let qs = filter (\<lambda>p. kvp_key p = kParamKeySubscriberPriority) ps in
      if qs = [] then subr_priority r else ucast (kvp_int_value (last qs)))"
  "subr_group_order (fold apply_subscribe_param ps r) =
     (let qs = filter (\<lambda>p. kvp_key p = kParamKeyGroupOrder) ps in
      if qs = [] then subr_group_order r else ucast (kvp_int_value (last qs)))"
  "subr_forward (fold apply_subscribe_param ps r) =
     (let qs = filter (\<lambda>p. kvp_key p = kParamKeyForward) ps in
      if qs = [] then subr_forward r else ucast (kvp_int_value (last qs)))"
  "subr_filter_type (fold apply_subscribe_param ps r) =
     (let qs = filter (\<lambda>p. kvp_key p = kParamKeySubscriptionFilter \<and> kvp_bytes_value p \<noteq> [] \<and>
                          snd (decode_varint (kvp_bytes_value p)) > 0) ps in
      if qs = [] then subr_filter_type r else fst (decode_varint (kvp_bytes_value (last qs))))"
  "subr_request_id (fold apply_subscribe_param ps r) = subr_request_id r"
  "subr_track_namespace (fold apply_subscribe_param ps r) = subr_track_namespace r"
  "subr_track_name (fold apply_subscribe_param ps r) = subr_track_name r"
  "subr_params (fold apply_subscribe_param ps r) = subr_params r"
  unfolding Let_def
  by (rule fold_last_write fold_unwritten;
      simp add: apply_subscribe_param_def param_keys Let_def split: prod.split)+

lemma subscribe_ok_fields:
  "okr_expires_ms (fold apply_subscribe_ok_param ps r) =
     (let qs = filter (\<lambda>p. kvp_key p = kParamKeyExpires) ps in
      if qs = [] then okr_expires_ms r else kvp_int_value (last qs))"
  "okr_group_order (fold apply_subscribe_ok_param ps r) =
     (let qs = filter (\<lambda>p. kvp_key p = kParamKeyGroupOrder) ps in
      if qs = [] then okr_group_order r else ucast (kvp_int_value (last qs)))"
  "okr_content_exists (fold apply_subscribe_ok_param ps r) =
     (let qs = filter (\<lambda>p. kvp_key p = kParamKeyLargestObject) ps in
      if qs = [] then okr_content_exists r else True)"
  "okr_largest_group_id (fold apply_subscribe_ok_param ps r) =
     (let qs = filter (\<lambda>p. kvp_key p = kParamKeyLargestObject) ps in
      if qs = [] then okr_largest_group_id r else fst (decode_varint (kvp_bytes_value (last qs))))"
  "okr_largest_object_id (fold apply_subscribe_ok_param ps r) =
     (let qs = filter (\<lambda>p. kvp_key p = kParamKeyLargestObject \<and>
                          snd (decode_varint (kvp_bytes_value p)) > 0) ps in
      if qs = [] then okr_largest_object_id r
      else fst (decode_varint (drop (snd (decode_varint (kvp_bytes_value (last qs))))
                                 (kvp_bytes_value (last qs)))))"
  "okr_request_id (fold apply_subscribe_ok_param ps r) = okr_request_id r"
  "okr_track_alias (fold apply_subscribe_ok_param ps r) = okr_track_alias r"
  "okr_params (fold apply_subscribe_ok_param ps r) = okr_params r"
  unfolding Let_def
  by (rule fold_last_write fold_unwritten;
      simp add: apply_subscribe_ok_param_def param_keys Let_def split: prod.split)+

lemma decode_encode_varint_alone:
  "v \<le> varint_max \<Longrightarrow> decode_varint (encode_varint v) = (v, varint_size v)"
  using decode_encode_varint [of v "[]"] by (simp add: take_bit_of_range)

lemma extra_params_filter:
  assumes "\<forall>p\<in>set extra. kvp_key p \<notin> set reserved_subscribe_keys"
    and "k \<in> set reserved_subscribe_keys"
  shows "filter (\<lambda>p. kvp_key p = k) extra = []" and "filter (\<lambda>p. kvp_key p = k \<and> Q p) extra = []"
  using assms by (auto simp: filter_empty_conv)

lemma subscribe_param_filters:
  assumes "\<forall>p\<in>set (subc_extra_params c). kvp_key p \<notin> set reserved_subscribe_keys"
    and "subc_filter_type c \<le> varint_max"
  shows "filter (\<lambda>p. kvp_key p = kParamKeySubscriberPriority) (wire_params (subscribe_params c))
      = [int_param kParamKeySubscriberPriority (ucast (subc_priority c))]"
    and "filter (\<lambda>p. kvp_key p = kParamKeyGroupOrder) (wire_params (subscribe_params c))
      = [int_param kParamKeyGroupOrder (ucast (subc_group_order c))]"
    and "filter (\<lambda>p. kvp_key p = kParamKeyForward) (wire_params (subscribe_params c))
      = [int_param kParamKeyForward (ucast (subc_forward c))]"
    and "filter (\<lambda>p. kvp_key p = kParamKeySubscriptionFilter) (wire_params (subscribe_params c))
      = [bytes_param kParamKeySubscriptionFilter (encode_varint (subc_filter_type c))]"
proof -
  have shape: "filter (\<lambda>p. kvp_key p = k) (wire_params (subscribe_params c))
      = map kvp_canonical (sort_key kvp_key (filter (\<lambda>p. kvp_key p = k) (subscribe_params c)))" for k
    by (rule filter_wire_params) simp
  show "filter (\<lambda>p. kvp_key p = kParamKeySubscriberPriority) (wire_params (subscribe_params c))
      = [int_param kParamKeySubscriberPriority (ucast (subc_priority c))]"
    "filter (\<lambda>p. kvp_key p = kParamKeyGroupOrder) (wire_params (subscribe_params c))
      = [int_param kParamKeyGroupOrder (ucast (subc_group_order c))]"
    "filter (\<lambda>p. kvp_key p = kParamKeyForward) (wire_params (subscribe_params c))
      = [int_param kParamKeyForward (ucast (subc_forward c))]"
    "filter (\<lambda>p. kvp_key p = kParamKeySubscriptionFilter) (wire_params (subscribe_params c))
      = [bytes_param kParamKeySubscriptionFilter (encode_varint (subc_filter_type c))]"
    unfolding shape using extra_params_filter(1) [OF assms(1)]
    by (simp_all add: subscribe_params_def reserved_subscribe_keys_def canonical_int_param
        canonical_bytes_param) (simp_all add: param_keys)
qed

lemma filter_conj: "filter (\<lambda>x. P x \<and> Q x) xs = filter Q (filter P xs)"
  by simp

lemma parse_subscribe_result:
  assumes "subc_request_id c \<le> varint_max" and "list_all kvp_encodable (subc_extra_params c)"
    and "\<forall>p\<in>set (subc_extra_params c). kvp_key p \<notin> set reserved_subscribe_keys"
    and "subc_filter_type c \<le> varint_max" and "fits_i32 (subscribe_content c)"
  shows "parse_subscribe (subscribe_content c) = Done
    \<lparr>subr_request_id = subc_request_id c, subr_track_namespace = subc_track_namespace c,
     subr_track_name = subc_track_name c, subr_priority = subc_priority c,
     subr_group_order = subc_group_order c, subr_forward = subc_forward c,
     subr_filter_type = subc_filter_type c, subr_params = wire_params (subscribe_params c)\<rparr>"
proof -
  note flt = subscribe_param_filters [OF assms(3,4)]
  have filter_param: "filter (\<lambda>p. kvp_key p = kParamKeySubscriptionFilter \<and> kvp_bytes_value p \<noteq> [] \<and>
        0 < snd (decode_varint (kvp_bytes_value p))) (wire_params (subscribe_params c))
      = [bytes_param kParamKeySubscriptionFilter (encode_varint (subc_filter_type c))]"
    unfolding filter_conj flt(4) using assms(4)
    by (simp add: bytes_param_def decode_encode_varint_alone)
  show ?thesis
    unfolding parse_subscribe_content [OF assms(1,2,5)] outcome.inject
    by (rule SubscribeResult.equality)
       (simp_all add: subscribe_fields flt filter_param Let_def,
        simp_all add: int_param_def bytes_param_def decode_encode_varint_alone assms(4))
qed

lemma parse_subscribe_ok_content:
  assumes "okc_request_id c \<le> varint_max" and "okc_track_alias c \<le> varint_max"
    and "okc_expires_ms c \<le> varint_max" and "fits_i32 (subscribe_ok_content c)"
  shows "parse_subscribe_ok (subscribe_ok_content c) =
    Done (fold apply_subscribe_ok_param (wire_params (subscribe_ok_params c))
      \<lparr>okr_request_id = okc_request_id c, okr_track_alias = okc_track_alias c, okr_expires_ms = 0,
       okr_group_order = 0, okr_content_exists = False, okr_largest_group_id = 0,
       okr_largest_object_id = 0, okr_params = wire_params (subscribe_ok_params c)\<rparr>)"
proof -
  let ?id = "encode_varint (okc_request_id c)"
  let ?al = "encode_varint (okc_track_alias c)"
  let ?ps = "encode_params (subscribe_ok_params c)"
  let ?buf = "?id @ ?al @ ?ps"
  have buf: "subscribe_ok_content c = ?buf"
    by (simp add: subscribe_ok_content_def append_varint_def)
  have fits: "fits_i32 ?buf"
    using assms(4) by (simp only: buf)
  have id: "read_varint ?buf 0 = Done (okc_request_id c, length ?id)"
    using varint.dec_enc_at [of "okc_request_id c" ?buf "[]" "?al @ ?ps" 0] assms(1) fits by simp
  have al: "read_varint ?buf (length ?id) = Done (okc_track_alias c, length ?id + length ?al)"
    using fits assms(2) by (intro varint.dec_enc_at [where pre = ?id and post = ?ps]) simp_all
  have "list_all kvp_encodable (subscribe_ok_params c)"
    using assms(3) by (simp add: subscribe_ok_params_def)
  then have ps: "decode_params ?buf (length ?id + length ?al)
      = Done (wire_params (subscribe_ok_params c), length ?buf)"
    using decode_params_enc [of "subscribe_ok_params c" "?id @ ?al" "[]"] fits
    by (simp add: wire_params_def add.assoc)
  show ?thesis
    unfolding buf parse_subscribe_ok_def using id al ps by simp
qed

lemma subscribe_ok_param_filters:
  "filter (\<lambda>p. kvp_key p = kParamKeyExpires) (wire_params (subscribe_ok_params c))
     = (if okc_expires_ms c > 0 then [int_param kParamKeyExpires (okc_expires_ms c)] else [])"
  "filter (\<lambda>p. kvp_key p = kParamKeyGroupOrder) (wire_params (subscribe_ok_params c))
     = (if okc_group_order c \<noteq> 0 then [int_param kParamKeyGroupOrder (ucast (okc_group_order c))] else [])"
  "filter (\<lambda>p. kvp_key p = kParamKeyLargestObject) (wire_params (subscribe_ok_params c))
     = (if okc_content_exists c then
          [bytes_param kParamKeyLargestObject
            (encode_varint (okc_largest_group_id c) @ encode_varint (okc_largest_object_id c))]
        else [])"
proof -
  have shape: "filter (\<lambda>p. kvp_key p = k) (wire_params (subscribe_ok_params c))
      = map kvp_canonical (sort_key kvp_key (filter (\<lambda>p. kvp_key p = k) (subscribe_ok_params c)))" for k
    by (rule filter_wire_params) simp
  have keys: "kParamKeyExpires \<noteq> kParamKeyGroupOrder" "kParamKeyExpires \<noteq> kParamKeyLargestObject"
    "kParamKeyGroupOrder \<noteq> kParamKeyLargestObject"
    by (simp_all add: param_keys)
  show "filter (\<lambda>p. kvp_key p = kParamKeyExpires) (wire_params (subscribe_ok_params c))
     = (if okc_expires_ms c > 0 then [int_param kParamKeyExpires (okc_expires_ms c)] else [])"
    "filter (\<lambda>p. kvp_key p = kParamKeyGroupOrder) (wire_params (subscribe_ok_params c))
     = (if okc_group_order c \<noteq> 0 then [int_param kParamKeyGroupOrder (ucast (okc_group_order c))] else [])"
    "filter (\<lambda>p. kvp_key p = kParamKeyLargestObject) (wire_params (subscribe_ok_params c))
     = (if okc_content_exists c then
          [bytes_param kParamKeyLargestObject
            (encode_varint (okc_largest_group_id c) @ encode_varint (okc_largest_object_id c))]
        else [])"
    unfolding shape unfolding subscribe_ok_params_def
    by (simp_all add: keys keys [symmetric] canonical_int_param canonical_bytes_param append_varint_def)
qed

lemma parse_subscribe_ok_result:
  assumes "okc_request_id c \<le> varint_max" and "okc_track_alias c \<le> varint_max"
    and "okc_expires_ms c \<le> varint_max" and "okc_largest_group_id c \<le> varint_max"
    and "okc_largest_object_id c \<le> varint_max" and "fits_i32 (subscribe_ok_content c)"
  shows "parse_subscribe_ok (subscribe_ok_content c) = Done
    \<lparr>okr_request_id = okc_request_id c, okr_track_alias = okc_track_alias c,
     okr_expires_ms = okc_expires_ms c, okr_group_order = okc_group_order c,
     okr_content_exists = okc_content_exists c,
     okr_largest_group_id = (if okc_content_exists c then okc_largest_group_id c else 0),
     okr_largest_object_id = (if okc_content_exists c then okc_largest_object_id c else 0),
     okr_params = wire_params (subscribe_ok_params c)\<rparr>"
proof -
  let ?loc = "encode_varint (okc_largest_group_id c) @ encode_varint (okc_largest_object_id c)"
  note flt = subscribe_ok_param_filters [of c]
  have d1: "decode_varint ?loc = (okc_largest_group_id c, varint_size (okc_largest_group_id c))"
    using assms(4) by (simp add: wire_simps take_bit_of_range)
  have flt_obj: "filter (\<lambda>p. kvp_key p = kParamKeyLargestObject \<and>
        0 < snd (decode_varint (kvp_bytes_value p))) (wire_params (subscribe_ok_params c))
      = (if okc_content_exists c then [bytes_param kParamKeyLargestObject ?loc] else [])"
    unfolding filter_conj flt(3) by (simp add: bytes_param_def d1)
  show ?thesis
    unfolding parse_subscribe_ok_content [OF assms(1-3,6)] outcome.inject
    by (rule SubscribeOkResult.equality)
       (simp_all add: subscribe_ok_fields flt flt_obj Let_def,
        simp_all add: int_param_def bytes_param_def d1 decode_encode_varint_alone assms(5) word_gt_0)
qed

lemma parse_announce_result:
  assumes "annc_request_id c \<le> varint_max" and "fits_i32 (announce_content c)"
  shows "parse_announce (announce_content c) = Done
    \<lparr>annr_request_id = annc_request_id c, annr_track_namespace = annc_track_namespace c, annr_params = []\<rparr>"
proof -
  let ?id = "encode_varint (annc_request_id c)"
  let ?ns = "encode_namespace (annc_track_namespace c)"
  let ?ps = "encode_params []"
  let ?buf = "?id @ ?ns @ ?ps"
  have buf: "announce_content c = ?buf"
    by (simp add: announce_content_def append_varint_def encode_params_def encode_sorted_params_eq)
  have fits: "fits_i32 ?buf"
    using assms(2) by (simp only: buf)
  have id: "read_varint ?buf 0 = Done (annc_request_id c, length ?id)"
    using varint.dec_enc_at [of "annc_request_id c" ?buf "[]" "?ns @ ?ps" 0] assms(1) fits by simp
  have ns: "decode_namespace ?buf (length ?id) = Done (annc_track_namespace c, length ?id + length ?ns)"
    using fits by (intro namespace_tuple.dec_enc_at [where pre = ?id and post = ?ps]) simp_all
  have ps: "decode_params ?buf (length ?id + length ?ns) = Done ([], length ?buf)"
    using decode_params_enc [of "[]" "?id @ ?ns" "[]"] fits by (simp add: add.assoc)
  show ?thesis
    unfolding buf parse_announce_def using id ns ps by simp
qed

lemma parse_announce_ok_result:
  "request_id \<le> varint_max \<Longrightarrow> parse_announce_ok (append_varint [] request_id) = Done request_id"
  by (simp add: parse_announce_ok_def read_varint_def decode_encode_varint_alone)

lemma parse_server_setup_result:
  assumes "list_all kvp_encodable ps" and "fits_i32 (encode_params ps)"
  shows "parse_server_setup (encode_params ps) = Done \<lparr>ssr_version = kMoqVersion, ssr_params = wire_params ps\<rparr>"
  using decode_params_enc [of ps "[]" "[]"] assms by (simp add: parse_server_setup_def wire_params_def)

section \<open>Properties\<close>

text \<open>C30: a SUBSCRIBE built from a configuration, framed, and parsed on the other side yields every field of
  the configuration, and its parameters sorted by key, provided the host's own parameters stay off
  the four keys draft-16 uses for fields.\<close>

theorem subscribe_round_trip:
  assumes "subc_request_id c \<le> varint_max" and "list_all kvp_encodable (subc_extra_params c)"
    and "\<forall>p\<in>set (subc_extra_params c). kvp_key p \<notin> set reserved_subscribe_keys"
    and "subc_filter_type c \<le> varint_max" and "length (subscribe_content c) < 65536"
  shows "parse_control_message (build_subscribe c @ rest)
       = Done (MT_Subscribe, subscribe_content c, length (build_subscribe c))
     \<and> parse_subscribe (subscribe_content c) = Done
    \<lparr>subr_request_id = subc_request_id c, subr_track_namespace = subc_track_namespace c,
     subr_track_name = subc_track_name c, subr_priority = subc_priority c,
     subr_group_order = subc_group_order c, subr_forward = subc_forward c,
     subr_filter_type = subc_filter_type c, subr_params = wire_params (subscribe_params c)\<rparr>"
proof -
  have "fits_i32 (subscribe_content c)"
    using assms(5) by (simp add: fits_i32_def i32_max_def)
  then show ?thesis
    using parse_subscribe_result [OF assms(1-4)] assms(5)
    by (simp add: build_subscribe_def wire_simps known_type_def)
qed

theorem subscribe_round_trip_witness:
  "\<exists>ps. parse_subscribe (subscribe_content (default_SubscribeConfig
       \<lparr>subc_request_id := 4, subc_track_namespace := [[0x61]], subc_track_name := [0x62],
        subc_priority := 9, subc_authorization := [1, 2], subc_extra_params := [bytes_param 0xFF01 [5]]\<rparr>)) = Done
    \<lparr>subr_request_id = 4, subr_track_namespace = [[0x61]], subr_track_name = [0x62],
     subr_priority = 9, subr_group_order = 0, subr_forward = 0, subr_filter_type = 1, subr_params = ps\<rparr>"
proof -
  let ?c = "default_SubscribeConfig
       \<lparr>subc_request_id := 4, subc_track_namespace := [[0x61]], subc_track_name := [0x62],
        subc_priority := 9, subc_authorization := [1, 2], subc_extra_params := [bytes_param 0xFF01 [5]]\<rparr>"
  have "length (subscribe_content ?c) \<le> 63"
    by code_simp
  then have len: "length (subscribe_content ?c) < 65536"
    by simp
  have keys: "0xFF01 \<notin> set reserved_subscribe_keys"
    by code_simp
  show ?thesis
    using subscribe_round_trip [of ?c "[]"] len keys
    by (simp add: default_SubscribeConfig_def kFilterLatestGroup_def varint_max_def)
qed

text \<open>A SUBSCRIBE_OK arrives with the track alias and the fields its builder put into parameters; the
  largest location is reported exactly when it exists.\<close>

theorem subscribe_ok_round_trip:
  assumes "okc_request_id c \<le> varint_max" and "okc_track_alias c \<le> varint_max"
    and "okc_expires_ms c \<le> varint_max" and "okc_largest_group_id c \<le> varint_max"
    and "okc_largest_object_id c \<le> varint_max" and "length (subscribe_ok_content c) < 65536"
  shows "parse_control_message (build_subscribe_ok c @ rest)
       = Done (MT_SubscribeOk, subscribe_ok_content c, length (build_subscribe_ok c))
     \<and> parse_subscribe_ok (subscribe_ok_content c) = Done
    \<lparr>okr_request_id = okc_request_id c, okr_track_alias = okc_track_alias c,
     okr_expires_ms = okc_expires_ms c, okr_group_order = okc_group_order c,
     okr_content_exists = okc_content_exists c,
     okr_largest_group_id = (if okc_content_exists c then okc_largest_group_id c else 0),
     okr_largest_object_id = (if okc_content_exists c then okc_largest_object_id c else 0),
     okr_params = wire_params (subscribe_ok_params c)\<rparr>"
proof -
  have "fits_i32 (subscribe_ok_content c)"
    using assms(6) by (simp add: fits_i32_def i32_max_def)
  then show ?thesis
    using parse_subscribe_ok_result [OF assms(1-5)] assms(6)
    by (simp add: build_subscribe_ok_def wire_simps known_type_def)
qed

theorem subscribe_ok_round_trip_witness:
  "\<exists>ps. parse_subscribe_ok (subscribe_ok_content (default_SubscribeOkConfig
       \<lparr>okc_request_id := 2, okc_track_alias := 7, okc_expires_ms := 1000, okc_content_exists := True,
        okc_largest_group_id := 300, okc_largest_object_id := 5\<rparr>)) = Done
    \<lparr>okr_request_id = 2, okr_track_alias = 7, okr_expires_ms = 1000, okr_group_order = 0,
     okr_content_exists = True, okr_largest_group_id = 300, okr_largest_object_id = 5, okr_params = ps\<rparr>"
proof -
  let ?c = "default_SubscribeOkConfig
       \<lparr>okc_request_id := 2, okc_track_alias := 7, okc_expires_ms := 1000, okc_content_exists := True,
        okc_largest_group_id := 300, okc_largest_object_id := 5\<rparr>"
  have "length (subscribe_ok_content ?c) \<le> 63"
    by code_simp
  then have len: "length (subscribe_ok_content ?c) < 65536"
    by simp
  show ?thesis
    using subscribe_ok_round_trip [of ?c "[]"] len
    by (simp add: default_SubscribeOkConfig_def varint_max_def)
qed

text \<open>An ANNOUNCE and the ANNOUNCE_OK that answers it carry the namespace and the request id across
  the wire.\<close>

theorem announce_round_trip:
  assumes "annc_request_id c \<le> varint_max" and "length (announce_content c) < 65536"
  shows "parse_control_message (build_announce c @ rest)
       = Done (MT_Announce, announce_content c, length (build_announce c))
     \<and> parse_announce (announce_content c) = Done
         \<lparr>annr_request_id = annc_request_id c, annr_track_namespace = annc_track_namespace c, annr_params = []\<rparr>
     \<and> and_then (parse_control_message (build_announce_ok (annc_request_id c) @ rest))
         (\<lambda>(t, content, consumed). Done (t, parse_announce_ok content))
       = Done (MT_AnnounceOk, Done (annc_request_id c))"
proof -
  have "fits_i32 (announce_content c)"
    using assms(2) by (simp add: fits_i32_def i32_max_def)
  moreover have "length (append_varint [] (annc_request_id c)) < 65536"
    using varint_size_bounds(2) [of "annc_request_id c"] by simp
  ultimately show ?thesis
    using parse_announce_result [OF assms(1)] parse_announce_ok_result [OF assms(1)] assms(2)
    by (simp add: build_announce_def build_announce_ok_def wire_simps known_type_def)
qed

theorem announce_round_trip_witness:
  "parse_announce (announce_content \<lparr>annc_request_id = 6, annc_track_namespace = [[0x6F], [0x70]]\<rparr>) = Done
     \<lparr>annr_request_id = 6, annr_track_namespace = [[0x6F], [0x70]], annr_params = []\<rparr>"
proof -
  let ?c = "\<lparr>annc_request_id = 6, annc_track_namespace = [[0x6F], [0x70]]\<rparr>"
  have "length (announce_content ?c) \<le> 63"
    by code_simp
  then have "length (announce_content ?c) < 65536"
    by simp
  then show ?thesis
    using announce_round_trip [of ?c "[]"] by (simp add: varint_max_def)
qed

end
