(* ===== verification/Datagram.thy ===== *)
theory Datagram
  imports Wire
begin

text \<open>
  The OBJECT_DATAGRAM of \<open>moq_protocol.cpp\<close>: the allocating builder, the builder that writes only the
  header into a caller's buffer, and the parser with its loop over header extensions. Offsets of the
  parser are \<open>int32_t\<close>, modelled by \<open>int\<close>, because the extension loop can move them backwards.
\<close>

definition kDatagramTypePlain :: u64 where "kDatagramTypePlain = 0x00"
definition kDatagramTypeExtensions :: u64 where "kDatagramTypeExtensions = 0x01"

text \<open>
  The payload is a pointer and a length; \<open>None\<close> is \<open>nullptr\<close>. Copying \<open>payload_len\<close> bytes needs that
  many bytes behind the pointer.
\<close>

definition build_object_datagram ::
    "u64 \<Rightarrow> u64 \<Rightarrow> u64 \<Rightarrow> u8 \<Rightarrow> bytes option \<Rightarrow> int \<Rightarrow> bytes outcome" where
  "build_object_datagram track_alias group_id object_id priority payload payload_len =
     (let result = append_varint [] kDatagramTypePlain;
          result = append_varint result track_alias;
          result = append_varint result group_id;
          result = append_varint result object_id;
          result = result @ [priority] in
      case payload of
        None \<Rightarrow> Done result
      | Some bs \<Rightarrow>
          if payload_len > 0 then and_then (mem_read bs 0 (nat payload_len)) (\<lambda>p. Done (result @ p))
          else Done result)"

text \<open>The header fields are written one after the other at the start of the caller's buffer.\<close>

definition object_datagram_header :: "u64 \<Rightarrow> u64 \<Rightarrow> u64 \<Rightarrow> u8 \<Rightarrow> bytes" where
  "object_datagram_header track_alias group_id object_id priority =
     encode_varint kDatagramTypePlain @ encode_varint track_alias @ encode_varint group_id @
     encode_varint object_id @ [priority]"

definition build_object_datagram_header ::
    "u64 \<Rightarrow> u64 \<Rightarrow> u64 \<Rightarrow> u8 \<Rightarrow> bytes \<Rightarrow> (bytes \<times> nat) outcome" where
  "build_object_datagram_header track_alias group_id object_id priority header_buffer =
     (let header = object_datagram_header track_alias group_id object_id priority in
      and_then (mem_write header_buffer 0 header) (\<lambda>buf. Done (buf, length header)))"

record ObjectDatagram =
  dg_track_alias :: u64
  dg_group_id :: u64
  dg_object_id :: u64
  dg_priority :: u8
  dg_payload :: bytes

text \<open>\<open>decode_varint(data + offset, len - offset, br)\<close>; a negative offset reads before the buffer.\<close>

definition decode_at :: "bytes \<Rightarrow> int \<Rightarrow> (u64 \<times> int) outcome" where
  "decode_at data offset =
     (if offset < 0 then Crash OutOfBounds
      else
        let (v, br) = decode_varint (drop (nat offset) data) in
        if br = 0 then Reject else Done (v, offset + int br))"

text \<open>One round of the extension loop: the key, the length of the value and the value are skipped.\<close>

definition skip_extension :: "bytes \<Rightarrow> int \<Rightarrow> int outcome" where
  "skip_extension data offset =
     and_then (decode_at data offset) (\<lambda>(key, offset).
     and_then (decode_at data offset) (\<lambda>(val_len, offset).
     and_then (i32_add offset (as_i32 val_len)) (\<lambda>offset.
       if offset > int (length data) then Reject else Done offset)))"

text \<open>
  The loop \<open>for (uint64_t i = 0; i < ext_count; ++i)\<close>. Its value is the offset behind the last round and
  \<open>i\<close> at that point, which is the number of rounds that were run.
\<close>

lemma unat_Suc_below: "i < n \<Longrightarrow> unat (i + 1) = Suc (unat i)" for i n :: u64
  using unsigned_less [where 'a = nat and w = n] by (simp add: word_less_nat_alt unat_word_ariths)

function skip_extensions :: "u64 \<Rightarrow> u64 \<Rightarrow> bytes \<Rightarrow> int \<Rightarrow> (int \<times> u64) outcome" where
  "skip_extensions ext_count i data offset =
     (if i < ext_count then
        and_then (skip_extension data offset) (\<lambda>offset. skip_extensions ext_count (i + 1) data offset)
      else Done (offset, i))"
  by pat_completeness auto
termination
proof (relation "measure (\<lambda>(n, i, _). unat n - unat i)", goal_cases)
  case 1
  then show ?case by simp
next
  case (2 n i data off off')
  then show ?case
    using unat_Suc_below [of i n] by (simp add: word_less_nat_alt)
qed

declare skip_extensions.simps [simp del]

text \<open>The parser, with the number of rounds of its extension loop beside the datagram.\<close>

definition parse_datagram_rounds :: "bytes \<Rightarrow> (ObjectDatagram \<times> u64) outcome" where
  "parse_datagram_rounds data =
     and_then (decode_at data 0) (\<lambda>(type, offset).
     if type \<noteq> 0x00 \<and> type \<noteq> 0x01 then Reject
     else
     and_then (decode_at data offset) (\<lambda>(track_alias, offset).
     and_then (decode_at data offset) (\<lambda>(group_id, offset).
     and_then (decode_at data offset) (\<lambda>(object_id, offset).
     if offset \<ge> int (length data) then Reject
     else
       let priority = data ! nat offset; offset = offset + 1 in
       and_then
         (if type = 0x01 then
            and_then (decode_at data offset) (\<lambda>(ext_count, offset). skip_extensions ext_count 0 data offset)
          else Done (offset, 0))
         (\<lambda>(offset, i).
            if offset < 0 then Crash OutOfBounds
            else Done (\<lparr>dg_track_alias = track_alias, dg_group_id = group_id, dg_object_id = object_id,
                        dg_priority = priority, dg_payload = drop (nat offset) data\<rparr>, i))))))"

definition parse_object_datagram :: "bytes \<Rightarrow> ObjectDatagram outcome" where
  "parse_object_datagram data = and_then (parse_datagram_rounds data) (\<lambda>(datagram, _). Done datagram)"

section \<open>Building\<close>

lemma length_object_datagram_header: "length (object_datagram_header a g ob p) \<le> 26"
  using varint_size_bounds(2) [of a] varint_size_bounds(2) [of g] varint_size_bounds(2) [of ob]
  by (simp add: object_datagram_header_def kDatagramTypePlain_def varint_size_def)

lemma build_object_datagram_eq:
  "build_object_datagram a g ob p (Some payload) (int (length payload))
     = Done (object_datagram_header a g ob p @ payload)"
  by (simp add: build_object_datagram_def object_datagram_header_def append_varint_def Let_def mem_read_def)

section \<open>Parsing\<close>

lemma decode_at_Done:
  "decode_at data off = Done (v, off') \<Longrightarrow> 0 \<le> off \<and> off < off' \<and> off' \<le> int (length data)"
  by (cases "decode_varint (drop (nat off) data)")
    (auto simp: decode_at_def split: if_splits dest: decode_varint_bounds(2))

lemma decode_at_no_crash: "0 \<le> off \<Longrightarrow> no_crash (decode_at data off)"
  by (simp add: decode_at_def Let_def split: prod.split)

lemma decode_at_enc:
  assumes "v \<le> varint_max" and "data = pre @ encode_varint v @ post" and "off = int (length pre)"
  shows "decode_at data off = Done (v, off + int (varint_size v))"
  using assms by (simp add: decode_at_def wire_simps take_bit_of_range)

lemma parse_object_datagram_header:
  assumes "a \<le> varint_max" and "g \<le> varint_max" and "ob \<le> varint_max"
  shows "parse_object_datagram (object_datagram_header a g ob p @ payload) = Done
    \<lparr>dg_track_alias = a, dg_group_id = g, dg_object_id = ob, dg_priority = p, dg_payload = payload\<rparr>"
proof -
  let ?t = "encode_varint kDatagramTypePlain"
  let ?data = "?t @ encode_varint a @ encode_varint g @ encode_varint ob @ p # payload"
  have t: "decode_at ?data 0 = Done (0, int (length ?t))"
    using decode_at_enc [of kDatagramTypePlain ?data "[]"]
    by (simp add: kDatagramTypePlain_def varint_max_def)
  have a: "decode_at ?data (int (length ?t)) = Done (a, int (length (?t @ encode_varint a)))"
    using decode_at_enc [of a ?data ?t] assms by simp
  have g: "decode_at ?data (int (length (?t @ encode_varint a)))
      = Done (g, int (length (?t @ encode_varint a @ encode_varint g)))"
    using decode_at_enc [of g ?data "?t @ encode_varint a"] assms by simp
  have ob: "decode_at ?data (int (length (?t @ encode_varint a @ encode_varint g)))
      = Done (ob, int (length (?t @ encode_varint a @ encode_varint g @ encode_varint ob)))"
    using decode_at_enc [of ob ?data "?t @ encode_varint a @ encode_varint g"] assms by simp
  let ?k = "length (?t @ encode_varint a @ encode_varint g @ encode_varint ob)"
  have "?data ! ?k = p" and "drop (Suc ?k) ?data = payload"
    by (simp_all add: nth_append)
  moreover have "nat (int ?k + 1) = Suc ?k" and "nat (int ?k) = ?k"
    by simp_all
  moreover have "\<not> int (length ?data) \<le> int ?k"
    by simp
  ultimately have "parse_object_datagram ?data = Done
    \<lparr>dg_track_alias = a, dg_group_id = g, dg_object_id = ob, dg_priority = p, dg_payload = payload\<rparr>"
    unfolding parse_object_datagram_def parse_datagram_rounds_def t and_then.simps prod.case Let_def a g ob
    by simp
  then show ?thesis
    by (simp add: object_datagram_header_def)
qed

lemma no_crash_decode_at_then:
  assumes "0 \<le> off"
    and "\<And>v off'. decode_at data off = Done (v, off') \<Longrightarrow> 0 \<le> off' \<Longrightarrow> no_crash (f (v, off'))"
  shows "no_crash (and_then (decode_at data off) f)"
  using assms decode_at_no_crash [of off data]
  by (cases "decode_at data off") (auto dest: decode_at_Done)

text \<open>A plain datagram is read within its bounds, whatever its bytes are.\<close>

lemma parse_object_datagram_plain_no_crash:
  assumes "fst (decode_varint data) \<noteq> kDatagramTypeExtensions"
  shows "no_crash (parse_object_datagram data)"
proof -
  have type: "t \<noteq> 0x01" if "decode_at data 0 = Done (t, off)" for t off
    using that assms by (auto simp: decode_at_def kDatagramTypeExtensions_def split: if_splits prod.splits)
  show ?thesis
    unfolding parse_object_datagram_def parse_datagram_rounds_def
    by (auto simp: Let_def intro!: no_crash_and_then no_crash_decode_at_then dest: type)
qed

section \<open>Well-formed extensions\<close>

text \<open>The format of an extension as the parser reads it: a key, the length of the value and the value.\<close>

definition encode_extension :: "u64 \<times> bytes \<Rightarrow> bytes" where
  "encode_extension e = encode_varint (fst e) @ encode_varint (of_nat (length (snd e))) @ snd e"

lemma skip_extension_enc:
  assumes "k \<le> varint_max" and "data = pre @ encode_extension (k, v) @ post" and "fits_i32 data"
    and "off = int (length pre)"
  shows "skip_extension data off = Done (off + int (length (encode_extension (k, v))))"
proof -
  let ?n = "of_nat (length v) :: u64"
  have fits: "length pre + varint_size k + varint_size ?n + length v \<le> 2147483647"
    using assms(2,3) by (simp add: fits_i32_def i32_max_def encode_extension_def)
  have n: "as_i32 ?n = int (length v)"
    using fits by (intro as_i32_unat unat_of_nat_length) simp_all
  have n_ok: "?n \<le> varint_max"
    using fits by (intro of_nat_length_ok) (simp add: fits_i32_def i32_max_def)
  have k: "decode_at data off = Done (k, off + int (varint_size k))"
    by (rule decode_at_enc [where post = "encode_varint ?n @ v @ post"])
      (use assms in \<open>simp_all add: encode_extension_def\<close>)
  have l: "decode_at data (off + int (varint_size k)) = Done (?n, off + int (varint_size k) + int (varint_size ?n))"
    by (rule decode_at_enc [where pre = "pre @ encode_varint k" and post = "v @ post"])
      (use assms n_ok in \<open>simp_all add: encode_extension_def\<close>)
  have add: "i32_add (off + int (varint_size k) + int (varint_size ?n)) (int (length v))
      = Done (off + int (varint_size k) + int (varint_size ?n) + int (length v))"
    using fits assms(4) by (intro i32_add_Done) (simp_all add: i32_max_def)
  have "off + int (varint_size k) + int (varint_size ?n) + int (length v) \<le> int (length data)"
    using assms(2,4) by (simp add: encode_extension_def)
  with k l n add show ?thesis
    by (simp add: skip_extension_def encode_extension_def algebra_simps)
qed

lemma skip_extensions_Suc:
  assumes "skip_extension data off = Done off'" and "i < n"
  shows "skip_extensions n i data off = skip_extensions n (i + 1) data off'"
    and "unat (i + 1) = Suc (unat i)"
  using assms unat_Suc_below [of i n] by (simp_all add: skip_extensions.simps [of n i])

lemma skip_extensions_stop: "skip_extensions n n data off = Done (off, n)"
  by (simp add: skip_extensions.simps)

lemma skip_extensions_enc:
  "list_all (\<lambda>e. fst e \<le> varint_max) exts \<Longrightarrow> data = pre @ concat (map encode_extension exts) @ post \<Longrightarrow>
     fits_i32 data \<Longrightarrow> off = int (length pre) \<Longrightarrow> unat n = unat i + length exts \<Longrightarrow>
     skip_extensions n i data off
       = Done (off + int (length (concat (map encode_extension exts))), n)"
proof (induction exts arbitrary: pre off i)
  case Nil
  then have "i = n" by (simp add: word_unat_eq_iff)
  then show ?case by (simp add: skip_extensions_stop)
next
  case (Cons e exts)
  obtain k v where e: "e = (k, v)"
    by (cases e)
  have i: "i < n"
    using Cons.prems by (simp add: word_less_nat_alt)
  have step: "skip_extension data off = Done (off + int (length (encode_extension (k, v))))"
    by (rule skip_extension_enc [where post = "concat (map encode_extension exts) @ post"])
      (use Cons.prems e in simp_all)
  note round = skip_extensions_Suc [OF step i]
  have "skip_extensions n (i + 1) data (off + int (length (encode_extension (k, v))))
      = Done (off + int (length (encode_extension (k, v))) + int (length (concat (map encode_extension exts))), n)"
    by (rule Cons.IH [where pre = "pre @ encode_extension (k, v)"]) (use Cons.prems e round(2) in simp_all)
  with round(1) e show ?case by (simp add: add.assoc)
qed

lemma length_concat_extensions: "length exts \<le> length (concat (map encode_extension exts))"
proof (induction exts)
  case Nil
  then show ?case by simp
next
  case (Cons e exts)
  have "1 \<le> length (encode_extension e)"
    using varint_size_bounds(1) [of "fst e"] by (simp add: encode_extension_def)
  with Cons show ?case by simp
qed

text \<open>A round whose value length is below \<open>2^31\<close> moves forward.\<close>

lemma skip_extension_progress:
  assumes "skip_extension data off = Done off'" and "fits_i32 data"
    and "\<And>len o1 o2 k. decode_at data off = Done (k, o1) \<Longrightarrow> decode_at data o1 = Done (len, o2) \<Longrightarrow> 0 \<le> as_i32 len"
  shows "off + 2 \<le> off' \<and> off' \<le> int (length data)"
proof -
  obtain k o1 len o2 where k: "decode_at data off = Done (k, o1)" and len: "decode_at data o1 = Done (len, o2)"
    and "i32_add o2 (as_i32 len) = Done off'" and "off' \<le> int (length data)"
    using assms(1) by (auto simp: skip_extension_def outcome_simps split: if_splits)
  then have "off' = o2 + as_i32 len"
    by (auto simp: i32_add_def split: if_splits)
  with assms(3) [OF k len] decode_at_Done [OF k] decode_at_Done [OF len] \<open>off' \<le> int (length data)\<close>
  show ?thesis by simp
qed

section \<open>The extension loop\<close>

text \<open>
  With extension lengths below \<open>2^31\<close> a round moves forward by at least two bytes, so the rounds are
  bounded by the datagram. A length whose low 32 bits are negative moves the offset back instead, and
  when it undoes the round's own progress the loop stands still for all of its \<open>ext_count\<close> rounds.
\<close>

lemma skip_extensions_fixpoint:
  "skip_extension data off = Done off \<Longrightarrow> i \<le> n \<Longrightarrow> skip_extensions n i data off = Done (off, n)"
proof (induction n i data off rule: skip_extensions.induct)
  case (1 n i data off)
  show ?case
  proof (cases "i < n")
    case True
    then have "i + 1 \<le> n" by (simp add: inc_le)
    with 1 True show ?thesis by (simp add: skip_extensions_Suc(1))
  next
    case False
    with 1 show ?thesis by (simp add: skip_extensions_stop)
  qed
qed

definition extension_moves_back :: "bytes \<Rightarrow> int \<Rightarrow> bool" where
  "extension_moves_back data offset =
     (case and_then (decode_at data offset) (\<lambda>(key, offset). decode_at data offset) of
        Done (val_len, _) \<Rightarrow> as_i32 val_len < 0
      | _ \<Rightarrow> False)"

lemma skip_extension_forward:
  assumes "skip_extension data off = Done off'" and "fits_i32 data" and "\<not> extension_moves_back data off"
  shows "off + 2 \<le> off'" and "off' \<le> int (length data)"
  using skip_extension_progress [OF assms(1,2)] assms(3)
  by (force simp: extension_moves_back_def)+

lemma skip_extensions_forward:
  "skip_extensions n i data off = Done (off', r) \<Longrightarrow> fits_i32 data \<Longrightarrow> off \<le> int (length data) \<Longrightarrow>
     \<forall>at. \<not> extension_moves_back data at \<Longrightarrow>
     unat i \<le> unat r \<and> off + 2 * (int (unat r) - int (unat i)) \<le> int (length data)"
proof (induction n i data off rule: skip_extensions.induct)
  case (1 n i data off)
  show ?case
  proof (cases "i < n")
    case True
    with "1.prems"(1) obtain o1 where o1: "skip_extension data off = Done o1"
      by (auto simp: skip_extensions.simps [of n i] outcome_simps)
    with True "1.IH" "1.prems" show ?thesis
      using skip_extension_forward [OF o1] skip_extensions_Suc [OF o1 True] by fastforce
  next
    case False
    with "1.prems" show ?thesis by (simp add: skip_extensions.simps [of n i])
  qed
qed

lemma parse_datagram_rounds_extended:
  assumes "a \<le> varint_max" and "g \<le> varint_max" and "ob \<le> varint_max" and "n \<le> varint_max"
    and "data = encode_varint kDatagramTypeExtensions @ encode_varint a @ encode_varint g @ encode_varint ob
         @ [p] @ encode_varint n @ post"
    and "off = int (length (encode_varint kDatagramTypeExtensions @ encode_varint a @ encode_varint g
         @ encode_varint ob @ [p] @ encode_varint n))"
    and "skip_extensions n 0 data off = Done (off', r)" and "0 \<le> off'"
  shows "parse_datagram_rounds data = Done
    (\<lparr>dg_track_alias = a, dg_group_id = g, dg_object_id = ob, dg_priority = p,
      dg_payload = drop (nat off') data\<rparr>, r)"
proof -
  let ?h = "encode_varint kDatagramTypeExtensions"
  define k where "k = length (?h @ encode_varint a @ encode_varint g @ encode_varint ob)"
  have d: "decode_at data 0 = Done (1, int (length ?h))"
    by (rule decode_at_enc [of kDatagramTypeExtensions _ "[]", THEN trans])
      (simp_all add: assms(5) kDatagramTypeExtensions_def varint_max_def)
  have da: "decode_at data (int (length ?h)) = Done (a, int (length (?h @ encode_varint a)))"
    by (rule decode_at_enc [of a _ ?h, THEN trans]) (simp_all add: assms(1,5))
  have dg: "decode_at data (int (length (?h @ encode_varint a)))
      = Done (g, int (length (?h @ encode_varint a @ encode_varint g)))"
    by (rule decode_at_enc [of g _ "?h @ encode_varint a", THEN trans]) (simp_all add: assms(2,5))
  have dob: "decode_at data (int (length (?h @ encode_varint a @ encode_varint g))) = Done (ob, int k)"
    by (rule decode_at_enc [of ob _ "?h @ encode_varint a @ encode_varint g", THEN trans]) (simp_all add: assms(3,5) k_def)
  have dn: "decode_at data (int k + 1) = Done (n, off)"
    by (rule decode_at_enc [where pre = "?h @ encode_varint a @ encode_varint g @ encode_varint ob @ [p]", THEN trans])
      (use assms(4) in \<open>simp_all add: assms(5,6) k_def\<close>)
  have "data ! k = p" and "\<not> int (length data) \<le> int k"
    by (simp_all add: assms(5) k_def nth_append)
  with assms(8) show ?thesis
    unfolding parse_datagram_rounds_def d and_then.simps prod.case Let_def da dg dob
    by (simp add: dn assms(7))
qed

text \<open>
  A round that undoes itself: a key of one byte and the length \<open>0xFFFFFFF7\<close> in eight, whose low 32 bits
  are -9, exactly the bytes the round has consumed.
\<close>

definition standing_extension :: bytes where
  "standing_extension = encode_varint 0 @ encode_varint 0xFFFFFFF7"

lemma standing_round:
  assumes "data = pre @ standing_extension" and "fits_i32 data" and "off = int (length pre)"
  shows "skip_extension data off = Done off"
proof -
  have size: "varint_size 0 = 1" "varint_size 0xFFFFFFF7 = 8" and neg: "as_i32 0xFFFFFFF7 = - 9"
    by code_simp+
  have k: "decode_at data off = Done (0, off + 1)"
    by (rule decode_at_enc [where post = "encode_varint 0xFFFFFFF7", THEN trans])
      (use assms size in \<open>simp_all add: standing_extension_def\<close>)
  have l: "decode_at data (off + 1) = Done (0xFFFFFFF7, off + 9)"
    by (rule decode_at_enc [where pre = "pre @ encode_varint 0" and post = "[]", THEN trans])
      (use assms size in \<open>simp_all add: standing_extension_def varint_max_def\<close>)
  have "i32_add (off + 9) (- 9) = Done off" and "off \<le> int (length data)"
    using assms by (auto simp: fits_i32_def i32_max_def i32_add_def)
  with k l show ?thesis
    by (simp add: skip_extension_def neg)
qed

definition standing_datagram :: "u64 \<Rightarrow> u64 \<Rightarrow> u64 \<Rightarrow> u8 \<Rightarrow> u64 \<Rightarrow> bytes" where
  "standing_datagram a g ob p n =
     encode_varint kDatagramTypeExtensions @ encode_varint a @ encode_varint g @ encode_varint ob
       @ [p] @ encode_varint n @ standing_extension"

lemma length_standing_datagram: "length (standing_datagram a g ob p n) \<le> 43"
proof -
  have "length standing_extension = 9" and "length (encode_varint kDatagramTypeExtensions) = 1"
    by code_simp+
  then show ?thesis
    using varint_size_bounds(2) [of a] varint_size_bounds(2) [of g] varint_size_bounds(2) [of ob]
      varint_size_bounds(2) [of n]
    by (simp add: standing_datagram_def)
qed

lemma standing_datagram_rounds:
  assumes "a \<le> varint_max" and "g \<le> varint_max" and "ob \<le> varint_max" and "n \<le> varint_max"
  shows "parse_datagram_rounds (standing_datagram a g ob p n) = Done
    (\<lparr>dg_track_alias = a, dg_group_id = g, dg_object_id = ob, dg_priority = p,
      dg_payload = standing_extension\<rparr>, n)"
proof -
  let ?pre = "encode_varint kDatagramTypeExtensions @ encode_varint a @ encode_varint g @ encode_varint ob
    @ [p] @ encode_varint n"
  let ?d = "standing_datagram a g ob p n"
  have d: "?d = ?pre @ standing_extension"
    by (simp add: standing_datagram_def)
  have "fits_i32 ?d"
    using length_standing_datagram [of a g ob p n] by (simp add: fits_i32_def i32_max_def)
  from standing_round [OF d this refl]
  have "skip_extensions n 0 ?d (int (length ?pre)) = Done (int (length ?pre), n)"
    by (rule skip_extensions_fixpoint) simp
  from parse_datagram_rounds_extended [OF assms _ refl this] show ?thesis
    by (simp add: standing_datagram_def nat_add_distrib)
qed

lemma allows_decode_at:
  assumes "\<And>v off'. 0 \<le> off' \<Longrightarrow> off' \<le> int (length data) \<Longrightarrow> allows (f (v, off')) P"
  shows "allows (and_then (decode_at data off) f) P"
  using assms decode_at_Done [of data off] by (cases "decode_at data off") force+

lemma datagram_rounds_bounded:
  assumes "fits_i32 bs" and "\<forall>off. \<not> extension_moves_back bs off"
  shows "allows (parse_datagram_rounds bs) (\<lambda>(_, r). 2 * unat r \<le> length bs)"
proof -
  let ?P = "\<lambda>(_ :: ObjectDatagram, r :: u64). 2 * unat r \<le> length bs"
  have loop: "allows (and_then (and_then (decode_at bs off) (\<lambda>(n, off). skip_extensions n 0 bs off))
      (\<lambda>(off, i). if off < 0 then Crash OutOfBounds else Done (mk off, i))) ?P" for off mk
  proof -
    have "allows (skip_extensions n 0 bs off1) (\<lambda>(_, r). 2 * unat r \<le> length bs)"
      if "0 \<le> off1" and "off1 \<le> int (length bs)" for n off1
      using that
      by (auto simp del: of_nat_unat intro!: allowsI dest!: skip_extensions_forward [OF _ assms(1) _ assms(2)])
    then have "allows (and_then (decode_at bs off) (\<lambda>(n, off). skip_extensions n 0 bs off))
        (\<lambda>(_, r). 2 * unat r \<le> length bs)"
      by (auto simp del: allows_simps(4) intro!: allows_decode_at)
    then show ?thesis
      by (auto elim!: allows_mono)
  qed
  show ?thesis
    unfolding parse_datagram_rounds_def Let_def
    by (auto simp del: allows_simps(4) intro!: allows_decode_at loop)
qed

section \<open>Properties\<close>

text \<open>C31: a datagram, whether built as a whole or as a header in front of a payload the caller copied into
  the same buffer, is parsed back to its four fields and its payload.\<close>

theorem datagram_round_trip:
  assumes "a \<le> varint_max" and "g \<le> varint_max" and "ob \<le> varint_max"
  shows "and_then (build_object_datagram a g ob p (Some payload) (int (length payload))) parse_object_datagram
      = Done \<lparr>dg_track_alias = a, dg_group_id = g, dg_object_id = ob, dg_priority = p, dg_payload = payload\<rparr>
    \<and> and_then (build_object_datagram_header a g ob p (replicate 34 0))
        (\<lambda>(buf, n). parse_object_datagram (take n buf @ payload))
      = Done \<lparr>dg_track_alias = a, dg_group_id = g, dg_object_id = ob, dg_priority = p, dg_payload = payload\<rparr>"
proof -
  have "length (object_datagram_header a g ob p) \<le> 34"
    using length_object_datagram_header [of a g ob p] by simp
  then show ?thesis
    using parse_object_datagram_header [OF assms]
    by (simp add: build_object_datagram_eq build_object_datagram_header_def mem_simps Let_def)
qed

theorem datagram_round_trip_witness:
  "parse_object_datagram [0, 5, 0x41, 0x2C, 9, 128, 1, 2, 3] = Done
     \<lparr>dg_track_alias = 5, dg_group_id = 300, dg_object_id = 9, dg_priority = 128, dg_payload = [1, 2, 3]\<rparr>"
proof -
  have "build_object_datagram 5 300 9 128 (Some [1, 2, 3]) 3 = Done [0, 5, 0x41, 0x2C, 9, 128, 1, 2, 3]"
    by code_simp
  then show ?thesis
    using datagram_round_trip [of 5 300 9 128 "[1, 2, 3]"] by (simp add: varint_max_def)
qed

text \<open>Whatever bytes arrive, a datagram that is not of the extension type is read within its bounds.\<close>

theorem datagram_plain_in_bounds:
  assumes "fst (decode_varint data) \<noteq> kDatagramTypeExtensions"
  shows "no_crash (parse_object_datagram data)"
  by (rule parse_object_datagram_plain_no_crash [OF assms])

theorem datagram_plain_in_bounds_witness:
  "no_crash (parse_object_datagram [0, 0xFF, 0xFF])"
  by (rule datagram_plain_in_bounds) code_simp

text \<open>Header extensions are skipped: the payload of a datagram with any list of extensions is what
  follows them.\<close>

theorem datagram_extensions_skipped:
  assumes "a \<le> varint_max" and "g \<le> varint_max" and "ob \<le> varint_max"
    and "list_all (\<lambda>e. fst e \<le> varint_max) exts"
    and "data = encode_varint kDatagramTypeExtensions @ encode_varint a @ encode_varint g @ encode_varint ob
         @ [p] @ encode_varint (of_nat (length exts)) @ concat (map encode_extension exts) @ payload"
    and "fits_i32 data"
  shows "parse_object_datagram data = Done
    \<lparr>dg_track_alias = a, dg_group_id = g, dg_object_id = ob, dg_priority = p, dg_payload = payload\<rparr>"
proof -
  let ?n = "of_nat (length exts) :: u64" and ?es = "concat (map encode_extension exts)"
  let ?pre = "encode_varint kDatagramTypeExtensions @ encode_varint a @ encode_varint g @ encode_varint ob
    @ [p] @ encode_varint ?n"
  have "length exts \<le> length ?es"
    by (rule length_concat_extensions)
  then have small: "length exts \<le> 2147483647"
    using assms(5,6) by (simp add: fits_i32_def i32_max_def)
  then have n: "unat ?n = length exts" and n_ok: "?n \<le> varint_max"
    by (simp_all add: unat_of_nat_length word_le_nat_alt varint_max_def)
  have skip: "skip_extensions ?n 0 data (int (length ?pre)) = Done (int (length ?pre) + int (length ?es), ?n)"
    by (rule skip_extensions_enc [where pre = ?pre]) (use assms(4,6) n in \<open>simp_all add: assms(5)\<close>)
  have "drop (nat (int (length ?pre) + int (length ?es))) data = payload"
    by (simp add: assms(5) nat_add_distrib)
  with parse_datagram_rounds_extended [OF assms(1-3) n_ok _ refl skip, where post = "?es @ payload"]
  show ?thesis
    by (simp add: assms(5) parse_object_datagram_def)
qed

theorem datagram_extensions_skipped_witness:
  "parse_object_datagram [1, 5, 2, 9, 128, 1, 4, 2, 7, 7, 42] = Done
     \<lparr>dg_track_alias = 5, dg_group_id = 2, dg_object_id = 9, dg_priority = 128, dg_payload = [42]\<rparr>"
  by (rule datagram_extensions_skipped [where exts = "[(4, [7, 7])]"])
    (simp_all add: varint_max_def fits_i32_def i32_max_def encode_extension_def encode_varint_def
      kDatagramTypeExtensions_def)

text \<open>C35: the parser never runs its extension loop for more rounds than half the bytes of the datagram
  unless, at some offset, a key is followed by a value length with negative low 32 bits; and with such
  a length, a datagram of at most 43 bytes makes it run any number of rounds that an \<open>ext_count\<close> can
  hold, up to \<open>2^62 - 1\<close>, on the same nine bytes, before it is accepted with the fields its sender chose.\<close>

theorem extension_loop_stands_still:
  assumes "a \<le> varint_max" and "g \<le> varint_max" and "ob \<le> varint_max" and "n \<le> varint_max"
    and "parse_datagram_rounds bs = Done (dg, r)" and "fits_i32 bs" and "length bs < 2 * unat r"
  shows "length (standing_datagram a g ob p n) \<le> 43
    \<and> parse_datagram_rounds (standing_datagram a g ob p n) = Done
        (\<lparr>dg_track_alias = a, dg_group_id = g, dg_object_id = ob, dg_priority = p,
          dg_payload = standing_extension\<rparr>, n)
    \<and> parse_object_datagram bs = Done dg
    \<and> (\<exists>off. extension_moves_back bs off)"
proof (intro conjI)
  show "\<exists>off. extension_moves_back bs off"
    using datagram_rounds_bounded [OF assms(6)] assms(5,7) by fastforce
qed (simp_all add: assms length_standing_datagram standing_datagram_rounds parse_object_datagram_def)

theorem extension_loop_stands_still_witness:
  "parse_datagram_rounds (standing_datagram 5 300 9 128 varint_max) = Done
     (\<lparr>dg_track_alias = 5, dg_group_id = 300, dg_object_id = 9, dg_priority = 128,
       dg_payload = [0x00, 0xC0, 0x00, 0x00, 0x00, 0xFF, 0xFF, 0xFF, 0xF7]\<rparr>, 2 ^ 62 - 1)
   \<and> (\<exists>off. extension_moves_back (standing_datagram 5 300 9 128 varint_max) off)"
proof -
  let ?d = "standing_datagram 5 300 9 128 varint_max"
  have e: "standing_extension = [0x00, 0xC0, 0x00, 0x00, 0x00, 0xFF, 0xFF, 0xFF, 0xF7]"
    by code_simp
  have max: "varint_max = 2 ^ 62 - 1" "unat varint_max = 2 ^ 62 - 1"
    and small: "(5 :: u64) \<le> varint_max" "(300 :: u64) \<le> varint_max" "(9 :: u64) \<le> varint_max"
    by (simp_all add: varint_max_def)
  note d = standing_datagram_rounds [OF small order_refl, of 128]
  have "fits_i32 ?d" and "length ?d < 2 * unat varint_max"
    using length_standing_datagram [of 5 300 9 128 varint_max]
    by (simp_all add: fits_i32_def i32_max_def max(2))
  from extension_loop_stands_still [OF small order_refl d this, of 128]
  show ?thesis
    by (simp add: e max(1))
qed

end
