(* ===== verification/OrderedMap.thy ===== *)
theory OrderedMap
  imports Prelude "HOL-Library.List_Lexorder"
begin

text \<open>
  The part of \<open>std::map\<close> the cache uses, as the sequence of key-value pairs an iteration visits, in
  ascending key order. \<open>std::string\<close> keys are compared as sequences of unsigned bytes, which is the
  lexicographic order of byte lists. The locale \<open>ordered_map\<close> states what clients rely on; iteration
  from \<open>lower_bound\<close> while a prefix matches is shown to visit exactly the keys with the prefix.
\<close>

section \<open>Operations\<close>

definition map_find :: "'k \<Rightarrow> ('k \<times> 'v) list \<Rightarrow> 'v option" where
  "map_find k es = map_of es k"

fun map_assign :: "'k::linorder \<Rightarrow> 'v \<Rightarrow> ('k \<times> 'v) list \<Rightarrow> ('k \<times> 'v) list" where
  "map_assign k v [] = [(k, v)]"
| "map_assign k v ((k', v') # es) =
     (if k < k' then (k, v) # (k', v') # es
      else if k = k' then (k, v) # es
      else (k', v') # map_assign k v es)"

fun map_erase :: "'k \<Rightarrow> ('k \<times> 'v) list \<Rightarrow> ('k \<times> 'v) list" where
  "map_erase k [] = []"
| "map_erase k ((k', v') # es) = (if k = k' then es else (k', v') # map_erase k es)"

definition lower_bound :: "'k::linorder \<Rightarrow> ('k \<times> 'v) list \<Rightarrow> ('k \<times> 'v) list" where
  "lower_bound k es = dropWhile (\<lambda>e. fst e < k) es"

definition map_ok :: "('k::linorder \<times> 'v) list \<Rightarrow> bool" where
  "map_ok es \<longleftrightarrow> sorted_wrt (<) (map fst es)"

section \<open>Interface\<close>

locale ordered_map =
  fixes ok :: "'m \<Rightarrow> bool" and find :: "'k \<Rightarrow> 'm \<Rightarrow> 'v option"
    and assign :: "'k \<Rightarrow> 'v \<Rightarrow> 'm \<Rightarrow> 'm" and erase :: "'k \<Rightarrow> 'm \<Rightarrow> 'm" and empty :: 'm
  assumes ok_empty: "ok empty" and find_empty: "find k empty = None"
    and ok_assign: "ok m \<Longrightarrow> ok (assign k v m)" and ok_erase: "ok m \<Longrightarrow> ok (erase k m)"
    and find_assign: "ok m \<Longrightarrow> find k (assign k' v m) = (if k = k' then Some v else find k m)"
    and find_erase: "ok m \<Longrightarrow> find k (erase k' m) = (if k = k' then None else find k m)"
begin

lemma erase_assign_other:
  "ok m \<Longrightarrow> k \<noteq> k' \<Longrightarrow> find j (erase k (assign k' v m)) = find j (assign k' v (erase k m))"
  by (simp add: ok_assign ok_erase find_assign find_erase)

text \<open>A write to a key, given as the value it leaves there.\<close>

definition put :: "'k \<Rightarrow> 'v option \<Rightarrow> 'm \<Rightarrow> 'm" where
  "put k v m = (case v of None \<Rightarrow> erase k m | Some v \<Rightarrow> assign k v m)"

lemma ok_put: "ok m \<Longrightarrow> ok (put k v m)"
  by (simp add: put_def ok_assign ok_erase split: option.split)

lemma find_put: "ok m \<Longrightarrow> find k (put k' v m) = (if k = k' then v else find k m)"
  by (simp add: put_def find_assign find_erase split: option.split)

end

section \<open>The interface holds\<close>

lemma map_ok_Cons: "map_ok ((k, v) # es) \<longleftrightarrow> (\<forall>k'\<in>fst ` set es. k < k') \<and> map_ok es"
  by (simp add: map_ok_def)

lemma keys_map_assign: "fst ` set (map_assign k v es) = insert k (fst ` set es)"
  by (induction k v es rule: map_assign.induct) auto

lemma map_ok_assign: "map_ok es \<Longrightarrow> map_ok (map_assign k v es)"
  by (induction k v es rule: map_assign.induct) (auto simp: map_ok_Cons keys_map_assign map_ok_def)

lemma map_erase_subset: "e \<in> set (map_erase k es) \<Longrightarrow> e \<in> set es"
  by (induction k es rule: map_erase.induct) (auto split: if_splits)

lemma map_ok_erase: "map_ok es \<Longrightarrow> map_ok (map_erase k es)"
proof (induction k es rule: map_erase.induct)
  case (2 k k' v' es)
  then show ?case by (auto simp: map_ok_Cons dest: map_erase_subset)
qed simp

lemma map_find_None: "map_find k es = None \<longleftrightarrow> k \<notin> fst ` set es"
  by (simp add: map_find_def map_of_eq_None_iff)

lemma map_find_assign: "map_ok es \<Longrightarrow> map_find k (map_assign k' v es) = (if k = k' then Some v else map_find k es)"
  by (induction k' v es rule: map_assign.induct) (auto simp: map_find_def map_ok_Cons)

lemma map_find_erase: "map_ok es \<Longrightarrow> map_find k (map_erase k' es) = (if k = k' then None else map_find k es)"
proof (induction k' es rule: map_erase.induct)
  case (2 k' j v es)
  then have "map_of es j = None"
    by (auto simp: map_ok_Cons map_of_eq_None_iff)
  with 2 show ?case
    by (cases "k = k'") (auto simp: map_find_def map_ok_Cons)
qed (simp add: map_find_def)

interpretation entries: ordered_map map_ok map_find map_assign map_erase "[]"
  by unfold_locales
    (simp_all add: map_ok_assign map_ok_erase map_find_assign map_find_erase, simp_all add: map_find_def map_ok_def)

lemma map_find_in: "map_ok es \<Longrightarrow> map_find k es = Some v \<longleftrightarrow> (k, v) \<in> set es"
proof -
  assume "map_ok es"
  then have "distinct (map fst es)"
    by (simp add: map_ok_def strict_sorted_iff)
  then show ?thesis
    by (simp add: map_find_def)
qed

section \<open>Prefix walk\<close>

text \<open>
  Bytes in lexicographic order: between two keys with a common prefix no key lacks it, and no key with
  the prefix is below the prefix itself.
\<close>

definition has_prefix :: "'a list \<Rightarrow> 'a list \<Rightarrow> bool" where
  "has_prefix p k \<longleftrightarrow> take (length p) k = p"

lemma has_prefix_Cons [simp]: "has_prefix (x # p) k \<longleftrightarrow> (\<exists>k'. k = x # k' \<and> has_prefix p k')"
  by (cases k) (auto simp: has_prefix_def)

lemma has_prefix_Nil [simp]: "has_prefix [] k"
  by (simp add: has_prefix_def)

lemma prefix_not_below: "has_prefix p k \<Longrightarrow> \<not> k < (p :: 'a::linorder list)"
  by (induction p arbitrary: k) (auto simp: Cons_less_Cons)

lemma above_prefix_block:
  "\<not> k < p \<Longrightarrow> \<not> has_prefix p k \<Longrightarrow> k < k' \<Longrightarrow> \<not> has_prefix p (k' :: 'a::linorder list)"
proof (induction p arbitrary: k k')
  case Nil
  then show ?case by simp
next
  case (Cons x p)
  show ?case
  proof (cases k)
    case Nil
    then show ?thesis using Cons.prems by simp
  next
    case (Cons y ks)
    then show ?thesis
      using Cons.prems Cons.IH [of ks] by (auto simp: Cons_less_Cons)
  qed
qed

lemma takeWhile_block:
  assumes "sorted_wrt (<) (map fst es)" and "\<And>k k'. \<not> Q k \<Longrightarrow> P k \<Longrightarrow> k < k' \<Longrightarrow> \<not> Q k'"
    and "\<forall>e\<in>set es. P (fst e)"
  shows "takeWhile (\<lambda>e. Q (fst e)) es = filter (\<lambda>e. Q (fst e)) es"
  using assms(1,3)
proof (induction es)
  case Nil
  then show ?case by simp
next
  case (Cons e es)
  have "filter (\<lambda>e. Q (fst e)) es = []" if "\<not> Q (fst e)"
    using assms(2) [OF that] Cons.prems by (auto simp: filter_empty_conv)
  with Cons show ?case by simp
qed

lemma filter_dropWhile_sorted:
  "sorted_wrt (<) (map fst es) \<Longrightarrow> dropWhile (\<lambda>e. fst e < k) es = filter (\<lambda>e. \<not> fst e < (k :: 'k::linorder)) es"
proof (induction es)
  case Nil
  then show ?case by simp
next
  case (Cons e es)
  then show ?case
    by (auto simp: filter_id_conv intro!: filter_True [symmetric])
qed

lemma prefix_walk:
  assumes "map_ok (es :: ('a::linorder list \<times> 'v) list)"
  shows "takeWhile (\<lambda>e. has_prefix p (fst e)) (lower_bound p es) = filter (\<lambda>e. has_prefix p (fst e)) es"
proof -
  have lb: "lower_bound p es = filter (\<lambda>e. \<not> fst e < p) es"
    using assms by (simp add: lower_bound_def map_ok_def filter_dropWhile_sorted)
  have "sorted_wrt (<) (map fst (filter (\<lambda>e. \<not> fst e < p) es))"
    using assms by (auto simp: map_ok_def sorted_wrt_map intro: sorted_wrt_filter)
  then have "takeWhile (\<lambda>e. has_prefix p (fst e)) (lower_bound p es)
      = filter (\<lambda>e. has_prefix p (fst e)) (filter (\<lambda>e. \<not> fst e < p) es)"
    unfolding lb by (rule takeWhile_block [where P = "\<lambda>k. \<not> k < p"]) (auto dest: above_prefix_block)
  also have "\<dots> = filter (\<lambda>e. has_prefix p (fst e)) es"
    by (auto simp: intro!: filter_cong dest: prefix_not_below)
  finally show ?thesis .
qed

end
