(* ===== verification/CacheWire.thy ===== *)
theory CacheWire
  imports Varint
begin

text \<open>
  The cache envelope of \<open>cache_wire.h\<close> and \<open>cache_wire.cpp\<close>: a fixed big-endian header, then topic,
  key and value, each behind its length. The encoder writes through a cursor into one allocated
  buffer and the decoder reads through an offset, both with every access checked here, so that the
  lemmas about them include that no access leaves its block. \<open>size_t\<close> values are \<open>nat\<close>: on a 64-bit
  target no sum of an offset and a length of at most 32 bits wraps.
\<close>

section \<open>Big-endian reads and writes\<close>

definition read_u16_be :: "bytes \<Rightarrow> nat \<Rightarrow> u16 outcome" where
  "read_u16_be data off = and_then (mem_read data off 2) (\<lambda>p.
     Done (push_bit 8 (ucast (p ! 0)) OR ucast (p ! 1)))"

definition read_u32_be :: "bytes \<Rightarrow> nat \<Rightarrow> u32 outcome" where
  "read_u32_be data off = and_then (mem_read data off 4) (\<lambda>p.
     Done (push_bit 24 (ucast (p ! 0)) OR push_bit 16 (ucast (p ! 1)) OR push_bit 8 (ucast (p ! 2)) OR
           ucast (p ! 3)))"

definition read_u64_be :: "bytes \<Rightarrow> nat \<Rightarrow> u64 outcome" where
  "read_u64_be data off = and_then (mem_read data off 8) (\<lambda>p.
     Done (push_bit 56 (ucast (p ! 0)) OR push_bit 48 (ucast (p ! 1)) OR push_bit 40 (ucast (p ! 2)) OR
           push_bit 32 (ucast (p ! 3)) OR push_bit 24 (ucast (p ! 4)) OR push_bit 16 (ucast (p ! 5)) OR
           push_bit 8 (ucast (p ! 6)) OR ucast (p ! 7)))"

text \<open>The bytes a \<open>write_uN_be\<close> stores at its pointer.\<close>

definition write_u16_be :: "u16 \<Rightarrow> bytes" where
  "write_u16_be v = [ucast (drop_bit 8 v), ucast v]"

definition write_u32_be :: "u32 \<Rightarrow> bytes" where
  "write_u32_be v = [ucast (drop_bit 24 v), ucast (drop_bit 16 v), ucast (drop_bit 8 v), ucast v]"

definition write_u64_be :: "u64 \<Rightarrow> bytes" where
  "write_u64_be v =
     [ucast (drop_bit 56 v), ucast (drop_bit 48 v), ucast (drop_bit 40 v), ucast (drop_bit 32 v),
      ucast (drop_bit 24 v), ucast (drop_bit 16 v), ucast (drop_bit 8 v), ucast v]"

section \<open>The envelope\<close>

definition kCacheWireVersion :: u8 where "kCacheWireVersion = 0xCA"
definition kCacheFlagTombstone :: u8 where "kCacheFlagTombstone = 0x01"
definition kCacheWireMinLen :: nat where "kCacheWireMinLen = 1 + 1 + 8 + 4 + 1 + 2 + 4"

record CacheOp =
  op_topic :: bytes
  op_key :: bytes
  op_value :: bytes
  op_op_id :: u64
  op_node_id :: u32
  op_tombstone :: bool

text \<open>\<open>data\<close> is a pointer with its length; \<open>None\<close> is \<open>nullptr\<close>, with which any \<open>len\<close> can come.\<close>

definition is_cache_envelope :: "bytes option \<Rightarrow> nat \<Rightarrow> bool outcome" where
  "is_cache_envelope data len =
     (if len > 0 then
        (case data of
           None \<Rightarrow> Done False
         | Some blk \<Rightarrow> and_then (elem_at blk 0) (\<lambda>b. Done (b = kCacheWireVersion)))
      else Done False)"

text \<open>\<open>std::string(data + off, n)\<close> copies \<open>n\<close> bytes.\<close>

definition decode_cache_op :: "bytes option \<Rightarrow> nat \<Rightarrow> CacheOp outcome" where
  "decode_cache_op data len =
     (case data of
        None \<Rightarrow> Reject
      | Some blk \<Rightarrow>
          if len < kCacheWireMinLen then Reject
          else
            and_then (elem_at blk 0) (\<lambda>version.
            if version \<noteq> kCacheWireVersion then Reject
            else
              let off = 0 + 1 in
              and_then (elem_at blk off) (\<lambda>flags. let off = off + 1 in
              and_then (read_u64_be blk off) (\<lambda>op_id. let off = off + 8 in
              and_then (read_u32_be blk off) (\<lambda>node_id. let off = off + 4 in
              and_then (elem_at blk off) (\<lambda>topic_len. let off = off + 1 in
              if off + unat topic_len > len then Reject
              else and_then (mem_read blk off (unat topic_len)) (\<lambda>topic. let off = off + unat topic_len in
              if off + 2 > len then Reject
              else and_then (read_u16_be blk off) (\<lambda>key_len. let off = off + 2 in
              if off + unat key_len > len then Reject
              else and_then (mem_read blk off (unat key_len)) (\<lambda>key. let off = off + unat key_len in
              if off + 4 > len then Reject
              else and_then (read_u32_be blk off) (\<lambda>value_len. let off = off + 4 in
              if off + unat value_len > len then Reject
              else and_then (mem_read blk off (unat value_len)) (\<lambda>value.
                Done \<lparr>op_topic = topic, op_key = key, op_value = value, op_op_id = op_id,
                      op_node_id = node_id, op_tombstone = (flags AND kCacheFlagTombstone) \<noteq> 0\<rparr>)))))))))))"

text \<open>
  A write through the cursor \<open>p\<close> of \<open>encode_cache_op\<close>, which moves it past what was written. The last
  \<open>memcpy\<close> leaves the cursor where it is; it is not used afterwards.
\<close>

definition put_at_cursor :: "bytes \<Rightarrow> bytes \<times> nat \<Rightarrow> (bytes \<times> nat) outcome" where
  "put_at_cursor xs bp = and_then (mem_write (fst bp) (snd bp) xs) (\<lambda>buf. Done (buf, snd bp + length xs))"

definition put_if_nonempty :: "nat \<Rightarrow> bytes \<Rightarrow> bytes \<times> nat \<Rightarrow> (bytes \<times> nat) outcome" where
  "put_if_nonempty n field bp =
     (if n > 0 then and_then (mem_read field 0 n) (\<lambda>xs. put_at_cursor xs bp) else Done bp)"

definition encode_cache_op :: "CacheOp \<Rightarrow> bytes outcome" where
  "encode_cache_op op =
     (let topic_len = (if length (op_topic op) > 0xFF then 0xFF else length (op_topic op));
          key_len = (if length (op_key op) > 0xFFFF then 0xFFFF else length (op_key op));
          value_len = (if length (op_value op) > 0xFFFFFFFF then 0xFFFFFFFF else length (op_value op));
          total = kCacheWireMinLen + topic_len + key_len + value_len;
          bp = (replicate total 0, 0) in
      and_then (put_at_cursor [kCacheWireVersion] bp) (\<lambda>bp.
      and_then (put_at_cursor [if op_tombstone op then kCacheFlagTombstone else 0] bp) (\<lambda>bp.
      and_then (put_at_cursor (write_u64_be (op_op_id op)) bp) (\<lambda>bp.
      and_then (put_at_cursor (write_u32_be (op_node_id op)) bp) (\<lambda>bp.
      and_then (put_at_cursor [of_nat topic_len] bp) (\<lambda>bp.
      and_then (put_if_nonempty topic_len (op_topic op) bp) (\<lambda>bp.
      and_then (put_at_cursor (write_u16_be (of_nat key_len)) bp) (\<lambda>bp.
      and_then (put_if_nonempty key_len (op_key op) bp) (\<lambda>bp.
      and_then (put_at_cursor (write_u32_be (of_nat value_len)) bp) (\<lambda>bp.
      and_then (put_if_nonempty value_len (op_value op) bp) (\<lambda>bp.
        Done (fst bp))))))))))))"

section \<open>Big-endian lemmas\<close>

lemma write_be_eq:
  "write_u16_be v2 = be_bytes 2 v2" "write_u32_be v4 = be_bytes 4 v4" "write_u64_be v8 = be_bytes 8 v8"
  by (simp_all add: write_u16_be_def write_u32_be_def write_u64_be_def be_bytes_unfold)

lemma list_of_length:
  "length p = 2 \<Longrightarrow> p = [p ! 0, p ! 1]"
  "length p = 4 \<Longrightarrow> p = [p ! 0, p ! 1, p ! 2, p ! 3]"
  "length p = 8 \<Longrightarrow> p = [p ! 0, p ! 1, p ! 2, p ! 3, p ! 4, p ! 5, p ! 6, p ! 7]"
  by (auto simp: list_eq_iff_nth_eq less_Suc_eq numeral_eq_Suc)

lemma be_value_unfold:
  "be_value 0 [a, b] = (push_bit 8 (ucast a) OR ucast b :: 'w::len word)"
  "be_value 0 [a, b, c, d] =
     (push_bit 24 (ucast a) OR push_bit 16 (ucast b) OR push_bit 8 (ucast c) OR ucast d :: 'w word)"
  "be_value 0 [a, b, c, d, e, f, g, h] =
     (push_bit 56 (ucast a) OR push_bit 48 (ucast b) OR push_bit 40 (ucast c) OR push_bit 32 (ucast d) OR
      push_bit 24 (ucast e) OR push_bit 16 (ucast f) OR push_bit 8 (ucast g) OR ucast h :: 'w word)"
  by (simp_all add: push_bit_or ac_simps)

lemma read_be_eq:
  "off + 2 \<le> length data \<Longrightarrow> read_u16_be data off = Done (be_value 0 (take 2 (drop off data)))"
  "off + 4 \<le> length data \<Longrightarrow> read_u32_be data off = Done (be_value 0 (take 4 (drop off data)))"
  "off + 8 \<le> length data \<Longrightarrow> read_u64_be data off = Done (be_value 0 (take 8 (drop off data)))"
proof -
  assume "off + 2 \<le> length data"
  then show "read_u16_be data off = Done (be_value 0 (take 2 (drop off data)))"
    by (subst list_of_length(1) [of "take 2 (drop off data)"])
      (simp_all only: be_value_unfold, simp_all add: read_u16_be_def mem_simps)
next
  assume "off + 4 \<le> length data"
  then show "read_u32_be data off = Done (be_value 0 (take 4 (drop off data)))"
    by (subst list_of_length(2) [of "take 4 (drop off data)"])
      (simp_all only: be_value_unfold, simp_all add: read_u32_be_def mem_simps)
next
  assume "off + 8 \<le> length data"
  then show "read_u64_be data off = Done (be_value 0 (take 8 (drop off data)))"
    by (subst list_of_length(3) [of "take 8 (drop off data)"])
      (simp_all only: be_value_unfold, simp_all add: read_u64_be_def mem_simps)
qed

lemma take_bit_full: "take_bit LENGTH('w) (v :: 'w::len word) = v"
  by (rule bit_word_eqI) (auto simp: bit_simps)

lemma be_round_trip:
  "be_value 0 (be_bytes 2 (v2 :: u16)) = v2" "be_value 0 (be_bytes 4 (v4 :: u32)) = v4"
  "be_value 0 (be_bytes 8 (v8 :: u64)) = v8"
  using take_bit_full [of v2] take_bit_full [of v4] take_bit_full [of v8]
  by (simp_all add: be_value_be_bytes)

lemma read_be_at [wire_simps]:
  "data = pre @ write_u16_be v2 @ post \<Longrightarrow> off = length pre \<Longrightarrow> read_u16_be data off = Done v2"
  "data = pre @ write_u32_be v4 @ post \<Longrightarrow> off = length pre \<Longrightarrow> read_u32_be data off = Done v4"
  "data = pre @ write_u64_be v8 @ post \<Longrightarrow> off = length pre \<Longrightarrow> read_u64_be data off = Done v8"
  by (simp_all add: write_be_eq read_be_eq be_round_trip)

lemma mem_read_at: "data = pre @ x @ post \<Longrightarrow> off = length pre \<Longrightarrow> n = length x \<Longrightarrow> mem_read data off n = Done x"
  by (simp add: mem_simps)

lemma elem_at_at: "data = pre @ x # post \<Longrightarrow> off = length pre \<Longrightarrow> elem_at data off = Done x"
  by (simp add: mem_simps)

lemma length_write_be [simp]:
  "length (write_u16_be v2) = 2" "length (write_u32_be v4) = 4" "length (write_u64_be v8) = 8"
  by (simp_all add: write_be_eq)

section \<open>What the encoder writes\<close>

text \<open>The fields cut to what the length fields of the layout can count.\<close>

definition truncated_op :: "CacheOp \<Rightarrow> CacheOp" where
  "truncated_op op = op\<lparr>op_topic := take 0xFF (op_topic op), op_key := take 0xFFFF (op_key op),
                        op_value := take 0xFFFFFFFF (op_value op)\<rparr>"

definition op_fits :: "CacheOp \<Rightarrow> bool" where
  "op_fits op \<longleftrightarrow> length (op_topic op) \<le> 0xFF \<and> length (op_key op) \<le> 0xFFFF \<and> length (op_value op) \<le> 0xFFFFFFFF"

text \<open>The layout of \<open>cache_wire.h\<close>, with the flag byte left open: bits 1 to 7 are reserved.\<close>

definition envelope :: "u8 \<Rightarrow> CacheOp \<Rightarrow> bytes" where
  "envelope flags op =
     [kCacheWireVersion, flags] @ write_u64_be (op_op_id op) @ write_u32_be (op_node_id op)
     @ [of_nat (length (op_topic op))] @ op_topic op
     @ write_u16_be (of_nat (length (op_key op))) @ op_key op
     @ write_u32_be (of_nat (length (op_value op))) @ op_value op"

definition flags_of :: "CacheOp \<Rightarrow> u8" where
  "flags_of op = (if op_tombstone op then kCacheFlagTombstone else 0)"

definition cursor_state :: "bytes \<Rightarrow> nat \<Rightarrow> bytes \<times> nat" where
  "cursor_state written left = (written @ replicate left 0, length written)"

lemma put_at_cursor_state:
  "length xs \<le> k \<Longrightarrow> put_at_cursor xs (cursor_state d k) = Done (cursor_state (d @ xs) (k - length xs))"
  by (simp add: put_at_cursor_def cursor_state_def mem_simps)

lemma put_if_nonempty_state:
  "n \<le> length field \<Longrightarrow> n \<le> k \<Longrightarrow>
     put_if_nonempty n field (cursor_state d k) = Done (cursor_state (d @ take n field) (k - n))"
  by (simp add: put_if_nonempty_def mem_simps put_at_cursor_state)

lemma op_fits_truncated [simp]: "op_fits (truncated_op op)"
  by (simp add: op_fits_def truncated_op_def)

lemma truncated_op_fits [simp]: "op_fits op \<Longrightarrow> truncated_op op = op"
  by (simp add: op_fits_def truncated_op_def)

lemma capped_length: "(if length xs > n then n else length xs) = length (take n xs)"
  by simp

lemma encode_cache_op_eq: "encode_cache_op op = Done (envelope (flags_of op) (truncated_op op))"
proof -
  let ?t = "take 0xFF (op_topic op)"
  let ?k = "take 0xFFFF (op_key op)"
  let ?v = "take 0xFFFFFFFF (op_value op)"
  have start: "(replicate n 0, 0) = cursor_state [] n" for n
    by (simp add: cursor_state_def)
  show ?thesis
    unfolding encode_cache_op_def capped_length Let_def start kCacheWireMinLen_def
    by (simp add: put_at_cursor_state put_if_nonempty_state)
       (simp add: cursor_state_def envelope_def truncated_op_def flags_of_def min_def)
qed

section \<open>What the decoder returns\<close>

lemma length_envelope:
  "length (envelope flags op) =
     kCacheWireMinLen + length (op_topic op) + length (op_key op) + length (op_value op)"
  by (simp add: envelope_def kCacheWireMinLen_def)

lemma unat_of_nat_small:
  "n \<le> 0xFF \<Longrightarrow> unat (of_nat n :: u8) = n"
  "n \<le> 0xFFFF \<Longrightarrow> unat (of_nat n :: u16) = n"
  "n \<le> 0xFFFFFFFF \<Longrightarrow> unat (of_nat n :: u32) = n"
  by (simp_all add: unsigned_of_nat take_bit_nat_eq_self)

text \<open>Every envelope is read back, whatever its reserved flag bits are and whatever follows it.\<close>

lemma decode_envelope:
  assumes "op_fits op"
  shows "decode_cache_op (Some (envelope flags op @ post)) (length (envelope flags op @ post))
     = Done (op\<lparr>op_tombstone := (flags AND kCacheFlagTombstone) \<noteq> 0\<rparr>)"
proof -
  let ?t = "op_topic op" and ?k = "op_key op" and ?v = "op_value op"
  let ?h1 = "[kCacheWireVersion, flags]" and ?i = "write_u64_be (op_op_id op)"
  let ?n = "write_u32_be (op_node_id op)" and ?tl = "of_nat (length ?t) :: u8"
  let ?kl = "write_u16_be (of_nat (length ?k))" and ?vl = "write_u32_be (of_nat (length ?v))"
  let ?blk = "envelope flags op @ post"
  have blk: "?blk = ?h1 @ ?i @ ?n @ ?tl # ?t @ ?kl @ ?k @ ?vl @ ?v @ post"
    by (simp add: envelope_def)
  have t: "unat ?tl = length ?t" and k: "unat (of_nat (length ?k) :: u16) = length ?k"
    and v: "unat (of_nat (length ?v) :: u32) = length ?v"
    using assms by (simp_all add: op_fits_def unat_of_nat_small)
  have r: "elem_at ?blk 0 = Done kCacheWireVersion" "elem_at ?blk 1 = Done flags"
    "read_u64_be ?blk 2 = Done (op_op_id op)" "read_u32_be ?blk 10 = Done (op_node_id op)"
    "elem_at ?blk 14 = Done ?tl" "mem_read ?blk 15 (length ?t) = Done ?t"
    "read_u16_be ?blk (15 + length ?t) = Done (of_nat (length ?k))"
    "mem_read ?blk (17 + length ?t) (length ?k) = Done ?k"
    "read_u32_be ?blk (17 + length ?t + length ?k) = Done (of_nat (length ?v))"
    "mem_read ?blk (21 + length ?t + length ?k) (length ?v) = Done ?v"
    unfolding blk
             apply (rule elem_at_at [where pre = "[]"]; simp)
            apply (rule elem_at_at [where pre = "[kCacheWireVersion]"]; simp)
           apply (rule read_be_at(3) [where pre = ?h1]; simp)
          apply (rule read_be_at(2) [where pre = "?h1 @ ?i"]; simp)
         apply (rule elem_at_at [where pre = "?h1 @ ?i @ ?n"]; simp)
        apply (rule mem_read_at [where pre = "?h1 @ ?i @ ?n @ [?tl]"]; simp)
       apply (rule read_be_at(1) [where pre = "?h1 @ ?i @ ?n @ ?tl # ?t"]; simp)
      apply (rule mem_read_at [where pre = "?h1 @ ?i @ ?n @ ?tl # ?t @ ?kl"]; simp)
     apply (rule read_be_at(2) [where pre = "?h1 @ ?i @ ?n @ ?tl # ?t @ ?kl @ ?k"]; simp)
    apply (rule mem_read_at [where pre = "?h1 @ ?i @ ?n @ ?tl # ?t @ ?kl @ ?k @ ?vl"]; simp)
    done
  have len: "length ?blk = 21 + length ?t + length ?k + length ?v + length post"
    by (simp add: length_envelope kCacheWireMinLen_def)
  have "read_u64_be ?blk (Suc (Suc 0)) = Done (op_op_id op)"
    using r(3) by (simp add: numeral_2_eq_2)
  then have "decode_cache_op (Some ?blk) (length ?blk) = Done
      \<lparr>op_topic = ?t, op_key = ?k, op_value = ?v, op_op_id = op_op_id op, op_node_id = op_node_id op,
       op_tombstone = (flags AND kCacheFlagTombstone) \<noteq> 0\<rparr>"
    unfolding decode_cache_op_def option.case len Let_def kCacheWireMinLen_def
    using r by (simp add: t k v add.assoc [symmetric])
  then show ?thesis by (simp add: CacheOp.equality)
qed

lemma decode_cache_op_no_crash:
  assumes "\<And>blk. data = Some blk \<Longrightarrow> len \<le> length blk"
  shows "no_crash (decode_cache_op data len)"
proof (cases data)
  case None
  then show ?thesis by (simp add: decode_cache_op_def)
next
  case (Some blk)
  then have len: "len \<le> length blk"
    using assms by simp
  show ?thesis
  proof (cases "len < 21")
    case True
    then show ?thesis by (simp add: Some decode_cache_op_def kCacheWireMinLen_def)
  next
    case False
    with len have "elem_at blk 0 = Done (blk ! 0)"
      by (intro elem_at_Done) auto
    with False len show ?thesis
      unfolding Some decode_cache_op_def option.case kCacheWireMinLen_def Let_def
      by (auto simp: mem_simps read_be_eq intro!: no_crash_and_then)
  qed
qed

text \<open>
  An accepted buffer starts with the layout of the decoded operation: nothing but the reserved flag
  bits and what follows the value is lost.
\<close>

lemma write_be_value:
  "length xs = 2 \<Longrightarrow> write_u16_be (be_value 0 xs) = xs"
  "length xs = 4 \<Longrightarrow> write_u32_be (be_value 0 xs) = xs"
  "length xs = 8 \<Longrightarrow> write_u64_be (be_value 0 xs) = xs"
  using be_bytes_be_value [of xs, where 'w = 16] be_bytes_be_value [of xs, where 'w = 32]
    be_bytes_be_value [of xs, where 'w = 64]
  by (simp_all add: write_be_eq)

lemma drop_split: "off + n = off' \<Longrightarrow> drop off xs = take n (drop off xs) @ drop off' xs"
  by (metis append_take_drop_id drop_drop add.commute)

lemma decode_cache_op_sound:
  assumes "decode_cache_op (Some blk) (length blk) = Done op"
  obtains flags post where "blk = envelope flags op @ post" and "op_fits op"
    and "op_tombstone op = ((flags AND kCacheFlagTombstone) \<noteq> 0)"
proof -
  define t where "t = unat (blk ! 14)"
  define kw :: u16 where "kw = be_value 0 (take 2 (drop (15 + t) blk))"
  define k where "k = unat kw"
  define vw :: u32 where "vw = be_value 0 (take 4 (drop (17 + t + k) blk))"
  define v where "v = unat vw"
  have min: "21 \<le> length blk"
    using assms by (auto simp: decode_cache_op_def kCacheWireMinLen_def split: if_splits)
  then have first: "elem_at blk 0 = Done (blk ! 0)"
    by (intro elem_at_Done) auto
  have ver: "blk ! 0 = kCacheWireVersion"
    using assms min first by (auto simp: decode_cache_op_def kCacheWireMinLen_def split: if_splits)
  have fits: "15 + t + 2 \<le> length blk" "17 + t + k + 4 \<le> length blk" "21 + t + k + v \<le> length blk"
    and op: "op = \<lparr>op_topic = take t (drop 15 blk), op_key = take k (drop (17 + t) blk),
      op_value = take v (drop (21 + t + k) blk), op_op_id = be_value 0 (take 8 (drop 2 blk)),
      op_node_id = be_value 0 (take 4 (drop 10 blk)),
      op_tombstone = (blk ! 1 AND kCacheFlagTombstone) \<noteq> 0\<rparr>"
    using assms min first ver
    by (auto simp: decode_cache_op_def kCacheWireMinLen_def Let_def t_def k_def v_def kw_def vw_def
        read_be_eq mem_simps numeral_2_eq_2 [symmetric] add.assoc [symmetric] split: if_splits)
  have head: "blk = [blk ! 0, blk ! 1] @ drop 2 blk"
    using min by (cases blk; cases "tl blk") auto
  have type: "drop 14 blk = (blk ! 14) # drop 15 blk"
    using min Cons_nth_drop_Suc [of 14 blk] by simp
  note cut = drop_split [of _ _ _ blk]
  have split: "blk = [blk ! 0, blk ! 1] @ take 8 (drop 2 blk) @ take 4 (drop 10 blk) @ [blk ! 14]
      @ take t (drop 15 blk) @ take 2 (drop (15 + t) blk) @ take k (drop (17 + t) blk)
      @ take 4 (drop (17 + t + k) blk) @ take v (drop (21 + t + k) blk) @ drop (21 + t + k + v) blk"
    using head cut [of 2 8 10] cut [of 10 4 14] type cut [of 15 t "15 + t"] cut [of "15 + t" 2 "17 + t"]
      cut [of "17 + t" k "17 + t + k"] cut [of "17 + t + k" 4 "21 + t + k"]
      cut [of "21 + t + k" v "21 + t + k + v"]
    by simp
  have lens: "length (op_topic op) = t" "length (op_key op) = k" "length (op_value op) = v"
    using fits by (simp_all add: op)
  have words: "of_nat t = blk ! 14" "of_nat k = kw" "of_nat v = vw"
    by (simp_all add: t_def k_def v_def)
  have "blk = envelope (blk ! 1) op @ drop (21 + t + k + v) blk"
    unfolding envelope_def lens words ver [symmetric]
    by (subst split) (use fits in \<open>simp add: op kw_def vw_def write_be_value\<close>)
  moreover have "op_fits op"
    using unsigned_less [of "blk ! 14", where 'a = nat] unsigned_less [of kw, where 'a = nat]
      unsigned_less [of vw, where 'a = nat]
    by (simp add: op_fits_def lens t_def k_def v_def)
  moreover have "op_tombstone op = ((blk ! 1 AND kCacheFlagTombstone) \<noteq> 0)"
    by (simp add: op)
  ultimately show thesis
    by (rule that)
qed

text \<open>A proper prefix of an envelope is rejected.\<close>

lemma decode_truncated_envelope:
  assumes "op_fits op" and "n < length (envelope flags op)"
  shows "decode_cache_op (Some (take n (envelope flags op))) n = Reject"
proof (cases "decode_cache_op (Some (take n (envelope flags op))) n")
  case Reject
  then show ?thesis .
next
  case (Crash e)
  then show ?thesis
    using decode_cache_op_no_crash [of "Some (take n (envelope flags op))" n] assms(2) by simp
next
  case (Done op')
  let ?blk = "take n (envelope flags op)"
  have n: "length ?blk = n"
    using assms(2) by simp
  obtain flags' post where blk: "?blk = envelope flags' op' @ post" and fits: "op_fits op'"
    using decode_cache_op_sound [of ?blk op'] Done unfolding n by blast
  have whole: "envelope flags op = envelope flags' op' @ post @ drop n (envelope flags op)"
    using blk append_take_drop_id [of n "envelope flags op"] by (metis append.assoc)
  have "decode_cache_op (Some (envelope flags op)) (length (envelope flags op))
      = Done (op\<lparr>op_tombstone := (flags AND kCacheFlagTombstone) \<noteq> 0\<rparr>)"
    using decode_envelope [OF assms(1), of flags "[]"] by simp
  moreover have "decode_cache_op (Some (envelope flags op)) (length (envelope flags op))
      = Done (op'\<lparr>op_tombstone := (flags' AND kCacheFlagTombstone) \<noteq> 0\<rparr>)"
    using decode_envelope [OF fits, of flags' "post @ drop n (envelope flags op)"] whole by simp
  ultimately have "op\<lparr>op_tombstone := (flags AND kCacheFlagTombstone) \<noteq> 0\<rparr>
      = op'\<lparr>op_tombstone := (flags' AND kCacheFlagTombstone) \<noteq> 0\<rparr>"
    by simp
  then have "op_topic op = op_topic op'" "op_key op = op_key op'" "op_value op = op_value op'"
    by (metis CacheOp.ext_inject CacheOp.surjective CacheOp.update_convs(6))+
  then have "length (envelope flags op) = length (envelope flags' op')"
    by (simp add: length_envelope)
  with blk n assms(2) show ?thesis
    by (metis length_append le_add1 linorder_not_less)
qed

section \<open>Properties\<close>

text \<open>C34: encoding never leaves its buffer, and what it wrote is decoded, with or without trailing bytes, to
  the operation with topic, key and value cut to 255, 65535 and \<open>2^32 - 1\<close> bytes.\<close>

theorem cache_envelope_round_trip:
  "\<exists>wire. encode_cache_op op = Done wire \<and>
     is_cache_envelope (Some (wire @ post)) (length (wire @ post)) = Done True \<and>
     decode_cache_op (Some (wire @ post)) (length (wire @ post)) = Done (truncated_op op)"
proof -
  have "truncated_op op\<lparr>op_tombstone := (flags_of op AND kCacheFlagTombstone) \<noteq> 0\<rparr> = truncated_op op"
    by (cases "op_tombstone op") (simp_all add: flags_of_def kCacheFlagTombstone_def truncated_op_def)
  moreover have "is_cache_envelope (Some (envelope f op' @ post)) (length (envelope f op' @ post)) = Done True" for f op'
    by (simp add: is_cache_envelope_def envelope_def elem_at_def)
  ultimately show ?thesis
    using decode_envelope [OF op_fits_truncated [of op], of "flags_of op" post] by (simp add: encode_cache_op_eq)
qed

text \<open>Decoding reads only inside the \<open>len\<close> bytes it was given, for every input, \<open>nullptr\<close> included.\<close>

theorem cache_decode_in_bounds:
  assumes "\<And>blk. data = Some blk \<Longrightarrow> len \<le> length blk"
  shows "no_crash (decode_cache_op data len)"
  by (rule decode_cache_op_no_crash) (rule assms)

theorem cache_decode_in_bounds_witness:
  "no_crash (decode_cache_op (Some (replicate 30 0xCA)) 25)"
  by (rule cache_decode_in_bounds) auto

text \<open>An accepted buffer is the layout of the decoded operation, up to the seven reserved flag bits,
  followed by bytes that are ignored; a proper prefix of an encoding is rejected.\<close>

theorem cache_decode_sound:
  assumes "decode_cache_op (Some blk) (length blk) = Done op" and "n < length wire"
    and "encode_cache_op op' = Done wire"
  shows "(\<exists>flags post. blk = envelope flags op @ post \<and> op_tombstone op = ((flags AND kCacheFlagTombstone) \<noteq> 0))
    \<and> decode_cache_op (Some (take n wire)) n = Reject"
proof -
  have "wire = envelope (flags_of op') (truncated_op op')"
    using assms(3) by (simp add: encode_cache_op_eq)
  then have "decode_cache_op (Some (take n wire)) n = Reject"
    using decode_truncated_envelope [OF op_fits_truncated] assms(2) by simp
  then show ?thesis
    using decode_cache_op_sound [OF assms(1)] by metis
qed

theorem cache_decode_sound_witness:
  "decode_cache_op (Some (take 20 (envelope 1 \<lparr>op_topic = [], op_key = [7], op_value = [], op_op_id = 5,
     op_node_id = 0, op_tombstone = True\<rparr>))) 20 = Reject"
proof -
  let ?op = "\<lparr>op_topic = [], op_key = [7], op_value = [], op_op_id = 5, op_node_id = 0, op_tombstone = True\<rparr>"
  let ?wire = "envelope 1 ?op"
  have wire: "encode_cache_op ?op = Done ?wire"
    by (simp add: encode_cache_op_eq flags_of_def kCacheFlagTombstone_def op_fits_def)
  have "decode_cache_op (Some ?wire) (length ?wire) = Done ?op"
    using decode_envelope [of ?op 1 "[]"] by (simp add: op_fits_def kCacheFlagTombstone_def)
  from cache_decode_sound [OF this _ wire, of 20] show ?thesis
    by (simp add: length_envelope kCacheWireMinLen_def)
qed

end
