(* ===== verification/CacheMap.thy ===== *)
theory CacheMap
  imports OrderedMap CacheWire
begin

text \<open>
  \<open>CacheMap\<close>: entries in key order, the highest operation id seen, and the change handler. Every
  method runs under the map's own mutex and calls back with it held, so a method is one step here. The
  handler only observes: \<open>merge\<close> returns the calls it makes. The locale \<open>op_gated_cache\<close> states what
  a client relies on, and holds the lemmas on sequences of operations.
\<close>

section \<open>Definitions\<close>

record CacheEntry =
  ce_value :: bytes
  ce_op_id :: u64
  ce_node_id :: u32

datatype MergeResult = Accepted | Tombstoned | Rejected

record CacheMap =
  cm_entries :: "(bytes \<times> CacheEntry) list"
  cm_highest :: u64
  cm_handler :: bool

type_synonym change_call = "bytes \<times> CacheEntry option \<times> MergeResult"

definition new_CacheMap :: CacheMap where
  "new_CacheMap = \<lparr>cm_entries = [], cm_highest = 0, cm_handler = False\<rparr>"

definition entry_of :: "CacheOp \<Rightarrow> CacheEntry" where
  "entry_of op = \<lparr>ce_value = op_value op, ce_op_id = op_op_id op, ce_node_id = op_node_id op\<rparr>"

definition merge :: "CacheOp \<Rightarrow> CacheMap \<Rightarrow> CacheMap \<times> MergeResult \<times> change_call list" where
  "merge op m =
     (let m = (if op_op_id op > cm_highest m then m\<lparr>cm_highest := op_op_id op\<rparr> else m);
          it = map_find (op_key op) (cm_entries m) in
      if (case it of Some e \<Rightarrow> op_op_id op \<le> ce_op_id e | None \<Rightarrow> False) then (m, Rejected, [])
      else if op_tombstone op then
        (case it of
           Some e \<Rightarrow> (m\<lparr>cm_entries := map_erase (op_key op) (cm_entries m)\<rparr>, Tombstoned,
                     if cm_handler m then [(op_key op, None, Tombstoned)] else [])
         | None \<Rightarrow> (m, Tombstoned, []))
      else
        (m\<lparr>cm_entries := map_assign (op_key op) (entry_of op) (cm_entries m)\<rparr>, Accepted,
         if cm_handler m then [(op_key op, Some (entry_of op), Accepted)] else []))"

definition get :: "bytes \<Rightarrow> CacheMap \<Rightarrow> CacheEntry option" where
  "get key m = map_find key (cm_entries m)"

text \<open>A visitor is called on each visited entry in turn; an empty \<open>std::function\<close> is not called at all.\<close>

definition for_each :: "('s \<Rightarrow> bytes \<Rightarrow> CacheEntry \<Rightarrow> 's) option \<Rightarrow> CacheMap \<Rightarrow> 's \<Rightarrow> 's" where
  "for_each visitor m s =
     (case visitor of
        None \<Rightarrow> s
      | Some visit \<Rightarrow> fold (\<lambda>(k, v) s. visit s k v) (cm_entries m) s)"

text \<open>The walk from \<open>lower_bound\<close>: the two breaks of the loop are a key that is too short and a mismatch.\<close>

fun walk_prefix :: "bytes \<Rightarrow> ('s \<Rightarrow> bytes \<Rightarrow> CacheEntry \<Rightarrow> 's) \<Rightarrow> (bytes \<times> CacheEntry) list \<Rightarrow> 's \<Rightarrow> 's" where
  "walk_prefix prefix visit [] s = s"
| "walk_prefix prefix visit ((k, v) # it) s =
     (if length k < length prefix then s
      else if take (length prefix) k \<noteq> prefix then s
      else walk_prefix prefix visit it (visit s k v))"

definition for_each_prefix :: "bytes \<Rightarrow> ('s \<Rightarrow> bytes \<Rightarrow> CacheEntry \<Rightarrow> 's) option \<Rightarrow> CacheMap \<Rightarrow> 's \<Rightarrow> 's" where
  "for_each_prefix prefix visitor m s =
     (case visitor of
        None \<Rightarrow> s
      | Some visit \<Rightarrow>
          if prefix = [] then fold (\<lambda>(k, v) s. visit s k v) (cm_entries m) s
          else walk_prefix prefix visit (lower_bound prefix (cm_entries m)) s)"

definition highest_op_id :: "CacheMap \<Rightarrow> u64" where
  "highest_op_id m = cm_highest m"

definition cache_size :: "CacheMap \<Rightarrow> nat" where
  "cache_size m = length (cm_entries m)"

definition cache_empty :: "CacheMap \<Rightarrow> bool" where
  "cache_empty m \<longleftrightarrow> cm_entries m = []"

definition clear :: "CacheMap \<Rightarrow> CacheMap" where
  "clear m = m\<lparr>cm_entries := [], cm_highest := 0\<rparr>"

definition set_change_handler :: "bool \<Rightarrow> CacheMap \<Rightarrow> CacheMap" where
  "set_change_handler handler m = m\<lparr>cm_handler := handler\<rparr>"

section \<open>Invariant\<close>

text \<open>The entries are in strict key order and no entry is newer than the highest id seen.\<close>

definition cache_ok :: "CacheMap \<Rightarrow> bool" where
  "cache_ok m \<longleftrightarrow> map_ok (cm_entries m) \<and> (\<forall>(k, e)\<in>set (cm_entries m). ce_op_id e \<le> cm_highest m)"

lemma cache_ok_new: "cache_ok new_CacheMap"
  by (simp add: cache_ok_def new_CacheMap_def map_ok_def)

lemma cache_ok_clear: "cache_ok (clear m)"
  by (simp add: cache_ok_def clear_def map_ok_def)

lemma cache_ok_set_change_handler [simp]: "cache_ok (set_change_handler h m) = cache_ok m"
  by (simp add: cache_ok_def set_change_handler_def)

lemma in_map_assign: "e \<in> set (map_assign k v es) \<Longrightarrow> e = (k, v) \<or> e \<in> set es"
  by (induction k v es rule: map_assign.induct) (auto split: if_splits)

lemma map_ok_merge: "map_ok (cm_entries m) \<Longrightarrow> map_ok (cm_entries (fst (merge op m)))"
  by (simp add: merge_def Let_def map_ok_assign map_ok_erase split: option.split)

lemma highest_merge: "cm_highest (fst (merge op m)) = max (cm_highest m) (op_op_id op)"
  by (auto simp: merge_def Let_def max_def split: option.split)

lemma entries_merge: "e \<in> set (cm_entries (fst (merge op m))) \<Longrightarrow> e = (op_key op, entry_of op) \<or> e \<in> set (cm_entries m)"
  by (auto simp: merge_def Let_def dest: in_map_assign map_erase_subset split: option.splits if_splits)

lemma cache_ok_merge: "cache_ok m \<Longrightarrow> cache_ok (fst (merge op m))"
  unfolding cache_ok_def highest_merge
  by (auto simp: map_ok_merge entry_of_def le_max_iff_disj dest!: entries_merge)

section \<open>What merge does to a key\<close>

text \<open>The gate: what one operation on a key makes of the entry the key has.\<close>

definition gate :: "CacheOp \<Rightarrow> CacheEntry option \<Rightarrow> CacheEntry option" where
  "gate op entry =
     (if (case entry of Some e \<Rightarrow> op_op_id op \<le> ce_op_id e | None \<Rightarrow> False) then entry
      else if op_tombstone op then None
      else Some (entry_of op))"

lemma get_merge:
  "map_ok (cm_entries m) \<Longrightarrow>
     get key (fst (merge op m)) = (if key = op_key op then gate op (get key m) else get key m)"
  by (auto simp: merge_def Let_def get_def gate_def map_find_assign map_find_erase split: option.split)

lemma merge_result:
  "fst (snd (merge op m)) =
     (if (case get (op_key op) m of Some e \<Rightarrow> op_op_id op \<le> ce_op_id e | None \<Rightarrow> False) then Rejected
      else if op_tombstone op then Tombstoned else Accepted)"
  by (auto simp: merge_def Let_def get_def split: option.split)

section \<open>Sequences of operations\<close>

text \<open>
  The entries a lookup can return after operations without tombstones, and what it means that an entry
  is the newest of a set.
\<close>

definition candidates :: "CacheEntry option \<Rightarrow> CacheOp list \<Rightarrow> CacheEntry set" where
  "candidates e ops = set_option e \<union> entry_of ` set ops"

definition newest :: "CacheEntry set \<Rightarrow> CacheEntry \<Rightarrow> bool" where
  "newest cs e \<longleftrightarrow> e \<in> cs \<and> (\<forall>c\<in>cs. ce_op_id c \<le> ce_op_id e)"

text \<open>Operations on one key with one id carry one value: the id is assigned once by the server.\<close>

definition consistent_ops :: "CacheOp list \<Rightarrow> bool" where
  "consistent_ops ops \<longleftrightarrow>
     (\<forall>a\<in>set ops. \<forall>b\<in>set ops. op_key a = op_key b \<and> op_op_id a = op_op_id b \<longrightarrow> entry_of a = entry_of b)"

lemma gate_live: "\<not> op_tombstone op \<Longrightarrow> \<exists>x. gate op e = Some x \<and> newest (candidates e [op]) x"
  by (auto simp: gate_def newest_def candidates_def entry_of_def split: option.split)

lemma fold_gate_live:
  "list_all (\<lambda>op. \<not> op_tombstone op) ops \<Longrightarrow>
     (case fold gate ops e of None \<Rightarrow> candidates e ops = {} | Some x \<Rightarrow> newest (candidates e ops) x)"
proof (induction ops arbitrary: e)
  case Nil
  then show ?case by (cases e) (auto simp: candidates_def newest_def)
next
  case (Cons op ops)
  obtain x where x: "gate op e = Some x" "newest (candidates e [op]) x"
    using gate_live Cons.prems by auto
  then have "candidates (Some x) ops \<noteq> {}"
    by (auto simp: candidates_def)
  with Cons.IH [of "Some x"] Cons.prems obtain y where
    y: "fold gate ops (Some x) = Some y" "newest (candidates (Some x) ops) y"
    by (auto split: option.splits)
  have "newest (candidates e (op # ops)) y"
    using x(2) y(2) by (auto simp: newest_def candidates_def)
  with x(1) y(1) show ?case by simp
qed

lemma newest_unique:
  assumes "newest cs x" and "newest cs y" and "\<And>a b. a \<in> cs \<Longrightarrow> b \<in> cs \<Longrightarrow> ce_op_id a = ce_op_id b \<Longrightarrow> a = b"
  shows "x = y"
  using assms(3) [of x y] assms(1,2) by (simp add: newest_def order.antisym)

lemma gate_idem [simp]: "gate op (gate op e) = gate op e"
  by (auto simp: gate_def entry_of_def split: option.split)

lemma gate_keeps_or_raises:
  "gate op (Some e) = Some e' \<Longrightarrow> ce_op_id e \<le> ce_op_id e'"
  by (auto simp: gate_def entry_of_def split: if_splits)

locale op_gated_cache =
  fixes ok :: "'m \<Rightarrow> bool" and apply_op :: "CacheOp \<Rightarrow> 'm \<Rightarrow> 'm"
    and lookup :: "bytes \<Rightarrow> 'm \<Rightarrow> CacheEntry option" and high :: "'m \<Rightarrow> u64"
  assumes ok_apply: "ok m \<Longrightarrow> ok (apply_op op m)"
    and lookup_apply: "ok m \<Longrightarrow> lookup k (apply_op op m) = (if k = op_key op then gate op (lookup k m) else lookup k m)"
    and high_apply: "high (apply_op op m) = max (high m) (op_op_id op)"
begin

lemma ok_fold: "ok m \<Longrightarrow> ok (fold apply_op ops m)"
  by (induction ops arbitrary: m) (simp_all add: ok_apply)

lemma high_fold: "high (fold apply_op ops m) = fold max (map op_op_id ops) (high m)"
  by (induction ops arbitrary: m) (simp_all add: high_apply max.commute)

lemma high_fold_Max: "high (fold apply_op ops m) = Max (insert (high m) (op_op_id ` set ops))"
proof (induction ops arbitrary: m)
  case Nil
  then show ?case by simp
next
  case (Cons op ops)
  have "Max (insert (max (high m) (op_op_id op)) (op_op_id ` set ops))
      = Max (insert (high m) (insert (op_op_id op) (op_op_id ` set ops)))"
    by (cases "ops = []") (simp_all add: max.assoc)
  with Cons show ?case by (simp add: high_apply)
qed

lemma lookup_fold:
  "ok m \<Longrightarrow> lookup k (fold apply_op ops m) = fold gate (filter (\<lambda>op. op_key op = k) ops) (lookup k m)"
  by (induction ops arbitrary: m) (simp_all add: ok_apply lookup_apply)

text \<open>
  Without tombstones the cache converges: neither the order nor the number of deliveries of an
  operation changes what a lookup returns.
\<close>

lemma lookup_converges:
  assumes "ok m" and "lookup k m = None" and "list_all (\<lambda>op. \<not> op_tombstone op) ops"
    and "consistent_ops ops" and "set ops' = set ops"
  shows "lookup k (fold apply_op ops m) = lookup k (fold apply_op ops' m)"
proof -
  let ?f = "filter (\<lambda>op. op_key op = k)"
  let ?cs = "candidates None (?f ops)"
  have same: "candidates None (?f ops') = ?cs"
    using assms(5) by (simp add: candidates_def)
  have uniq: "a = b" if "a \<in> ?cs" "b \<in> ?cs" "ce_op_id a = ce_op_id b" for a b
  proof -
    note ab = that
    obtain p q where "p \<in> set ops" "op_key p = k" "a = entry_of p" and "q \<in> set ops" "op_key q = k" "b = entry_of q"
      using ab(1,2) by (auto simp: candidates_def)
    with ab(3) show ?thesis
      using assms(4) [unfolded consistent_ops_def, rule_format, of p q] by (simp add: entry_of_def)
  qed
  have live: "list_all (\<lambda>op. \<not> op_tombstone op) (?f ops)" "list_all (\<lambda>op. \<not> op_tombstone op) (?f ops')"
    using assms(3,5) by (auto simp: list_all_iff)
  note res = fold_gate_live [OF live(1), of None] fold_gate_live [OF live(2), of None, unfolded same]
  have "fold gate (?f ops) None = fold gate (?f ops') None"
  proof (cases "?cs = {}")
    case True
    then show ?thesis using res by (auto simp: newest_def split: option.splits)
  next
    case False
    then obtain x y where "fold gate (?f ops) None = Some x" "newest ?cs x"
      "fold gate (?f ops') None = Some y" "newest ?cs y"
      using res by (auto split: option.splits)
    then show ?thesis
      using newest_unique [of ?cs x y] uniq by auto
  qed
  then show ?thesis
    by (simp only: lookup_fold [OF assms(1)] assms(2))
qed

text \<open>An operation that is delivered again at once changes nothing.\<close>

lemma lookup_redelivery:
  "ok m \<Longrightarrow> lookup k (apply_op op (apply_op op m)) = lookup k (apply_op op m)"
  by (simp add: ok_apply lookup_apply)

end

abbreviation merge_step :: "CacheOp \<Rightarrow> CacheMap \<Rightarrow> CacheMap" where
  "merge_step op m \<equiv> fst (merge op m)"

interpretation cache: op_gated_cache cache_ok merge_step get highest_op_id
proof unfold_locales
  fix m :: CacheMap and op k
  show "cache_ok m \<Longrightarrow> cache_ok (merge_step op m)"
    by (rule cache_ok_merge)
  show "cache_ok m \<Longrightarrow> get k (merge_step op m) = (if k = op_key op then gate op (get k m) else get k m)"
    by (simp add: get_merge cache_ok_def)
  show "highest_op_id (merge_step op m) = max (highest_op_id m) (op_op_id op)"
    by (simp add: highest_op_id_def highest_merge)
qed

lemma merge_handler [simp]: "cm_handler (merge_step op m) = cm_handler m"
  by (simp add: merge_def Let_def split: option.split)

lemma fold_merge_handler [simp]: "cm_handler (fold merge_step ops m) = cm_handler m"
  by (induction ops arbitrary: m) simp_all

section \<open>Visiting\<close>

lemma map_ok_ext:
  assumes "map_ok es" and "map_ok es'" and "\<And>k. map_find k es = map_find k es'"
  shows "es = es'"
proof (rule map_sorted_distinct_set_unique [where f = fst])
  have "set es = set es'"
    using assms by (auto simp: map_find_in [symmetric])
  then show "set es = set es'" .
  show "inj_on fst (set es \<union> set es')"
    using \<open>set es = set es'\<close> assms(1) by (simp add: map_ok_def strict_sorted_iff distinct_map)
  show "sorted (map fst es)" "distinct (map fst es)" "sorted (map fst es')" "distinct (map fst es')"
    using assms(1,2) by (simp_all add: map_ok_def strict_sorted_iff)
qed

lemma walk_prefix_eq:
  "walk_prefix p visit es s = fold (\<lambda>(k, v) s. visit s k v) (takeWhile (\<lambda>e. has_prefix p (fst e)) es) s"
  by (induction p visit es s rule: walk_prefix.induct)
    (auto simp: has_prefix_def min_def dest: arg_cong [where f = length])

lemma for_each_prefix_eq:
  assumes "cache_ok m"
  shows "for_each_prefix p (Some visit) m s =
    fold (\<lambda>(k, v) s. visit s k v) (filter (\<lambda>e. has_prefix p (fst e)) (cm_entries m)) s"
  using assms by (simp add: for_each_prefix_def walk_prefix_eq prefix_walk cache_ok_def)

section \<open>Properties\<close>

text \<open>C18: one \<open>merge\<close>: the invariant is kept, the highest id always advances, only the operation's key
  changes and only through the id gate, the result names what happened, and the handler is called
  exactly when the stored data changed, with the entry a lookup then finds.\<close>

theorem merge_correct:
  assumes "cache_ok m" and "merge op m = (m', r, calls)"
  shows "cache_ok m' \<and> highest_op_id m' = max (highest_op_id m) (op_op_id op)
    \<and> (\<forall>k. get k m' = (if k = op_key op then gate op (get k m) else get k m))
    \<and> r = (if (case get (op_key op) m of Some e \<Rightarrow> op_op_id op \<le> ce_op_id e | None \<Rightarrow> False) then Rejected
           else if op_tombstone op then Tombstoned else Accepted)
    \<and> calls = (if cm_handler m \<and> (r = Accepted \<or> r = Tombstoned \<and> get (op_key op) m \<noteq> None)
               then [(op_key op, get (op_key op) m', r)] else [])"
proof -
  have m': "m' = merge_step op m" and r: "r = fst (snd (merge op m))" and c: "calls = snd (snd (merge op m))"
    using assms(2) by simp_all
  have gets: "get k m' = (if k = op_key op then gate op (get k m) else get k m)" for k
    unfolding m' by (rule cache.lookup_apply) (rule assms(1))
  have "calls = (if cm_handler m \<and> (r = Accepted \<or> r = Tombstoned \<and> get (op_key op) m \<noteq> None)
      then [(op_key op, gate op (get (op_key op) m), r)] else [])"
    unfolding c r by (auto simp: merge_def Let_def get_def gate_def split: option.split)
  then show ?thesis
    using cache.ok_apply [OF assms(1), of op] cache.high_apply [of op m] gets
    by (simp add: m' [symmetric] r merge_result)
qed

theorem merge_correct_witness:
  "get [1] (fst (merge \<lparr>op_topic = [], op_key = [1], op_value = [9], op_op_id = 3, op_node_id = 2,
       op_tombstone = False\<rparr> new_CacheMap)) = Some \<lparr>ce_value = [9], ce_op_id = 3, ce_node_id = 2\<rparr>"
proof -
  let ?op = "\<lparr>op_topic = [], op_key = [1], op_value = [9], op_op_id = 3, op_node_id = 2, op_tombstone = False\<rparr>"
  obtain m' r calls where m: "merge ?op new_CacheMap = (m', r, calls)"
    by (cases "merge ?op new_CacheMap")
  have "get [1] m' = gate ?op (get [1] new_CacheMap)"
    using merge_correct [OF cache_ok_new m] by simp
  then have "get [1] m' = Some \<lparr>ce_value = [9], ce_op_id = 3, ce_node_id = 2\<rparr>"
    by (simp add: get_def new_CacheMap_def map_find_def gate_def entry_of_def)
  then show ?thesis
    by (simp add: m)
qed

text \<open>C19: without tombstones the cache converges: operations delivered in any order and any number of
  times leave the same map, entries and highest id alike, as long as operations that share key and id
  share their value.\<close>

theorem cache_converges:
  assumes "list_all (\<lambda>op. \<not> op_tombstone op) ops" and "consistent_ops ops" and "set ops' = set ops"
  shows "fold merge_step ops new_CacheMap = fold merge_step ops' new_CacheMap"
proof -
  let ?m = "fold merge_step ops new_CacheMap" and ?m' = "fold merge_step ops' new_CacheMap"
  have ok: "cache_ok ?m" "cache_ok ?m'"
    using cache.ok_fold [OF cache_ok_new] by simp_all
  have "get k new_CacheMap = None" for k
    by (simp add: get_def new_CacheMap_def map_find_def)
  then have "get k ?m = get k ?m'" for k
    using cache.lookup_converges [OF cache_ok_new _ assms] by simp
  then have "cm_entries ?m = cm_entries ?m'"
    using ok by (intro map_ok_ext) (simp_all add: cache_ok_def get_def)
  moreover have "cm_highest ?m = cm_highest ?m'"
    using cache.high_fold_Max [of ops new_CacheMap] cache.high_fold_Max [of ops' new_CacheMap] assms(3)
    by (simp add: highest_op_id_def)
  ultimately show ?thesis
    by (intro CacheMap.equality) simp_all
qed

theorem cache_converges_witness:
  "let a = \<lparr>op_topic = [], op_key = [1], op_value = [9], op_op_id = 3, op_node_id = 2, op_tombstone = False\<rparr>;
       b = \<lparr>op_topic = [], op_key = [1], op_value = [8], op_op_id = 4, op_node_id = 2, op_tombstone = False\<rparr>
   in fold merge_step [a, b] new_CacheMap = fold merge_step [b, a, b] new_CacheMap"
  unfolding Let_def
  by (rule cache_converges) (auto simp: consistent_ops_def)

text \<open>C36: the resume id after any sequence of operations, accepted or not, is the largest id seen, and no
  stored entry is newer than it.\<close>

theorem resume_id_is_highest_seen:
  "highest_op_id (fold merge_step ops new_CacheMap) = Max (insert 0 (op_op_id ` set ops)) \<and>
   cache_ok (fold merge_step ops new_CacheMap)"
  using cache.high_fold_Max [of ops new_CacheMap] cache.ok_fold [OF cache_ok_new, of ops]
  by (simp add: highest_op_id_def new_CacheMap_def)

text \<open>A tombstone erases the id it was gated by, so an older operation on the key that arrives after it
  is accepted again and its value stays, although the map says the highest id per key wins.\<close>

theorem tombstone_forgets_its_id:
  assumes "cache_ok m" and "get (op_key del) m = Some e" and "ce_op_id e < op_op_id del" and "op_tombstone del"
    and "op_key old = op_key del" and "op_op_id old < op_op_id del" and "\<not> op_tombstone old"
  shows "fst (snd (merge old (merge_step del m))) = Accepted
    \<and> get (op_key del) (merge_step old (merge_step del m)) = Some (entry_of old)"
proof -
  have none: "get (op_key del) (merge_step del m) = None"
    using assms by (simp add: cache.lookup_apply gate_def)
  moreover have "get (op_key del) (merge_step old (merge_step del m)) = gate old (get (op_key del) (merge_step del m))"
    using cache.lookup_apply [OF cache.ok_apply [OF assms(1)]] assms(5) by simp
  ultimately show ?thesis
    using assms(5,7) by (simp add: merge_result gate_def)
qed

theorem tombstone_forgets_its_id_witness:
  "let add = \<lparr>op_topic = [], op_key = [1], op_value = [9], op_op_id = 3, op_node_id = 2, op_tombstone = False\<rparr>;
       del = add\<lparr>op_op_id := 7, op_tombstone := True\<rparr>
   in get [1] (fold merge_step [add, del, add] new_CacheMap) = Some (entry_of add)"
proof -
  let ?add = "\<lparr>op_topic = [], op_key = [1], op_value = [9], op_op_id = 3, op_node_id = 2, op_tombstone = False\<rparr>"
  let ?del = "?add\<lparr>op_op_id := 7, op_tombstone := True\<rparr>"
  have "get [1] (merge_step ?add new_CacheMap) = Some (entry_of ?add)"
    using cache.lookup_apply [OF cache_ok_new, of "[1]" ?add]
    by (simp add: gate_def get_def new_CacheMap_def map_find_def)
  then show ?thesis
    using tombstone_forgets_its_id [of "merge_step ?add new_CacheMap" ?del _ ?add]
      cache.ok_apply [OF cache_ok_new, of ?add]
    by (simp add: entry_of_def)
qed

text \<open>The walk from \<open>lower_bound\<close> with its early exits visits exactly the entries whose key has the
  prefix, once each and in key order.\<close>

theorem prefix_visit_complete:
  assumes "cache_ok m"
  shows "for_each_prefix p (Some visit) m s =
      fold (\<lambda>(k, v) s. visit s k v) (filter (\<lambda>e. has_prefix p (fst e)) (cm_entries m)) s
    \<and> sorted_wrt (<) (map fst (filter (\<lambda>e. has_prefix p (fst e)) (cm_entries m)))"
  using for_each_prefix_eq [OF assms] assms
  by (auto simp: cache_ok_def map_ok_def sorted_wrt_map intro: sorted_wrt_filter)

theorem prefix_visit_complete_witness:
  "for_each_prefix [1] (Some (\<lambda>s k e. s @ [k]))
     (new_CacheMap\<lparr>cm_entries := [([0, 5], \<lparr>ce_value = [], ce_op_id = 0, ce_node_id = 0\<rparr>),
        ([1, 2], \<lparr>ce_value = [], ce_op_id = 0, ce_node_id = 0\<rparr>),
        ([2], \<lparr>ce_value = [], ce_op_id = 0, ce_node_id = 0\<rparr>)]\<rparr>) [] = [[1, 2]]"
proof -
  let ?e = "\<lparr>ce_value = [], ce_op_id = 0, ce_node_id = 0\<rparr>"
  let ?m = "new_CacheMap\<lparr>cm_entries := [([0, 5], ?e), ([1, 2], ?e), ([2], ?e)]\<rparr>"
  have "cache_ok ?m"
    by (simp add: cache_ok_def map_ok_def new_CacheMap_def Cons_less_Cons)
  from prefix_visit_complete [OF this, of "[1]" "\<lambda>s k e. s @ [k]" "[]"] show ?thesis
    by (simp add: new_CacheMap_def)
qed

end
