(* ===== verification/TopicMerger.thy ===== *)
theory TopicMerger
  imports CacheMap
begin

text \<open>
  \<open>TopicMerger\<close>: decode a cache envelope, parse the JSON inside it and merge each operation of the
  batch into the cache. The JSON library (nlohmann) is a parameter, the record \<open>json_lib\<close> of the
  functions the code calls; nothing is assumed about it. The lemmas relate \<open>apply_envelope\<close> to a fold of
  \<open>merge\<close> over the operations the batch describes, and its counters to their results.
\<close>

section \<open>Resume parameter\<close>

text \<open>The loop runs from index 7 down to 0; the counter here is one above the index.\<close>

fun resume_loop :: "nat \<Rightarrow> bytes \<Rightarrow> u64 \<Rightarrow> bytes" where
  "resume_loop 0 bs op_id = bs"
| "resume_loop (Suc i) bs op_id = resume_loop i (bs[i := ucast (op_id AND 0xFF)]) (drop_bit 8 op_id)"

definition encode_resume_op_id :: "u64 \<Rightarrow> bytes" where
  "encode_resume_op_id op_id = resume_loop 8 (replicate 8 0) op_id"

definition kResumeParamKey :: u64 where "kResumeParamKey = 0xFF01"

section \<open>The JSON library\<close>

text \<open>
  \<open>js_parse\<close> returns \<open>None\<close> for a discarded value (parsing without exceptions); \<open>js_find\<close> is \<open>find\<close> on
  an object; \<open>js_elements\<close> is the iteration over an array.
\<close>

record 'j json_lib =
  js_parse :: "bytes \<Rightarrow> 'j option"
  js_is_object :: "'j \<Rightarrow> bool"
  js_is_array :: "'j \<Rightarrow> bool"
  js_elements :: "'j \<Rightarrow> 'j list"
  js_find :: "'j \<Rightarrow> bytes \<Rightarrow> 'j option"
  js_is_string :: "'j \<Rightarrow> bool"
  js_get_string :: "'j \<Rightarrow> bytes"
  js_is_boolean :: "'j \<Rightarrow> bool"
  js_get_bool :: "'j \<Rightarrow> bool"
  js_dump :: "'j \<Rightarrow> bytes"

definition key_name :: bytes where "key_name = [0x6B, 0x65, 0x79]"
definition tombstone_name :: bytes where
  "tombstone_name = [0x74, 0x6F, 0x6D, 0x62, 0x73, 0x74, 0x6F, 0x6E, 0x65]"
definition value_name :: bytes where "value_name = [0x76, 0x61, 0x6C, 0x75, 0x65]"

section \<open>The merger\<close>

record TopicValue =
  tv_key :: bytes
  tv_value :: bytes

record MergeBatchResult =
  mb_accepted :: "TopicValue list"
  mb_tombstoned :: "bytes list"

record MergeDebugInfo =
  di_topic :: bytes
  di_op_id :: u64
  di_op_count :: nat
  di_accepted_keys :: "bytes list"
  di_tombstoned_keys :: "bytes list"
  di_rejected_keys :: "bytes list"

record TopicMerger =
  tm_cache :: CacheMap
  tm_debug_handler :: bool
  tm_updates_received :: u64
  tm_errors_dropped :: u64

definition empty_result :: MergeBatchResult where
  "empty_result = \<lparr>mb_accepted = [], mb_tombstoned = []\<rparr>"

text \<open>The cache handed to the constructor, \<open>None\<close> for a null pointer or none at all.\<close>

definition new_TopicMerger :: "CacheMap option \<Rightarrow> TopicMerger" where
  "new_TopicMerger cache =
     \<lparr>tm_cache = (case cache of None \<Rightarrow> new_CacheMap | Some m \<Rightarrow> m), tm_debug_handler = False,
      tm_updates_received = 0, tm_errors_dropped = 0\<rparr>"

text \<open>
  \<open>process_one_op\<close> returns the cache, the result buckets, the outcome of the merge, the key it reports
  for the rejected list (empty otherwise) and the calls of the cache's change handler.
\<close>

definition process_one_op ::
    "'j json_lib \<Rightarrow> 'j \<Rightarrow> CacheOp \<Rightarrow> CacheMap \<Rightarrow> MergeBatchResult
      \<Rightarrow> CacheMap \<times> MergeBatchResult \<times> MergeResult \<times> bytes \<times> change_call list" where
  "process_one_op J jop envelope_template cache out_result =
     (if \<not> js_is_object J jop then (cache, out_result, Rejected, [], [])
      else case js_find J jop key_name of
        None \<Rightarrow> (cache, out_result, Rejected, [], [])
      | Some key_it \<Rightarrow>
          if \<not> js_is_string J key_it then (cache, out_result, Rejected, [], [])
          else
            let key = js_get_string J key_it in
            if key = [] then (cache, out_result, Rejected, [], [])
            else
              let tomb = (case js_find J jop tombstone_name of
                            Some tomb_it \<Rightarrow> js_is_boolean J tomb_it \<and> js_get_bool J tomb_it
                          | None \<Rightarrow> False);
                  value_str = (if \<not> tomb then
                                 (case js_find J jop value_name of Some val_it \<Rightarrow> js_dump J val_it | None \<Rightarrow> [])
                               else []);
                  op = envelope_template\<lparr>op_key := key, op_value := value_str, op_tombstone := tomb\<rparr>;
                  (cache, r, calls) = merge op cache in
              (case r of
                 Accepted \<Rightarrow>
                   (cache, out_result\<lparr>mb_accepted := mb_accepted out_result @
                       [\<lparr>tv_key = key, tv_value = value_str\<rparr>]\<rparr>, r, [], calls)
               | Tombstoned \<Rightarrow>
                   (cache, out_result\<lparr>mb_tombstoned := mb_tombstoned out_result @ [key]\<rparr>, r, [], calls)
               | Rejected \<Rightarrow> (cache, out_result, r, key, calls)))"

text \<open>The lambda \<open>handle\<close> of \<open>apply_envelope\<close>, on the state it captures by reference.\<close>

record batch_state =
  bs_merger :: TopicMerger
  bs_result :: MergeBatchResult
  bs_rejected :: "bytes list"
  bs_calls :: "change_call list"

definition handle_op :: "'j json_lib \<Rightarrow> CacheOp \<Rightarrow> 'j \<Rightarrow> batch_state \<Rightarrow> batch_state" where
  "handle_op J op_template jop s =
     (let (cache, result, r, rk, calls) = process_one_op J jop op_template (tm_cache (bs_merger s)) (bs_result s);
          m = (bs_merger s)\<lparr>tm_cache := cache\<rparr>;
          s = s\<lparr>bs_merger := m, bs_result := result, bs_calls := bs_calls s @ calls\<rparr> in
      if r = Rejected \<and> rk \<noteq> [] then s\<lparr>bs_rejected := bs_rejected s @ [rk]\<rparr>
      else if r = Accepted \<or> r = Tombstoned then
        s\<lparr>bs_merger := m\<lparr>tm_updates_received := tm_updates_received m + 1\<rparr>\<rparr>
      else s)"

definition drop_error :: "TopicMerger \<Rightarrow> TopicMerger" where
  "drop_error m = m\<lparr>tm_errors_dropped := tm_errors_dropped m + 1\<rparr>"

text \<open>
  The result is the merger, the batch result (\<open>None\<close> for \<open>nullopt\<close>), the call of the debug handler and
  the calls of the change handler.
\<close>

definition apply_envelope ::
    "'j json_lib \<Rightarrow> bytes option \<Rightarrow> nat \<Rightarrow> TopicMerger
      \<Rightarrow> (TopicMerger \<times> MergeBatchResult option \<times> MergeDebugInfo option \<times> change_call list) outcome" where
  "apply_envelope J data len m =
     and_then (is_cache_envelope data len) (\<lambda>is_env.
     if \<not> is_env then Done (drop_error m, None, None, [])
     else case decode_cache_op data len of
       Crash e \<Rightarrow> Crash e
     | Reject \<Rightarrow> Done (drop_error m, None, None, [])
     | Done env \<Rightarrow>
         (case js_parse J (op_value env) of
            None \<Rightarrow> Done (drop_error m, None, None, [])
          | Some j \<Rightarrow>
              let op_template = \<lparr>op_topic = op_topic env, op_key = [], op_value = [],
                                 op_op_id = op_op_id env, op_node_id = op_node_id env,
                                 op_tombstone = False\<rparr>;
                  start = \<lparr>bs_merger = m, bs_result = empty_result, bs_rejected = [], bs_calls = []\<rparr>;
                  finish = (\<lambda>s op_count.
                    Done (bs_merger s, Some (bs_result s),
                      if tm_debug_handler m then
                        Some \<lparr>di_topic = op_topic env, di_op_id = op_op_id env, di_op_count = op_count,
                              di_accepted_keys = map tv_key (mb_accepted (bs_result s)),
                              di_tombstoned_keys = mb_tombstoned (bs_result s),
                              di_rejected_keys = bs_rejected s\<rparr>
                      else None,
                      bs_calls s)) in
              if js_is_array J j then
                finish (fold (handle_op J op_template) (js_elements J j) start) (length (js_elements J j))
              else if js_is_object J j then finish (handle_op J op_template j start) 1
              else Done (drop_error m, None, None, [])))"

text \<open>Read-throughs.\<close>

definition merger_get :: "bytes \<Rightarrow> TopicMerger \<Rightarrow> CacheEntry option" where
  "merger_get key m = get key (tm_cache m)"

definition merger_for_each :: "('s \<Rightarrow> bytes \<Rightarrow> CacheEntry \<Rightarrow> 's) option \<Rightarrow> TopicMerger \<Rightarrow> 's \<Rightarrow> 's" where
  "merger_for_each visitor m s = for_each visitor (tm_cache m) s"

definition merger_for_each_prefix ::
    "bytes \<Rightarrow> ('s \<Rightarrow> bytes \<Rightarrow> CacheEntry \<Rightarrow> 's) option \<Rightarrow> TopicMerger \<Rightarrow> 's \<Rightarrow> 's" where
  "merger_for_each_prefix prefix visitor m s = for_each_prefix prefix visitor (tm_cache m) s"

definition resume_op_id :: "TopicMerger \<Rightarrow> u64" where
  "resume_op_id m = highest_op_id (tm_cache m)"

record TopicMergerStats =
  st_updates_received :: u64
  st_errors_dropped :: u64
  st_entry_count :: nat

definition merger_stats :: "TopicMerger \<Rightarrow> TopicMergerStats" where
  "merger_stats m = \<lparr>st_updates_received = tm_updates_received m, st_errors_dropped = tm_errors_dropped m,
                     st_entry_count = cache_size (tm_cache m)\<rparr>"

definition set_debug_handler :: "bool \<Rightarrow> TopicMerger \<Rightarrow> TopicMerger" where
  "set_debug_handler handler m = m\<lparr>tm_debug_handler := handler\<rparr>"

section \<open>The resume value\<close>

lemma resume_loop_eq: "n \<le> length bs \<Longrightarrow> resume_loop n bs v = be_bytes n v @ drop n bs"
proof (induction n arbitrary: bs v)
  case 0
  then show ?case by simp
next
  case (Suc n)
  have "drop n (bs[n := ucast v]) = ucast v # drop (Suc n) bs"
    using Suc.prems by (simp add: Cons_nth_drop_Suc [symmetric])
  with Suc show ?case
    by (simp add: ucast_and_FF be_bytes_snoc del: be_bytes.simps)
qed

lemma encode_resume_op_id_eq: "encode_resume_op_id v = write_u64_be v"
  by (simp add: encode_resume_op_id_def resume_loop_eq write_be_eq)

section \<open>What a batch means\<close>

text \<open>
  The abstract reading of a batch: the operations its elements describe, elements without a usable key
  left out, merged in order. \<open>merge_trace\<close> lists each operation with its result and handler calls.
\<close>

definition inner_op :: "'j json_lib \<Rightarrow> CacheOp \<Rightarrow> 'j \<Rightarrow> CacheOp option" where
  "inner_op J template jop =
     (if js_is_object J jop then
        (case js_find J jop key_name of
           None \<Rightarrow> None
         | Some k \<Rightarrow>
             if js_is_string J k \<and> js_get_string J k \<noteq> [] then
               let tomb = (case js_find J jop tombstone_name of
                             Some t \<Rightarrow> js_is_boolean J t \<and> js_get_bool J t | None \<Rightarrow> False) in
               Some (template\<lparr>op_key := js_get_string J k,
                 op_value := (if tomb then []
                              else case js_find J jop value_name of Some v \<Rightarrow> js_dump J v | None \<Rightarrow> []),
                 op_tombstone := tomb\<rparr>)
             else None)
      else None)"

definition batch_of :: "'j json_lib \<Rightarrow> 'j \<Rightarrow> 'j list option" where
  "batch_of J j = (if js_is_array J j then Some (js_elements J j) else if js_is_object J j then Some [j] else None)"

fun merge_trace :: "CacheOp list \<Rightarrow> CacheMap \<Rightarrow> (CacheOp \<times> MergeResult \<times> change_call list) list" where
  "merge_trace [] c = []"
| "merge_trace (op # ops) c = (op, snd (merge op c)) # merge_trace ops (merge_step op c)"

definition traced :: "MergeResult \<Rightarrow> (CacheOp \<times> MergeResult \<times> change_call list) list \<Rightarrow> CacheOp list" where
  "traced r t = map fst (filter (\<lambda>(op, r', calls). r' = r) t)"

lemma traced_simps [simp]:
  "traced r [] = []"
  "traced r ((op, r', calls) # t) = (if r' = r then op # traced r t else traced r t)"
  by (simp_all add: traced_def)

lemma length_merge_trace [simp]: "length (merge_trace ops c) = length ops"
  by (induction ops arbitrary: c) simp_all

lemma traced_partition:
  "length (traced Accepted t) + length (traced Tombstoned t) + length (traced Rejected t) = length t"
proof (induction t)
  case Nil
  then show ?case by simp
next
  case (Cons x t)
  obtain op r calls where "x = (op, r, calls)"
    by (cases x)
  with Cons show ?case by (cases r) simp_all
qed

lemma process_one_op_eq:
  "process_one_op J jop template c res =
     (case inner_op J template jop of
        None \<Rightarrow> (c, res, Rejected, [], [])
      | Some op \<Rightarrow>
          let (c', r, calls) = merge op c in
          (c', \<lparr>mb_accepted = mb_accepted res @ (if r = Accepted then [\<lparr>tv_key = op_key op, tv_value = op_value op\<rparr>] else []),
                mb_tombstoned = mb_tombstoned res @ (if r = Tombstoned then [op_key op] else [])\<rparr>,
           r, if r = Rejected then op_key op else [], calls))"
  by (auto simp: process_one_op_def inner_op_def Let_def intro!: MergeBatchResult.equality
      split: option.split prod.split MergeResult.split)

lemma inner_op_key: "inner_op J template jop = Some op \<Longrightarrow> op_key op \<noteq> []"
  by (auto simp: inner_op_def Let_def split: if_splits option.splits)

lemma inner_op_id: "inner_op J template jop = Some op \<Longrightarrow> op_op_id op = op_op_id template"
  by (auto simp: inner_op_def Let_def split: if_splits option.splits)

lemma handle_op_eq:
  "handle_op J template jop s =
     (case inner_op J template jop of
        None \<Rightarrow> s
      | Some op \<Rightarrow>
          let c = tm_cache (bs_merger s); (c', r, calls) = merge op c in
          \<lparr>bs_merger = (bs_merger s)\<lparr>tm_cache := c',
             tm_updates_received := tm_updates_received (bs_merger s) + (if r = Rejected then 0 else 1)\<rparr>,
           bs_result = \<lparr>mb_accepted = mb_accepted (bs_result s) @
               (if r = Accepted then [\<lparr>tv_key = op_key op, tv_value = op_value op\<rparr>] else []),
             mb_tombstoned = mb_tombstoned (bs_result s) @ (if r = Tombstoned then [op_key op] else [])\<rparr>,
           bs_rejected = bs_rejected s @ (if r = Rejected then [op_key op] else []),
           bs_calls = bs_calls s @ calls\<rparr>)"
proof (cases "inner_op J template jop")
  case None
  then show ?thesis by (simp add: handle_op_def process_one_op_eq)
next
  case (Some op)
  obtain c' r calls where m: "merge op (tm_cache (bs_merger s)) = (c', r, calls)"
    by (cases "merge op (tm_cache (bs_merger s))")
  show ?thesis
    using inner_op_key [OF Some]
    by (cases r) (simp_all add: handle_op_def process_one_op_eq Some m Let_def batch_state.equality)
qed

lemma handle_batch:
  "fold (handle_op J template) jops s =
     (let c = tm_cache (bs_merger s); ops = List.map_filter (inner_op J template) jops; t = merge_trace ops c in
      \<lparr>bs_merger = (bs_merger s)\<lparr>tm_cache := fold merge_step ops c,
         tm_updates_received := tm_updates_received (bs_merger s)
           + of_nat (length (traced Accepted t) + length (traced Tombstoned t))\<rparr>,
       bs_result = \<lparr>mb_accepted = mb_accepted (bs_result s) @
           map (\<lambda>op. \<lparr>tv_key = op_key op, tv_value = op_value op\<rparr>) (traced Accepted t),
         mb_tombstoned = mb_tombstoned (bs_result s) @ map op_key (traced Tombstoned t)\<rparr>,
       bs_rejected = bs_rejected s @ map op_key (traced Rejected t),
       bs_calls = bs_calls s @ concat (map (snd \<circ> snd) t)\<rparr>)"
proof (induction jops arbitrary: s)
  case Nil
  then show ?case by (simp add: map_filter_simps batch_state.equality)
next
  case (Cons jop jops)
  show ?case
  proof (cases "inner_op J template jop")
    case None
    then show ?thesis
      using Cons.IH [of s] by (simp add: handle_op_eq map_filter_simps)
  next
    case (Some op)
    obtain c' r calls where m: "merge op (tm_cache (bs_merger s)) = (c', r, calls)"
      by (cases "merge op (tm_cache (bs_merger s))")
    show ?thesis
      unfolding fold_Cons o_apply Cons.IH
      by (cases r) (simp_all add: handle_op_eq Some m Let_def map_filter_simps ac_simps)
  qed
qed

definition template_of :: "CacheOp \<Rightarrow> CacheOp" where
  "template_of env = env\<lparr>op_key := [], op_value := [], op_tombstone := False\<rparr>"

definition batch_ops :: "'j json_lib \<Rightarrow> CacheOp \<Rightarrow> 'j list \<Rightarrow> CacheOp list" where
  "batch_ops J env jops = List.map_filter (inner_op J (template_of env)) jops"

lemma batch_ops_ids: "op \<in> set (batch_ops J env jops) \<Longrightarrow> op_op_id op = op_op_id env"
proof -
  assume "op \<in> set (batch_ops J env jops)"
  then obtain x where "inner_op J (template_of env) x = Some op"
    by (auto simp: batch_ops_def map_filter_def)
  from inner_op_id [OF this] show ?thesis
    by (simp add: template_of_def)
qed

lemma decoded_is_envelope:
  "decode_cache_op (Some blk) (length blk) = Done env \<Longrightarrow> is_cache_envelope (Some blk) (length blk) = Done True"
  by (erule decode_cache_op_sound) (simp add: is_cache_envelope_def envelope_def elem_at_def)

lemma apply_envelope_ok:
  assumes "decode_cache_op (Some blk) (length blk) = Done env" and "js_parse J (op_value env) = Some j"
    and "batch_of J j = Some jops" and "t = merge_trace (batch_ops J env jops) (tm_cache m)"
  shows "apply_envelope J (Some blk) (length blk) m = Done
     (m\<lparr>tm_cache := fold merge_step (batch_ops J env jops) (tm_cache m),
        tm_updates_received := tm_updates_received m
          + of_nat (length (traced Accepted t) + length (traced Tombstoned t))\<rparr>,
      Some \<lparr>mb_accepted = map (\<lambda>op. \<lparr>tv_key = op_key op, tv_value = op_value op\<rparr>) (traced Accepted t),
            mb_tombstoned = map op_key (traced Tombstoned t)\<rparr>,
      if tm_debug_handler m then
        Some \<lparr>di_topic = op_topic env, di_op_id = op_op_id env, di_op_count = length jops,
              di_accepted_keys = map op_key (traced Accepted t), di_tombstoned_keys = map op_key (traced Tombstoned t),
              di_rejected_keys = map op_key (traced Rejected t)\<rparr>
      else None,
      concat (map (snd \<circ> snd) t))"
proof -
  let ?start = "\<lparr>bs_merger = m, bs_result = empty_result, bs_rejected = [], bs_calls = []\<rparr>"
  have tpl: "\<lparr>op_topic = op_topic env, op_key = [], op_value = [], op_op_id = op_op_id env,
      op_node_id = op_node_id env, op_tombstone = False\<rparr> = template_of env"
    by (simp add: template_of_def CacheOp.equality)
  have one: "handle_op J (template_of env) j s = fold (handle_op J (template_of env)) [j] s" for s
    by simp
  show ?thesis
    using assms(3)
    by (auto simp: apply_envelope_def decoded_is_envelope [OF assms(1)] assms(1,2) tpl one batch_of_def
        handle_batch Let_def empty_result_def assms(4) batch_ops_def comp_def
        simp del: fold.simps split: if_splits)
qed

lemma apply_envelope_dropped:
  assumes "\<And>blk. data = Some blk \<Longrightarrow> len \<le> length blk"
    and "\<nexists>env j jops. decode_cache_op data len = Done env \<and> js_parse J (op_value env) = Some j \<and> batch_of J j = Some jops"
  shows "apply_envelope J data len m = Done (drop_error m, None, None, [])"
proof -
  have "\<exists>e. is_cache_envelope data len = Done e"
    using assms(1) by (cases data) (auto simp: is_cache_envelope_def elem_at_def)
  then obtain e where e: "is_cache_envelope data len = Done e" ..
  show ?thesis
    using decode_cache_op_no_crash [of data len] assms
    by (cases "decode_cache_op data len")
      (auto simp: apply_envelope_def e batch_of_def Let_def split: option.split if_splits)
qed

section \<open>A run of envelopes\<close>

text \<open>
  The operations a payload brings, none if it is dropped, and a merger fed with payloads one after the other.
\<close>

definition envelope_ops :: "'j json_lib \<Rightarrow> bytes \<Rightarrow> CacheOp list" where
  "envelope_ops J raw =
     (case decode_cache_op (Some raw) (length raw) of
        Done env \<Rightarrow>
          (case js_parse J (op_value env) of
             None \<Rightarrow> []
           | Some j \<Rightarrow> (case batch_of J j of None \<Rightarrow> [] | Some jops \<Rightarrow> batch_ops J env jops))
      | _ \<Rightarrow> [])"

fun apply_envelopes :: "'j json_lib \<Rightarrow> bytes list \<Rightarrow> TopicMerger \<Rightarrow> TopicMerger outcome" where
  "apply_envelopes J [] m = Done m"
| "apply_envelopes J (raw # raws) m =
     and_then (apply_envelope J (Some raw) (length raw) m) (\<lambda>(m, _). apply_envelopes J raws m)"

lemma apply_envelope_cache:
  "\<exists>m' rest. apply_envelope J (Some raw) (length raw) m = Done (m', rest)
     \<and> tm_cache m' = fold merge_step (envelope_ops J raw) (tm_cache m)"
proof (cases "\<exists>env j jops. decode_cache_op (Some raw) (length raw) = Done env \<and> js_parse J (op_value env) = Some j
          \<and> batch_of J j = Some jops")
  case True
  then obtain env j jops where d: "decode_cache_op (Some raw) (length raw) = Done env"
    "js_parse J (op_value env) = Some j" "batch_of J j = Some jops"
    by blast
  then show ?thesis
    by (simp add: apply_envelope_ok [OF d refl] envelope_ops_def)
next
  case False
  then have "envelope_ops J raw = []"
    by (auto simp: envelope_ops_def split: outcome.split option.split)
  with False apply_envelope_dropped [of "Some raw" "length raw" J m] show ?thesis
    by (simp add: drop_error_def)
qed

lemma apply_envelopes_cache:
  "\<exists>m'. apply_envelopes J raws m = Done m'
     \<and> tm_cache m' = fold merge_step (concat (map (envelope_ops J) raws)) (tm_cache m)"
proof (induction raws arbitrary: m)
  case Nil
  then show ?case by simp
next
  case (Cons raw raws)
  from apply_envelope_cache [of J raw m] obtain m1 rest
    where m1: "apply_envelope J (Some raw) (length raw) m = Done (m1, rest)"
      "tm_cache m1 = fold merge_step (envelope_ops J raw) (tm_cache m)"
    by blast
  with Cons.IH [of m1] show ?case by simp
qed

lemma apply_envelopes_resume:
  assumes "apply_envelopes J raws (new_TopicMerger None) = Done m"
  shows "resume_op_id m = Max (insert 0 (op_op_id ` set (concat (map (envelope_ops J) raws))))"
    and "cache_ok (tm_cache m)"
  using assms apply_envelopes_cache [of J raws "new_TopicMerger None"] cache.high_fold_Max cache.ok_fold [OF cache_ok_new]
  by (auto simp: new_TopicMerger_def resume_op_id_def highest_op_id_def new_CacheMap_def)

section \<open>Properties\<close>

text \<open>C17: an envelope whose JSON is an operation or a list of operations has exactly the effect of merging, in
  order, the operations its usable elements describe: the cache, the batch result, the update counter,
  the debug report and the change-handler calls are those of that sequence of merges.\<close>

theorem apply_envelope_merges:
  assumes "decode_cache_op (Some blk) (length blk) = Done env" and "js_parse J (op_value env) = Some j"
    and "batch_of J j = Some jops" and "t = merge_trace (batch_ops J env jops) (tm_cache m)"
  shows "apply_envelope J (Some blk) (length blk) m = Done
     (m\<lparr>tm_cache := fold merge_step (batch_ops J env jops) (tm_cache m),
        tm_updates_received := tm_updates_received m
          + of_nat (length (traced Accepted t) + length (traced Tombstoned t))\<rparr>,
      Some \<lparr>mb_accepted = map (\<lambda>op. \<lparr>tv_key = op_key op, tv_value = op_value op\<rparr>) (traced Accepted t),
            mb_tombstoned = map op_key (traced Tombstoned t)\<rparr>,
      if tm_debug_handler m then
        Some \<lparr>di_topic = op_topic env, di_op_id = op_op_id env, di_op_count = length jops,
              di_accepted_keys = map op_key (traced Accepted t), di_tombstoned_keys = map op_key (traced Tombstoned t),
              di_rejected_keys = map op_key (traced Rejected t)\<rparr>
      else None,
      concat (map (snd \<circ> snd) t))"
  by (rule apply_envelope_ok [OF assms])

text \<open>
  A small JSON library for the witnesses: an object with a key and a value, or a list of such objects;
  the document names one of three of them.
\<close>

datatype toy_json = Toy_String bytes | Toy_Object bytes bytes | Toy_Array "toy_json list"

definition toy_lib :: "toy_json json_lib" where
  "toy_lib = \<lparr>js_parse = (\<lambda>bs. if bs = [1] then Some (Toy_Object [7] [8])
       else if bs = [2] then Some (Toy_Array [Toy_Object [7] [8], Toy_String [9], Toy_Object [7] [5]])
       else None),
     js_is_object = (\<lambda>j. case j of Toy_Object _ _ \<Rightarrow> True | _ \<Rightarrow> False),
     js_is_array = (\<lambda>j. case j of Toy_Array _ \<Rightarrow> True | _ \<Rightarrow> False),
     js_elements = (\<lambda>j. case j of Toy_Array js \<Rightarrow> js | _ \<Rightarrow> []),
     js_find = (\<lambda>j name. case j of
         Toy_Object k v \<Rightarrow> if name = key_name then Some (Toy_String k)
                         else if name = value_name then Some (Toy_String v) else None
       | _ \<Rightarrow> None),
     js_is_string = (\<lambda>j. case j of Toy_String _ \<Rightarrow> True | _ \<Rightarrow> False),
     js_get_string = (\<lambda>j. case j of Toy_String s \<Rightarrow> s | _ \<Rightarrow> []),
     js_is_boolean = (\<lambda>j. False), js_get_bool = (\<lambda>j. False),
     js_dump = (\<lambda>j. case j of Toy_String s \<Rightarrow> s | _ \<Rightarrow> [])\<rparr>"

definition toy_envelope :: "bytes \<Rightarrow> CacheOp" where
  "toy_envelope value = \<lparr>op_topic = [3], op_key = [], op_value = value, op_op_id = 6, op_node_id = 1,
     op_tombstone = False\<rparr>"

lemma decode_toy_envelope:
  "length v \<le> 100 \<Longrightarrow> decode_cache_op (Some (envelope 0 (toy_envelope v))) (length (envelope 0 (toy_envelope v)))
     = Done (toy_envelope v)"
  using decode_envelope [of "toy_envelope v" 0 "[]"] by (simp add: op_fits_def toy_envelope_def)

lemma toy_names: "key_name \<noteq> value_name" "tombstone_name \<noteq> key_name" "tombstone_name \<noteq> value_name"
  by (simp_all add: key_name_def value_name_def tombstone_name_def)

theorem apply_envelope_merges_witness:
  "\<exists>m' calls. apply_envelope toy_lib (Some (envelope 0 (toy_envelope [2])))
       (length (envelope 0 (toy_envelope [2]))) (new_TopicMerger None)
     = Done (m', Some \<lparr>mb_accepted = [\<lparr>tv_key = [7], tv_value = [8]\<rparr>], mb_tombstoned = []\<rparr>, None, calls)
     \<and> tm_updates_received m' = 1"
proof -
  let ?jops = "[Toy_Object [7] [8], Toy_String [9], Toy_Object [7] [5]]"
  let ?m = "new_TopicMerger None"
  have ops: "batch_ops toy_lib (toy_envelope [2]) ?jops =
      [(template_of (toy_envelope [2]))\<lparr>op_key := [7], op_value := [8]\<rparr>,
       (template_of (toy_envelope [2]))\<lparr>op_key := [7], op_value := [5]\<rparr>]"
    using toy_names by (simp add: batch_ops_def map_filter_simps inner_op_def toy_lib_def template_of_def toy_envelope_def)
  have t: "traced Accepted (merge_trace (batch_ops toy_lib (toy_envelope [2]) ?jops) (tm_cache ?m))
      = [(template_of (toy_envelope [2]))\<lparr>op_key := [7], op_value := [8]\<rparr>]"
    "traced Tombstoned (merge_trace (batch_ops toy_lib (toy_envelope [2]) ?jops) (tm_cache ?m)) = []"
    unfolding ops
    by (simp_all add: merge_def new_TopicMerger_def new_CacheMap_def map_find_def template_of_def
        toy_envelope_def entry_of_def)
  have "js_parse toy_lib (op_value (toy_envelope [2])) = Some (Toy_Array ?jops)"
    and "batch_of toy_lib (Toy_Array ?jops) = Some ?jops"
    by (simp_all add: toy_lib_def toy_envelope_def batch_of_def)
  from apply_envelope_merges [OF decode_toy_envelope this refl, of ?m] show ?thesis
    unfolding t by (simp add: new_TopicMerger_def template_of_def toy_envelope_def)
qed

text \<open>C37: \<open>apply_envelope\<close> always returns, and reports \<open>nullopt\<close> exactly for a payload that is not a
  well-formed envelope around a JSON object or array; then nothing but the error counter changes and no
  handler is called.\<close>

theorem apply_envelope_errors:
  assumes "\<And>blk. data = Some blk \<Longrightarrow> len = length blk"
  shows "\<exists>m' res dbg calls. apply_envelope J data len m = Done (m', res, dbg, calls)
    \<and> (res = None \<longleftrightarrow> \<not> (\<exists>env j jops. decode_cache_op data len = Done env \<and> js_parse J (op_value env) = Some j
          \<and> batch_of J j = Some jops))
    \<and> (if res = None then m' = drop_error m \<and> dbg = None \<and> calls = []
       else tm_errors_dropped m' = tm_errors_dropped m)"
proof (cases "\<exists>env j jops. decode_cache_op data len = Done env \<and> js_parse J (op_value env) = Some j
          \<and> batch_of J j = Some jops")
  case True
  then obtain env j jops where d: "decode_cache_op data len = Done env" "js_parse J (op_value env) = Some j"
    "batch_of J j = Some jops"
    by blast
  then obtain blk where "data = Some blk" and "len = length blk"
    using assms by (cases data) (auto simp: decode_cache_op_def)
  with True d apply_envelope_ok [of blk env J j jops _ m] show ?thesis
    by simp
next
  case False
  with apply_envelope_dropped [of data len J m] assms show ?thesis
    by simp
qed

theorem apply_envelope_errors_witness:
  "\<exists>m' dbg calls. apply_envelope toy_lib None 5 (new_TopicMerger None) = Done (m', None, dbg, calls)
     \<and> tm_errors_dropped m' = 1"
  using apply_envelope_errors [of None 5 toy_lib "new_TopicMerger None"]
  by (auto simp: decode_cache_op_def drop_error_def new_TopicMerger_def)

text \<open>After a well-formed envelope the resume id is the larger of its own id and the one before, whether
  its operations were accepted or stale, except that a batch without a single usable operation leaves
  it where it was.\<close>

theorem resume_after_envelope:
  assumes "decode_cache_op (Some blk) (length blk) = Done env" and "js_parse J (op_value env) = Some j"
    and "batch_of J j = Some jops"
    and "apply_envelope J (Some blk) (length blk) m = Done (m', rest)"
  shows "resume_op_id m' =
     (if batch_ops J env jops = [] then resume_op_id m else max (resume_op_id m) (op_op_id env))"
proof -
  let ?ops = "batch_ops J env jops"
  have "tm_cache m' = fold merge_step ?ops (tm_cache m)"
    using assms(4) unfolding apply_envelope_ok [OF assms(1-3) refl, of m] by auto
  then have "resume_op_id m' = Max (insert (resume_op_id m) (op_op_id ` set ?ops))"
    by (simp add: resume_op_id_def cache.high_fold_Max)
  moreover have "op_op_id ` set ?ops = {op_op_id env}" if "?ops \<noteq> []"
  proof -
    have "op_op_id ` set ?ops = (\<lambda>_. op_op_id env) ` set ?ops"
      by (intro image_cong refl) (erule batch_ops_ids)
    with that show ?thesis by (simp add: image_constant_conv)
  qed
  ultimately show ?thesis
    by simp
qed

theorem resume_after_envelope_witness:
  "\<exists>m' rest. apply_envelope toy_lib (Some (envelope 0 (toy_envelope [1])))
       (length (envelope 0 (toy_envelope [1]))) (new_TopicMerger None) = Done (m', rest)
     \<and> resume_op_id m' = 6"
proof -
  let ?m = "new_TopicMerger None"
  let ?blk = "envelope 0 (toy_envelope [1])"
  have d: "decode_cache_op (Some ?blk) (length ?blk) = Done (toy_envelope [1])"
    by (rule decode_toy_envelope) simp
  have j: "js_parse toy_lib (op_value (toy_envelope [1])) = Some (Toy_Object [7] [8])"
    "batch_of toy_lib (Toy_Object [7] [8]) = Some [Toy_Object [7] [8]]"
    by (simp_all add: toy_lib_def toy_envelope_def batch_of_def)
  obtain m' rest where a: "apply_envelope toy_lib (Some ?blk) (length ?blk) ?m = Done (m', rest)"
    using apply_envelope_ok [OF d j refl, of ?m] by blast
  have "batch_ops toy_lib (toy_envelope [1]) [Toy_Object [7] [8]] \<noteq> []"
    using toy_names by (simp add: batch_ops_def map_filter_simps inner_op_def toy_lib_def)
  moreover have "resume_op_id ?m = 0"
    by (simp add: resume_op_id_def new_TopicMerger_def new_CacheMap_def highest_op_id_def)
  ultimately have "resume_op_id m' = 6"
    using resume_after_envelope [OF d j a] by (simp add: toy_envelope_def)
  with a show ?thesis by blast
qed

end
