(* ===== verification/Ring.thy ===== *)
theory Ring
  imports Prelude "HOL-Library.Sublist"
begin

text \<open>
  The circular storage both audio buffers use: \<open>copy_to_ring\<close> and \<open>copy_from_ring\<close>, which
  \<open>ring_buffer.cpp\<close> and \<open>jitter_buffer.cpp\<close> define with the same bodies, and the sequence of elements a
  read position and a fill level denote. The lemmas say what a store and a move of the read position
  do to that sequence, and that copying is storing one element after the other. The locale
  \<open>bounded_fifo\<close> is the contract of a buffer that drops its oldest elements when it is full.
\<close>

section \<open>Samples\<close>

text \<open>
  A \<open>float\<close> is only copied, never computed with, so a sample is its 32-bit pattern; \<open>0.0f\<close> is the
  pattern 0.
\<close>

type_synonym sample = u32

definition u32_mod :: "u32 \<Rightarrow> u32 \<Rightarrow> u32 outcome" where
  "u32_mod a b = (if b = 0 then Crash DivideByZero else Done (a mod b))"

definition u32_div :: "u32 \<Rightarrow> u32 \<Rightarrow> u32 outcome" where
  "u32_div a b = (if b = 0 then Crash DivideByZero else Done (a div b))"

lemma unat_mult_no_wrap: "unat a * unat b < 4294967296 \<Longrightarrow> unat (a * b :: u32) = unat a * unat b"
  by (simp add: unat_word_ariths)

lemma unat_plus_no_wrap: "unat a + unat b < 4294967296 \<Longrightarrow> unat (a + b :: u32) = unat a + unat b"
  by (simp add: unat_word_ariths)

lemma unat_minus_no_wrap: "unat b \<le> unat a \<Longrightarrow> unat (a - b :: u32) = unat a - unat b"
  by (simp add: unat_sub word_le_nat_alt)

lemma unat_mod_word: "unat (a mod b :: u32) = unat a mod unat b"
  by (simp add: unat_mod_distrib)

lemma u32_mod_Done: "0 < unat b \<Longrightarrow> u32_mod a b = Done (a mod b)"
  by (auto simp: u32_mod_def)

lemma u32_div_Done: "0 < unat b \<Longrightarrow> u32_div a b = Done (a div b)"
  by (auto simp: u32_div_def)

section \<open>Copying into and out of the ring\<close>

definition copy_to_ring :: "u32 \<Rightarrow> 'a list \<Rightarrow> u32 \<Rightarrow> 'a list \<Rightarrow> u32 \<Rightarrow> 'a list outcome" where
  "copy_to_ring capacity data pos src floats =
     (let remain = capacity - pos in
      if floats \<le> remain then
        and_then (mem_read src 0 (unat floats)) (\<lambda>xs. mem_write data (unat pos) xs)
      else
        and_then (mem_read src 0 (unat remain)) (\<lambda>xs.
        and_then (mem_write data (unat pos) xs) (\<lambda>data.
        and_then (mem_read src (unat remain) (unat (floats - remain))) (\<lambda>ys.
          mem_write data 0 ys))))"

text \<open>The elements copied out, in the order they are stored at the destination.\<close>

definition copy_from_ring :: "u32 \<Rightarrow> 'a list \<Rightarrow> u32 \<Rightarrow> u32 \<Rightarrow> 'a list outcome" where
  "copy_from_ring capacity data pos floats =
     (let remain = capacity - pos in
      if floats \<le> remain then mem_read data (unat pos) (unat floats)
      else
        and_then (mem_read data (unat pos) (unat remain)) (\<lambda>xs.
        and_then (mem_read data 0 (unat (floats - remain))) (\<lambda>ys. Done (xs @ ys))))"

section \<open>The sequence in the ring\<close>

definition ring_seq :: "'a list \<Rightarrow> nat \<Rightarrow> nat \<Rightarrow> 'a list" where
  "ring_seq data pos n = map (\<lambda>i. data ! ((pos + i) mod length data)) [0..<n]"

lemma length_ring_seq [simp]: "length (ring_seq data pos n) = n"
  by (simp add: ring_seq_def)

lemma nth_ring_seq [simp]: "i < n \<Longrightarrow> ring_seq data pos n ! i = data ! ((pos + i) mod length data)"
  by (simp add: ring_seq_def)

lemma ring_seq_0 [simp]: "ring_seq data pos 0 = []"
  by (simp add: ring_seq_def)

lemma ring_seq_mod: "length data = c \<Longrightarrow> ring_seq data (pos mod c) n = ring_seq data pos n"
  by (auto simp: ring_seq_def mod_add_left_eq)

lemma take_ring_seq: "k \<le> n \<Longrightarrow> take k (ring_seq data pos n) = ring_seq data pos k"
  by (simp add: ring_seq_def take_map)

lemma drop_ring_seq: "drop k (ring_seq data pos n) = ring_seq data (pos + k) (n - k)"
  by (rule nth_equalityI) (simp_all add: ac_simps)

lemma copy_from_ring_eq:
  assumes "length data = unat cap" and "pos < cap" and "n \<le> cap"
  shows "copy_from_ring cap data pos n = Done (ring_seq data (unat pos) (unat n))"
proof -
  have p: "unat pos < unat cap" and n: "unat n \<le> unat cap"
    using assms by (simp_all add: word_less_nat_alt word_le_nat_alt)
  have r: "unat (cap - pos) = unat cap - unat pos"
    using assms(2) by (simp add: unat_sub)
  show ?thesis
  proof (cases "n \<le> cap - pos")
    case True
    then have le: "unat pos + unat n \<le> unat cap"
      using r p by (simp add: word_le_nat_alt)
    have "take (unat n) (drop (unat pos) data) = ring_seq data (unat pos) (unat n)"
      by (rule nth_equalityI) (use le assms(1) in simp_all)
    with True le assms(1) show ?thesis
      by (simp add: copy_from_ring_def mem_simps)
  next
    case False
    then have gt: "unat cap - unat pos < unat n"
      using r by (simp add: word_le_nat_alt)
    have d: "unat (n - (cap - pos)) = unat n - (unat cap - unat pos)"
      using False r by (simp add: unat_sub)
    have "take (unat cap - unat pos) (drop (unat pos) data) @ take (unat n - (unat cap - unat pos)) data
        = ring_seq data (unat pos) (unat n)"
    proof (rule nth_equalityI)
      show "length (take (unat cap - unat pos) (drop (unat pos) data) @ take (unat n - (unat cap - unat pos)) data)
          = length (ring_seq data (unat pos) (unat n))"
        using p n gt assms(1) by simp
      fix i
      assume "i < length (take (unat cap - unat pos) (drop (unat pos) data) @ take (unat n - (unat cap - unat pos)) data)"
      then have i: "i < unat n"
        using p n gt assms(1) by simp
      show "(take (unat cap - unat pos) (drop (unat pos) data) @ take (unat n - (unat cap - unat pos)) data) ! i
          = ring_seq data (unat pos) (unat n) ! i"
      proof (cases "i < unat cap - unat pos")
        case True
        with i p assms(1) show ?thesis by (simp add: nth_append)
      next
        case False
        then have eq: "unat pos + i = i - (unat cap - unat pos) + unat cap"
          using p by simp
        have "(unat pos + i) mod unat cap = i - (unat cap - unat pos)"
          by (subst eq, subst mod_add_self2, rule mod_less) (use i p n False in simp)
        with False i p n assms(1) show ?thesis by (simp add: nth_append)
      qed
    qed
    with False p n gt r d assms(1) show ?thesis
      by (simp add: copy_from_ring_def mem_simps Let_def)
  qed
qed

text \<open>A store that fits before the end of the block, and one that wraps.\<close>

lemma copy_to_ring_fits:
  assumes "length data = unat cap" and "n \<le> cap - pos" and "unat pos + unat n \<le> unat cap" and "unat n \<le> length src"
  shows "copy_to_ring cap data pos src n = Done (take (unat pos) data @ take (unat n) src @ drop (unat pos + unat n) data)"
  using assms by (simp add: copy_to_ring_def mem_simps min_def)

lemma copy_to_ring_wraps:
  assumes "length data = unat cap" and "unat pos < unat cap" and "\<not> n \<le> cap - pos" and "unat n \<le> unat cap"
    and "unat n \<le> length src"
  defines "r \<equiv> unat cap - unat pos"
  shows "r < unat n" and "copy_to_ring cap data pos src n
      = Done (take (unat n - r) (drop r src) @ drop (unat n - r) (take (unat pos) data @ take r src))"
proof -
  have u: "unat (cap - pos) = r"
    using assms(2) by (simp add: r_def unat_minus_no_wrap)
  then show gt: "r < unat n"
    using assms(3) by (simp add: word_le_nat_alt)
  have w: "unat (n - (cap - pos)) = unat n - r"
    using gt u by (simp add: unat_minus_no_wrap)
  have first: "mem_write data (unat pos) (take r src) = Done (take (unat pos) data @ take r src)"
    using assms(1,2,5) gt by (subst mem_write_Done) (simp_all add: r_def)
  have second: "mem_write (take (unat pos) data @ take r src) 0 (take (unat n - r) (drop r src))
      = Done (take (unat n - r) (drop r src) @ drop (unat n - r) (take (unat pos) data @ take r src))"
    by (subst mem_write_Done) (use assms(1,2,4,5) gt in \<open>simp_all add: r_def\<close>)
  have reads: "mem_read src 0 r = Done (take r src)" "mem_read src r (unat n - r) = Done (take (unat n - r) (drop r src))"
    using gt assms(5) by (simp_all add: mem_simps)
  show "copy_to_ring cap data pos src n
      = Done (take (unat n - r) (drop r src) @ drop (unat n - r) (take (unat pos) data @ take r src))"
    using assms(3) by (simp only: copy_to_ring_def Let_def if_False u w reads first second and_then.simps)
qed

lemma copy_to_ring_eq:
  assumes "length data = unat cap" and "pos < cap" and "n \<le> cap" and "unat n \<le> length src"
  obtains data' where "copy_to_ring cap data pos src n = Done data'" and "length data' = length data"
    and "\<And>d. d < unat cap \<Longrightarrow> data' ! ((unat pos + d) mod unat cap) =
           (if d < unat n then src ! d else data ! ((unat pos + d) mod unat cap))"
proof (cases "n \<le> cap - pos")
  case True
  then have le: "unat pos + unat n \<le> unat cap"
    using assms(2) by (simp add: unat_sub word_le_nat_alt word_less_nat_alt)
  let ?d = "take (unat pos) data @ take (unat n) src @ drop (unat pos + unat n) data"
  have "?d ! ((unat pos + d) mod unat cap) =
      (if d < unat n then src ! d else data ! ((unat pos + d) mod unat cap))" if "d < unat cap" for d
    using that le assms by (auto simp: nth_append min_def mod_if word_less_nat_alt)
  then show thesis
    using le assms by (intro that [OF copy_to_ring_fits [OF assms(1) True le assms(4)]]) simp_all
next
  case False
  have p: "unat pos < unat cap" and n: "unat n \<le> unat cap"
    using assms by (simp_all add: word_less_nat_alt word_le_nat_alt)
  let ?r = "unat cap - unat pos"
  let ?d = "take (unat n - ?r) (drop ?r src) @ drop (unat n - ?r) (take (unat pos) data @ take ?r src)"
  note w = copy_to_ring_wraps [OF assms(1) p False n assms(4)]
  have "?d ! ((unat pos + d) mod unat cap) =
      (if d < unat n then src ! d else data ! ((unat pos + d) mod unat cap))" if d: "d < unat cap" for d
  proof (cases "d < ?r")
    case True
    then have "(unat pos + d) mod unat cap = unat pos + d" and "unat n - ?r \<le> unat pos + d"
      using d p n by simp_all
    with True assms(1,4) p n w(1) show ?thesis
      by (auto simp: nth_append)
  next
    case False
    then have "unat pos + d = (d - ?r) + unat cap" and "d - ?r < unat cap"
      using d p by linarith+
    then have "(unat pos + d) mod unat cap = d - ?r"
      by (simp only: mod_add_self2 mod_less)
    then show ?thesis
      using False d assms(1,4) p n w(1) by (auto simp: nth_append add.commute)
  qed
  then show thesis
    using p n w(1) assms by (intro that [OF w(2)]) simp_all
qed

text \<open>Storing behind the sequence appends to it, if there is room.\<close>

lemma ring_seq_store:
  assumes "length data' = length data" and "0 < length data" and "k + length xs \<le> length data"
    and "\<And>d. d < length data \<Longrightarrow> data' ! ((pos + k + d) mod length data) =
           (if d < length xs then xs ! d else data ! ((pos + k + d) mod length data))"
  shows "ring_seq data' pos (k + length xs) = ring_seq data pos k @ xs"
proof (rule nth_equalityI)
  show "length (ring_seq data' pos (k + length xs)) = length (ring_seq data pos k @ xs)"
    by simp
  fix i
  assume "i < length (ring_seq data' pos (k + length xs))"
  then have i: "i < k + length xs"
    by simp
  show "ring_seq data' pos (k + length xs) ! i = (ring_seq data pos k @ xs) ! i"
  proof (cases "i < k")
    case True
    let ?d = "length data - k + i"
    have eq: "pos + k + ?d = pos + i + length data" and d: "?d < length data" "\<not> ?d < length xs"
      using True assms(3) by simp_all
    have "(pos + k + ?d) mod length data = (pos + i) mod length data"
      unfolding eq by simp
    then have "data' ! ((pos + i) mod length data) = data ! ((pos + i) mod length data)"
      using assms(4) [OF d(1)] d(2) by (simp only: if_False)
    then show ?thesis
      using True i assms(1) by (simp add: nth_append)
  next
    case False
    with i assms(3) have lt: "i - k < length xs" "i - k < length data" and "pos + k + (i - k) = pos + i"
      by simp_all
    then have "data' ! ((pos + i) mod length data) = xs ! (i - k)"
      using assms(4) [OF lt(2)] by (simp only: if_True)
    with False i assms(1) show ?thesis by (simp add: nth_append)
  qed
qed

section \<open>One element at a time\<close>

text \<open>Where \<open>copy_to_ring\<close> and \<open>copy_from_ring\<close> find the \<open>i\<close>-th float from a position on.\<close>

definition ring_index :: "u32 \<Rightarrow> u32 \<Rightarrow> nat \<Rightarrow> nat" where
  "ring_index cap pos i = (let remain = unat (cap - pos) in if i < remain then unat pos + i else i - remain)"

lemma ring_index_mod:
  assumes "unat pos < unat cap" and "i < unat cap"
  shows "ring_index cap pos i = (unat pos + i) mod unat cap"
proof -
  have "unat (cap - pos) = unat cap - unat pos"
    using assms(1) by (simp add: unat_minus_no_wrap)
  then show ?thesis
    using assms by (auto simp: ring_index_def Let_def mod_if)
qed

lemma mod_distinct:
  assumes "a < b" and "b - a < (n::nat)"
  shows "a mod n \<noteq> b mod n"
proof
  assume "a mod n = b mod n"
  then have "n dvd b - a"
    using mod_eq_dvd_iff_nat [of a b n] assms(1) by simp
  with assms show False
    by (simp add: nat_dvd_not_less)
qed

lemma mem_write_one: "i < length xs \<Longrightarrow> mem_write xs i [x] = Done (xs[i := x])"
  by (simp add: mem_write_def upd_conv_take_nth_drop)

text \<open>The cells after the first \<open>i\<close> elements were stored.\<close>

definition store_cells :: "nat \<Rightarrow> 'a list \<Rightarrow> nat \<Rightarrow> 'a list \<Rightarrow> 'a list" where
  "store_cells pos xs i data = fold (\<lambda>j data. data[(pos + j) mod length data := xs ! j]) [0..<i] data"

lemma store_cells_simps [simp]:
  "store_cells pos xs 0 data = data"
  "store_cells pos xs (Suc i) data = (store_cells pos xs i data)[(pos + i) mod length (store_cells pos xs i data) := xs ! i]"
  by (simp_all add: store_cells_def)

lemma length_store_cells [simp]: "length (store_cells pos xs i data) = length data"
  by (induction i) simp_all

lemma nth_store_cells:
  "i \<le> length data \<Longrightarrow> d < length data \<Longrightarrow>
     store_cells pos xs i data ! ((pos + d) mod length data) = (if d < i then xs ! d else data ! ((pos + d) mod length data))"
proof (induction i)
  case (Suc i)
  have "0 < length data" "i < length data"
    using Suc.prems by auto
  moreover have "(pos + i) mod length data \<noteq> (pos + d) mod length data" if "d \<noteq> i"
  proof (cases "i < d")
    case True
    then show ?thesis
      by (intro mod_distinct) (use Suc.prems in linarith)+
  next
    case False
    then have "(pos + d) mod length data \<noteq> (pos + i) mod length data"
      by (intro mod_distinct) (use that Suc.prems in linarith)+
    then show ?thesis by simp
  qed
  ultimately show ?case
    using Suc by (cases "d = i") simp_all
qed simp

lemma ring_nth_eqI:
  assumes "length xs = length ys" and "\<And>d. d < length ys \<Longrightarrow> xs ! ((pos + d) mod length ys) = ys ! ((pos + d) mod length ys)"
  shows "xs = ys"
proof (rule nth_equalityI [OF assms(1)])
  fix i
  assume "i < length xs"
  then have i: "i < length ys"
    using assms(1) by simp
  define e where "e = (i + (length ys - pos mod length ys)) mod length ys"
  have pos: "0 < length ys"
    using i by linarith
  have "pos mod length ys < length ys" and e: "e < length ys"
    unfolding e_def by (rule mod_less_divisor [OF pos])+
  then have "(pos mod length ys + e) mod length ys = i"
    using i by (simp add: e_def mod_add_right_eq)
  then show "xs ! i = ys ! i"
    using assms(2) [OF e] by (simp add: mod_add_left_eq)
qed

lemma copy_to_ring_cells:
  assumes "length data = unat cap" and "pos < cap" and "n \<le> cap" and "unat n \<le> length xs"
  shows "copy_to_ring cap data pos xs n = Done (store_cells (unat pos) xs (unat n) data)"
proof -
  have u: "unat n \<le> unat cap"
    using assms(3) by (simp add: word_le_nat_alt)
  obtain data' where d: "copy_to_ring cap data pos xs n = Done data'" "length data' = length data"
    "\<And>d. d < unat cap \<Longrightarrow> data' ! ((unat pos + d) mod unat cap) =
       (if d < unat n then xs ! d else data ! ((unat pos + d) mod unat cap))"
    using copy_to_ring_eq [OF assms] by blast
  have "data' = store_cells (unat pos) xs (unat n) data"
    by (rule ring_nth_eqI [of _ _ "unat pos"])
      (use d(2,3) u assms(1) nth_store_cells [of "unat n" data _ "unat pos" xs] in simp_all)
  then show ?thesis
    by (simp add: d(1))
qed

text \<open>Storing what a cell already holds changes nothing.\<close>

lemma store_cells_stale:
  assumes "i \<le> n" and "n \<le> length data" and "i \<le> length xs"
  shows "store_cells pos (take i xs @ drop i (ring_seq data pos n)) n data = store_cells pos xs i data"
proof (rule ring_nth_eqI [of _ _ pos])
  fix d
  assume "d < length (store_cells pos xs i data)"
  then show "store_cells pos (take i xs @ drop i (ring_seq data pos n)) n data ! ((pos + d) mod length (store_cells pos xs i data))
      = store_cells pos xs i data ! ((pos + d) mod length (store_cells pos xs i data))"
    using assms by (auto simp: nth_store_cells nth_append)
qed simp

text \<open>A step taken any number of times.\<close>

inductive repeats :: "('s \<Rightarrow> 's outcome) \<Rightarrow> 's \<Rightarrow> 's \<Rightarrow> bool" for f where
  repeats_refl: "repeats f s s"
| repeats_step: "f s = Done s1 \<Longrightarrow> repeats f s1 s2 \<Longrightarrow> repeats f s s2"

lemma repeats_trans: "repeats f s s1 \<Longrightarrow> repeats f s1 s2 \<Longrightarrow> repeats f s s2"
  by (induction rule: repeats.induct) (auto intro: repeats_step)

lemma repeats_snoc: "repeats f s s1 \<Longrightarrow> f s1 = Done s2 \<Longrightarrow> repeats f s s2"
  by (blast intro: repeats_trans repeats_step repeats_refl)

lemma replicate_steps: "replicate (numeral k) x = x # replicate (pred_numeral k) x"
  by (simp add: numeral_eq_Suc)

section \<open>The contract of a bounded buffer\<close>

definition last_n :: "nat \<Rightarrow> 'a list \<Rightarrow> 'a list" where
  "last_n n xs = drop (length xs - n) xs"

lemma length_last_n [simp]: "length (last_n n xs) = min n (length xs)"
  by (simp add: last_n_def)

lemma last_n_all [simp]: "length xs \<le> n \<Longrightarrow> last_n n xs = xs"
  by (simp add: last_n_def)

lemma last_n_append_last_n: "last_n n (last_n n xs @ ys) = last_n n (xs @ ys)"
  by (cases "length xs \<le> n") (simp_all add: last_n_def add.commute)

lemma last_n_skip: "length ys = n \<Longrightarrow> last_n n (xs @ ys) = ys"
  by (simp add: last_n_def)

lemma last_n_append_short: "length ys \<le> n \<Longrightarrow> last_n n (xs @ ys) = last_n (n - length ys) xs @ ys"
  by (simp add: last_n_def)

lemma last_n_append_long: "n \<le> length ys \<Longrightarrow> last_n n (xs @ ys) = last_n n ys"
  by (simp add: last_n_def)

text \<open>Both buffers cut a write that is larger than the ring down to its newest elements.\<close>

definition clip :: "u32 \<Rightarrow> 'a list \<Rightarrow> u32 \<Rightarrow> 'a list \<times> u32" where
  "clip cap src n = (if n > cap then (drop (unat (n - cap)) src, cap) else (src, n))"

lemma clip_spec:
  assumes "clip cap src n = (src', m)" and "unat n \<le> length src"
  shows "unat m = min (unat n) (unat cap)" and "unat m \<le> length src'"
    and "last_n (unat cap - unat m) xs @ take (unat m) src' = last_n (unat cap) (xs @ take (unat n) src)"
proof -
  have "unat m = min (unat n) (unat cap) \<and> unat m \<le> length src' \<and>
      last_n (unat cap - unat m) xs @ take (unat m) src' = last_n (unat cap) (xs @ take (unat n) src)"
  proof (cases "n > cap")
    case True
    then have gt: "unat cap < unat n"
      by (simp add: word_less_nat_alt)
    then have "unat (n - cap) = unat n - unat cap"
      by (simp add: unat_minus_no_wrap)
    then have "src' = drop (unat n - unat cap) src" "m = cap"
      using True assms(1) by (auto simp: clip_def)
    then show ?thesis
      using gt assms(2) by (simp add: last_n_append_long) (auto simp: last_n_def min_def drop_take)
  next
    case False
    then have "unat n \<le> unat cap" "src' = src" "m = n"
      using assms(1) by (auto simp: clip_def word_less_nat_alt)
    then show ?thesis
      using assms(2) by (simp add: last_n_append_short)
  qed
  then show "unat m = min (unat n) (unat cap)" "unat m \<le> length src'"
    "last_n (unat cap - unat m) xs @ take (unat m) src' = last_n (unat cap) (xs @ take (unat n) src)"
    by blast+
qed

text \<open>
  A buffer that keeps the newest elements: \<open>content\<close> is what it holds, oldest first; \<open>push\<close> appends and
  drops from the front what exceeds the capacity; \<open>pop\<close> takes from the front. The \<open>shape\<close> of a buffer
  never changes and decides its capacity and which inputs and requests it can take.
\<close>

datatype 'a buf_op = Push "'a list" | Pop nat

fun run_ops :: "('a list \<Rightarrow> 'r \<Rightarrow> 'r outcome) \<Rightarrow> (nat \<Rightarrow> 'r \<Rightarrow> ('a list \<times> 'r) outcome)
    \<Rightarrow> 'a buf_op list \<Rightarrow> 'r \<Rightarrow> ('a list \<times> 'r) outcome" where
  "run_ops push pop [] r = Done ([], r)"
| "run_ops push pop (Push xs # ops) r = and_then (push xs r) (\<lambda>r. run_ops push pop ops r)"
| "run_ops push pop (Pop n # ops) r =
     and_then (pop n r) (\<lambda>(xs, r). and_then (run_ops push pop ops r) (\<lambda>(out, r). Done (xs @ out, r)))"

definition pushed :: "'a buf_op list \<Rightarrow> 'a list" where
  "pushed ops = concat (map (\<lambda>op. case op of Push xs \<Rightarrow> xs | Pop n \<Rightarrow> []) ops)"

lemma pushed_simps [simp]:
  "pushed [] = []" "pushed (Push xs # ops) = xs @ pushed ops" "pushed (Pop n # ops) = pushed ops"
  by (simp_all add: pushed_def)

lemma subseq_last_n: "subseq (last_n n xs) xs"
  by (metis append_take_drop_id last_n_def list_emb_append2 subseq_order.order_refl)

locale bounded_fifo =
  fixes ok :: "'r \<Rightarrow> bool" and content :: "'r \<Rightarrow> 'a list" and shape :: "'r \<Rightarrow> 's" and cap :: "'s \<Rightarrow> nat"
    and pushable :: "'s \<Rightarrow> 'a list \<Rightarrow> bool" and push :: "'a list \<Rightarrow> 'r \<Rightarrow> 'r outcome"
    and poppable :: "'s \<Rightarrow> nat \<Rightarrow> bool" and pop :: "nat \<Rightarrow> 'r \<Rightarrow> ('a list \<times> 'r) outcome"
  assumes push_law: "ok r \<Longrightarrow> pushable (shape r) xs \<Longrightarrow>
      \<exists>r'. push xs r = Done r' \<and> ok r' \<and> shape r' = shape r \<and> content r' = last_n (cap (shape r)) (content r @ xs)"
    and pop_law: "ok r \<Longrightarrow> poppable (shape r) n \<Longrightarrow>
      \<exists>r'. pop n r = Done (take n (content r), r') \<and> ok r' \<and> shape r' = shape r \<and> content r' = drop n (content r)"
begin

definition admissible :: "'s \<Rightarrow> 'a buf_op list \<Rightarrow> bool" where
  "admissible s ops \<longleftrightarrow> (\<forall>op\<in>set ops. case op of Push xs \<Rightarrow> pushable s xs | Pop n \<Rightarrow> poppable s n)"

text \<open>
  Whatever is done to the buffer, what came out and what is still in it is a subsequence of what went
  in, in order; and it is all of it as long as the capacity is never exceeded.
\<close>

lemma run_ops_order:
  "ok r \<Longrightarrow> admissible (shape r) ops \<Longrightarrow>
     \<exists>out r'. run_ops push pop ops r = Done (out, r') \<and> ok r' \<and> shape r' = shape r \<and>
       subseq (out @ content r') (content r @ pushed ops) \<and>
       (length (content r @ pushed ops) \<le> cap (shape r) \<longrightarrow> out @ content r' = content r @ pushed ops)"
proof (induction ops arbitrary: r)
  case Nil
  then show ?case by simp
next
  case (Cons op ops)
  show ?case
  proof (cases op)
    case (Push xs)
    then obtain r1 where r1: "push xs r = Done r1" "ok r1" "shape r1 = shape r"
      "content r1 = last_n (cap (shape r)) (content r @ xs)"
      using push_law [OF Cons.prems(1), of xs] Cons.prems(2) by (auto simp: admissible_def)
    have "admissible (shape r1) ops"
      using Cons.prems(2) r1(3) by (simp add: admissible_def)
    from Cons.IH [OF r1(2) this] obtain out r' where
      run: "run_ops push pop ops r1 = Done (out, r')" "ok r'" "shape r' = shape r"
      and sub: "subseq (out @ content r') (content r1 @ pushed ops)"
      and all: "length (content r1 @ pushed ops) \<le> cap (shape r) \<longrightarrow> out @ content r' = content r1 @ pushed ops"
      using r1(3) by auto
    have "subseq (content r1 @ pushed ops) ((content r @ xs) @ pushed ops)"
      unfolding r1(4) by (simp only: subseq_append subseq_last_n)
    with sub have "subseq (out @ content r') (content r @ pushed (op # ops))"
      using Push by (simp add: subseq_order.order_trans)
    with run all r1 Push show ?thesis by auto
  next
    case (Pop n)
    then obtain r1 where r1: "pop n r = Done (take n (content r), r1)" "ok r1" "shape r1 = shape r"
      "content r1 = drop n (content r)"
      using pop_law [OF Cons.prems(1), of n] Cons.prems(2) by (auto simp: admissible_def)
    have "admissible (shape r1) ops"
      using Cons.prems(2) r1(3) by (simp add: admissible_def)
    from Cons.IH [OF r1(2) this] obtain out r' where
      run: "run_ops push pop ops r1 = Done (out, r')" "ok r'" "shape r' = shape r"
      and sub: "subseq (out @ content r') (drop n (content r) @ pushed ops)"
      and all: "length (drop n (content r) @ pushed ops) \<le> cap (shape r) \<longrightarrow>
         out @ content r' = drop n (content r) @ pushed ops"
      using r1(3,4) by auto
    have whole: "take n (content r) @ (drop n (content r) @ pushed ops) = content r @ pushed ops"
      by (metis append.assoc append_take_drop_id)
    have "subseq (take n (content r) @ (out @ content r')) (take n (content r) @ (drop n (content r) @ pushed ops))"
      using sub by (simp only: subseq_append')
    then have "subseq ((take n (content r) @ out) @ content r') (content r @ pushed ops)"
      by (simp only: whole append.assoc)
    moreover have "(take n (content r) @ out) @ content r' = content r @ pushed ops"
      if "length (content r @ pushed ops) \<le> cap (shape r)"
      using all that whole by simp
    ultimately show ?thesis
      using run r1 Pop by simp
  qed
qed

end

end
