(* ===== verification/RingBuffer.thy ===== *)
theory RingBuffer
  imports Ring
begin

text \<open>
  \<open>RingBuffer\<close> of \<open>ring_buffer.h\<close> and \<open>ring_buffer.cpp\<close>: the outbound audio ring, which drops its oldest
  samples when it is full. Positions and counts are \<open>uint32_t\<close> and wrap; a modulo by a zero capacity is
  a fault. A method is one step here (\<open>RingThreads\<close> cuts it into steps). The lemmas
  give the invariant and what each operation does to the sequence of buffered samples, and interpret
  the contract \<open>bounded_fifo\<close>.
\<close>

section \<open>Definitions\<close>

record RingBuffer =
  rb_data :: "sample list"
  rb_capacity_floats :: u32
  rb_capacity_frames :: u32
  rb_channels :: u32
  rb_write_pos :: u32
  rb_read_pos :: u32
  rb_buffered :: u32

definition new_RingBuffer :: "u32 \<Rightarrow> u32 \<Rightarrow> RingBuffer" where
  "new_RingBuffer capacity_frames channels =
     \<lparr>rb_data = replicate (unat (capacity_frames * channels)) 0,
      rb_capacity_floats = capacity_frames * channels, rb_capacity_frames = capacity_frames,
      rb_channels = channels, rb_write_pos = 0, rb_read_pos = 0, rb_buffered = 0\<rparr>"

text \<open>If the ring would overflow, the read position is moved forward past the oldest samples.\<close>

definition rb_make_room :: "u32 \<Rightarrow> RingBuffer \<Rightarrow> RingBuffer outcome" where
  "rb_make_room floats r =
     (let buf = rb_buffered r in
      if buf + floats > rb_capacity_floats r then
        let excess = (buf + floats) - rb_capacity_floats r; rp = rb_read_pos r in
        and_then (u32_mod (rp + excess) (rb_capacity_floats r)) (\<lambda>rp.
          Done (r\<lparr>rb_read_pos := rp, rb_buffered := rb_buffered r - excess\<rparr>))
      else Done r)"

text \<open>\<open>samples\<close> is the memory from the pointer on; moving the pointer forward drops elements.\<close>

definition rb_write :: "sample list \<Rightarrow> u32 \<Rightarrow> RingBuffer \<Rightarrow> (RingBuffer \<times> u32) outcome" where
  "rb_write samples frame_count r =
     (if frame_count = 0 then Done (r, 0)
      else
        let floats = frame_count * rb_channels r;
            (samples, floats, frame_count) =
              (if floats > rb_capacity_floats r then
                 (drop (unat (floats - rb_capacity_floats r)) samples, rb_capacity_floats r, rb_capacity_frames r)
               else (samples, floats, frame_count)) in
        and_then (rb_make_room floats r) (\<lambda>r.
          let wp = rb_write_pos r in
          and_then (copy_to_ring (rb_capacity_floats r) (rb_data r) wp samples floats) (\<lambda>data.
          and_then (u32_mod (wp + floats) (rb_capacity_floats r)) (\<lambda>wp.
            Done (r\<lparr>rb_data := data, rb_write_pos := wp, rb_buffered := rb_buffered r + floats\<rparr>,
                  frame_count)))))"

definition rb_write_available :: "RingBuffer \<Rightarrow> u32 outcome" where
  "rb_write_available r = u32_div (rb_capacity_floats r - rb_buffered r) (rb_channels r)"

text \<open>The samples stored at the destination, the number of frames returned and the buffer.\<close>

definition rb_read :: "u32 \<Rightarrow> RingBuffer \<Rightarrow> (sample list \<times> u32 \<times> RingBuffer) outcome" where
  "rb_read frame_count r =
     (if frame_count = 0 then Done ([], 0, r)
      else
        let floats_requested = frame_count * rb_channels r;
            buf = rb_buffered r;
            floats_to_read = min floats_requested buf in
        if floats_to_read = 0 then Done ([], 0, r)
        else
          let rp = rb_read_pos r in
          and_then (copy_from_ring (rb_capacity_floats r) (rb_data r) rp floats_to_read) (\<lambda>buffer.
          and_then (u32_mod (rp + floats_to_read) (rb_capacity_floats r)) (\<lambda>rp.
          and_then (u32_div floats_to_read (rb_channels r)) (\<lambda>n.
            Done (buffer, n, r\<lparr>rb_read_pos := rp, rb_buffered := rb_buffered r - floats_to_read\<rparr>)))))"

definition rb_read_available :: "RingBuffer \<Rightarrow> u32 outcome" where
  "rb_read_available r = u32_div (rb_buffered r) (rb_channels r)"

definition rb_flush :: "RingBuffer \<Rightarrow> RingBuffer" where
  "rb_flush r = r\<lparr>rb_read_pos := rb_write_pos r, rb_buffered := 0\<rparr>"

section \<open>Invariant\<close>

text \<open>
  Positions inside the ring, the write position a fill level behind the read position, and a capacity
  of less than \<open>2^31\<close> floats, so that the sum of a position and a count does not wrap.
\<close>

definition rb_ok :: "RingBuffer \<Rightarrow> bool" where
  "rb_ok r \<longleftrightarrow>
     length (rb_data r) = unat (rb_capacity_floats r) \<and> 0 < unat (rb_capacity_floats r) \<and>
     unat (rb_capacity_floats r) < 2147483648 \<and>
     unat (rb_capacity_frames r) * unat (rb_channels r) = unat (rb_capacity_floats r) \<and>
     unat (rb_read_pos r) < unat (rb_capacity_floats r) \<and> unat (rb_buffered r) \<le> unat (rb_capacity_floats r) \<and>
     unat (rb_write_pos r) = (unat (rb_read_pos r) + unat (rb_buffered r)) mod unat (rb_capacity_floats r) \<and>
     unat (rb_channels r) dvd unat (rb_buffered r)"

definition rb_content :: "RingBuffer \<Rightarrow> sample list" where
  "rb_content r = ring_seq (rb_data r) (unat (rb_read_pos r)) (unat (rb_buffered r))"

text \<open>Capacity and channels, which no operation changes.\<close>

definition rb_shape :: "RingBuffer \<Rightarrow> u32 \<times> u32" where
  "rb_shape r = (rb_capacity_frames r, rb_channels r)"

definition shape_cap :: "u32 \<times> u32 \<Rightarrow> nat" where
  "shape_cap s = unat (fst s) * unat (snd s)"

lemma rb_ok_new:
  assumes "0 < unat frames * unat channels" and "unat frames * unat channels < 2147483648"
  shows "rb_ok (new_RingBuffer frames channels)" and "rb_content (new_RingBuffer frames channels) = []"
    and "rb_shape (new_RingBuffer frames channels) = (frames, channels)"
  using assms unat_mult_no_wrap [of frames channels]
  by (simp_all add: rb_ok_def new_RingBuffer_def rb_content_def rb_shape_def)

lemma rb_ok_flush:
  assumes "rb_ok r"
  shows "rb_ok (rb_flush r)" and "rb_content (rb_flush r) = []" and "rb_shape (rb_flush r) = rb_shape r"
proof -
  note ok = assms [unfolded rb_ok_def]
  then have "unat (rb_write_pos r) < unat (rb_capacity_floats r)"
    by (metis mod_less_divisor)
  with ok show "rb_ok (rb_flush r)"
    by (auto simp: rb_ok_def rb_flush_def intro: gr0I)
qed (simp_all add: rb_flush_def rb_content_def rb_shape_def)

lemma length_rb_content [simp]: "length (rb_content r) = unat (rb_buffered r)"
  by (simp add: rb_content_def)

section \<open>Reading\<close>

text \<open>The floats and frames a read of \<open>n\<close> frames takes.\<close>

lemma rb_ok_channels: "rb_ok r \<Longrightarrow> 0 < unat (rb_channels r)"
  by (auto simp: rb_ok_def intro: gr0I)

lemma floats_to_read:
  assumes "unat n * unat (rb_channels r) < 4294967296"
  shows "unat (min (n * rb_channels r) (rb_buffered r)) = min (unat n * unat (rb_channels r)) (unat (rb_buffered r))"
  using unat_mult_no_wrap [OF assms] by (simp add: min_def word_le_nat_alt)

lemma frames_to_read:
  assumes "rb_ok r" and "unat n * unat (rb_channels r) < 4294967296"
  shows "min (n * rb_channels r) (rb_buffered r) div rb_channels r
    = of_nat (min (unat n) (unat (rb_buffered r) div unat (rb_channels r)))"
proof -
  let ?ch = "rb_channels r" and ?k = "min (n * rb_channels r) (rb_buffered r)"
  obtain m where m: "unat (rb_buffered r) = unat ?ch * m"
    using assms(1) by (auto simp: rb_ok_def elim: dvdE)
  have "unat ?k = min (unat n) m * unat ?ch"
    unfolding floats_to_read [OF assms(2)] m using rb_ok_channels [OF assms(1)] by (simp add: min_def mult.commute)
  then have "unat (?k div ?ch) = min (unat n) (unat (rb_buffered r) div unat ?ch)"
    using rb_ok_channels [OF assms(1)] by (simp add: unat_div_distrib m)
  then have "of_nat (unat (?k div ?ch)) = (of_nat (min (unat n) (unat (rb_buffered r) div unat ?ch)) :: u32)"
    by (simp only:)
  then show ?thesis by simp
qed

text \<open>Taking \<open>k\<close> floats from the front.\<close>

lemma rb_take:
  assumes "rb_ok r" and "unat k \<le> unat (rb_buffered r)" and "unat (rb_channels r) dvd unat k"
  defines "r' \<equiv> r\<lparr>rb_read_pos := (rb_read_pos r + k) mod rb_capacity_floats r, rb_buffered := rb_buffered r - k\<rparr>"
  shows "copy_from_ring (rb_capacity_floats r) (rb_data r) (rb_read_pos r) k = Done (take (unat k) (rb_content r))"
    and "rb_ok r'" and "rb_content r' = drop (unat k) (rb_content r)"
proof -
  note ok = assms(1) [unfolded rb_ok_def]
  let ?cap = "rb_capacity_floats r"
  have "copy_from_ring ?cap (rb_data r) (rb_read_pos r) k = Done (ring_seq (rb_data r) (unat (rb_read_pos r)) (unat k))"
    using ok assms(2) by (intro copy_from_ring_eq) (simp_all add: word_less_nat_alt word_le_nat_alt)
  then show "copy_from_ring ?cap (rb_data r) (rb_read_pos r) k = Done (take (unat k) (rb_content r))"
    using assms(2) by (simp add: rb_content_def take_ring_seq)
  have s: "unat (rb_read_pos r) + unat k < 4294967296"
    using ok assms(2) by (elim conjE) linarith
  have rp: "unat ((rb_read_pos r + k) mod ?cap) = (unat (rb_read_pos r) + unat k) mod unat ?cap"
    unfolding unat_mod_word unat_plus_no_wrap [OF s] ..
  have b: "unat (rb_buffered r - k) = unat (rb_buffered r) - unat k"
    by (rule unat_minus_no_wrap [OF assms(2)])
  have sum: "unat (rb_read_pos r) + unat k + (unat (rb_buffered r) - unat k) = unat (rb_read_pos r) + unat (rb_buffered r)"
    using assms(2) by simp
  have dvd: "unat (rb_channels r) dvd unat (rb_buffered r) - unat k"
    using ok assms(3) by (auto intro: dvd_diff_nat)
  have le: "unat (rb_buffered r) - unat k \<le> unat ?cap"
    using ok by (elim conjE) linarith
  show "rb_ok r'"
    using ok dvd le by (simp add: r'_def rb_ok_def rp b mod_add_left_eq sum)
  show "rb_content r' = drop (unat k) (rb_content r)"
    using ok by (simp add: r'_def rb_content_def rp b ring_seq_mod drop_ring_seq)
qed

lemma rb_read_spec:
  assumes "rb_ok r" and "unat n * unat (rb_channels r) < 4294967296"
  shows "\<exists>r'. rb_read n r = Done (take (unat n * unat (rb_channels r)) (rb_content r),
        of_nat (min (unat n) (unat (rb_buffered r) div unat (rb_channels r))), r')
      \<and> rb_ok r' \<and> rb_shape r' = rb_shape r
      \<and> rb_content r' = drop (unat n * unat (rb_channels r)) (rb_content r)"
proof -
  let ?ch = "rb_channels r" and ?k = "min (n * rb_channels r) (rb_buffered r)"
  note k = floats_to_read [OF assms(2)] and frames = frames_to_read [OF assms]
  have pos: "0 < unat (rb_capacity_floats r)" "unat ?ch dvd unat (rb_buffered r)"
    using assms(1) by (simp_all add: rb_ok_def)
  have cut: "take (unat ?k) (rb_content r) = take (unat n * unat ?ch) (rb_content r)"
    "drop (unat ?k) (rb_content r) = drop (unat n * unat ?ch) (rb_content r)"
    unfolding k by (auto simp: min_def)
  show ?thesis
  proof (cases "?k = 0")
    case True
    then show ?thesis
      using frames cut assms(1) by (auto simp: rb_read_def Let_def)
  next
    case False
    then have "n \<noteq> 0" by auto
    have le: "unat ?k \<le> unat (rb_buffered r)"
      by (simp add: k)
    have "unat ?ch dvd unat ?k"
      unfolding k using pos(2) by (simp add: min_def)
    note t = rb_take [OF assms(1) le this]
    have "rb_read n r = Done (take (unat ?k) (rb_content r), ?k div ?ch,
        r\<lparr>rb_read_pos := (rb_read_pos r + ?k) mod rb_capacity_floats r, rb_buffered := rb_buffered r - ?k\<rparr>)"
      using \<open>n \<noteq> 0\<close> False pos(1) rb_ok_channels [OF assms(1)] by (simp add: rb_read_def Let_def t(1) u32_mod_Done u32_div_Done)
    then show ?thesis
      using t(2,3) frames cut by (simp add: rb_shape_def)
  qed
qed

section \<open>Writing\<close>

text \<open>The state after room has been made by moving the read position forward.\<close>

lemma rb_make_room_spec:
  assumes "rb_ok r" and "unat floats \<le> unat (rb_capacity_floats r)" and "unat (rb_channels r) dvd unat floats"
  obtains r1 where "rb_make_room floats r = Done r1"
    and "rb_ok r1" and "rb_data r1 = rb_data r" and "rb_capacity_floats r1 = rb_capacity_floats r"
    and "rb_write_pos r1 = rb_write_pos r" and "rb_shape r1 = rb_shape r"
    and "unat (rb_buffered r1) + unat floats \<le> unat (rb_capacity_floats r)"
    and "rb_content r1 = last_n (unat (rb_capacity_floats r) - unat floats) (rb_content r)"
proof (cases "rb_buffered r + floats > rb_capacity_floats r")
  case False
  note ok = assms(1) [unfolded rb_ok_def]
  have "unat (rb_buffered r + floats) = unat (rb_buffered r) + unat floats"
    using ok assms(2) by (intro unat_plus_no_wrap) simp
  then have "unat (rb_buffered r) + unat floats \<le> unat (rb_capacity_floats r)"
    using False by (simp add: word_less_nat_alt)
  with False assms(1) that [of r] show thesis by (simp add: rb_make_room_def)
next
  case True
  note ok = assms(1) [unfolded rb_ok_def]
  let ?cap = "rb_capacity_floats r"
  let ?e = "(rb_buffered r + floats) - ?cap"
  define rp' where "rp' = (rb_read_pos r + ?e) mod ?cap"
  define b' where "b' = rb_buffered r - ?e"
  let ?r1 = "r\<lparr>rb_read_pos := rp', rb_buffered := b'\<rparr>"
  let ?x = "unat (rb_buffered r) + unat floats - unat ?cap"
  have sum: "unat (rb_buffered r + floats) = unat (rb_buffered r) + unat floats"
    using ok assms(2) by (intro unat_plus_no_wrap) simp
  have gt: "unat ?cap < unat (rb_buffered r) + unat floats"
    using True sum by (simp add: word_less_nat_alt)
  have e: "unat ?e = unat (rb_buffered r) + unat floats - unat ?cap"
    using gt sum by (simp add: unat_minus_no_wrap)
  have e_le: "unat ?e \<le> unat (rb_buffered r)"
    using e assms(2) by simp
  have rp: "unat rp' = (unat (rb_read_pos r) + ?x) mod unat ?cap"
    using ok e_le unfolding rp'_def unat_mod_word by (subst unat_plus_no_wrap) (simp_all add: e)
  have b: "unat b' = unat ?cap - unat floats"
    unfolding b'_def unat_minus_no_wrap [OF e_le] e using gt assms(2) by simp
  have "unat (rb_channels r) dvd unat ?cap"
    using ok by (metis dvd_triv_right)
  then have dvd: "unat (rb_channels r) dvd unat b'"
    using assms(3) by (simp add: b dvd_diff_nat)
  have pos: "0 < unat ?cap"
    using ok by simp
  have wp: "unat (rb_read_pos r) + ?x + unat b' = unat (rb_read_pos r) + unat (rb_buffered r)"
    using b gt assms(2) by simp
  have "rb_ok ?r1"
    using ok dvd pos by (simp add: rb_ok_def rp mod_add_left_eq wp) (simp add: b)
  moreover have "rb_content ?r1 = last_n (unat ?cap - unat floats) (rb_content r)"
    using ok gt assms(2) by (simp add: rb_content_def rp b ring_seq_mod drop_ring_seq last_n_def)
  moreover have "unat (rb_buffered ?r1) + unat floats \<le> unat ?cap"
    using assms(2) by (simp add: b)
  ultimately show thesis
    using that [of ?r1] True pos by (simp add: rb_make_room_def Let_def u32_mod_Done rb_shape_def rp'_def b'_def)
qed

lemma rb_store:
  assumes "rb_ok r" and "unat (rb_buffered r) + unat floats \<le> unat (rb_capacity_floats r)"
    and "unat (rb_channels r) dvd unat floats" and "unat floats \<le> length samples"
  obtains data where "copy_to_ring (rb_capacity_floats r) (rb_data r) (rb_write_pos r) samples floats = Done data"
    and "u32_mod (rb_write_pos r + floats) (rb_capacity_floats r)
      = Done ((rb_write_pos r + floats) mod rb_capacity_floats r)"
    and "rb_ok (r\<lparr>rb_data := data, rb_write_pos := (rb_write_pos r + floats) mod rb_capacity_floats r,
      rb_buffered := rb_buffered r + floats\<rparr>)"
    and "rb_content (r\<lparr>rb_data := data, rb_write_pos := (rb_write_pos r + floats) mod rb_capacity_floats r,
      rb_buffered := rb_buffered r + floats\<rparr>) = rb_content r @ take (unat floats) samples"
proof -
  note ok = assms(1) [unfolded rb_ok_def]
  let ?cap = "rb_capacity_floats r"
  have pos: "0 < unat ?cap"
    using ok by simp
  have max: "unat ?cap < 2147483648"
    using ok by simp
  have wp: "unat (rb_write_pos r) < unat ?cap"
    using ok by (metis mod_less_divisor)
  have "rb_write_pos r < ?cap" and "floats \<le> ?cap"
    using wp assms(2) by (simp_all add: word_less_nat_alt word_le_nat_alt)
  then obtain data where data: "copy_to_ring ?cap (rb_data r) (rb_write_pos r) samples floats = Done data"
    "length data = length (rb_data r)"
    "\<And>d. d < unat ?cap \<Longrightarrow> data ! ((unat (rb_write_pos r) + d) mod unat ?cap) =
       (if d < unat floats then samples ! d else rb_data r ! ((unat (rb_write_pos r) + d) mod unat ?cap))"
    using copy_to_ring_eq [of "rb_data r" ?cap "rb_write_pos r" floats samples] ok assms(4) by blast
  have b: "unat (rb_buffered r + floats) = unat (rb_buffered r) + unat floats"
    using ok assms(2) by (intro unat_plus_no_wrap) simp
  have w: "unat ((rb_write_pos r + floats) mod ?cap) = (unat (rb_read_pos r) + unat (rb_buffered r + floats)) mod unat ?cap"
  proof -
    have "unat (rb_write_pos r + floats) = unat (rb_write_pos r) + unat floats"
      using max assms(2) wp by (intro unat_plus_no_wrap) linarith
    then have "unat ((rb_write_pos r + floats) mod ?cap)
        = ((unat (rb_read_pos r) + unat (rb_buffered r)) mod unat ?cap + unat floats) mod unat ?cap"
      using ok by (simp only: unat_mod_word)
    then show ?thesis
      by (simp only: mod_add_left_eq b add.assoc)
  qed
  let ?r = "r\<lparr>rb_data := data, rb_write_pos := (rb_write_pos r + floats) mod ?cap,
      rb_buffered := rb_buffered r + floats\<rparr>"
  have "rb_ok ?r"
    using ok assms(2,3) data(2) pos w by (simp add: rb_ok_def b)
  moreover have "rb_content ?r = rb_content r @ take (unat floats) samples"
  proof -
    have "ring_seq data (unat (rb_read_pos r)) (unat (rb_buffered r) + length (take (unat floats) samples))
        = ring_seq (rb_data r) (unat (rb_read_pos r)) (unat (rb_buffered r)) @ take (unat floats) samples"
    proof (rule ring_seq_store)
      fix d
      assume "d < length (rb_data r)"
      then have d: "d < unat ?cap"
        using ok by simp
      have "(unat (rb_write_pos r) + d) mod unat ?cap = (unat (rb_read_pos r) + unat (rb_buffered r) + d) mod length (rb_data r)"
        using ok by (metis mod_add_left_eq)
      then show "data ! ((unat (rb_read_pos r) + unat (rb_buffered r) + d) mod length (rb_data r)) =
          (if d < length (take (unat floats) samples) then take (unat floats) samples ! d
           else rb_data r ! ((unat (rb_read_pos r) + unat (rb_buffered r) + d) mod length (rb_data r)))"
        using data(3) [OF d] assms(4) by simp
    qed (use ok data(2) pos assms(2,4) in simp_all)
    then show ?thesis
      using assms(4) by (simp add: rb_content_def b)
  qed
  ultimately show thesis
    using that data(1) pos by (simp add: u32_mod_Done)
qed

lemma rb_write_spec:
  assumes "rb_ok r" and "unat n * unat (rb_channels r) < 4294967296"
    and "unat n * unat (rb_channels r) \<le> length samples"
  shows "\<exists>r'. rb_write samples n r = Done (r', if unat n * unat (rb_channels r) > unat (rb_capacity_floats r)
          then rb_capacity_frames r else n)
      \<and> rb_ok r' \<and> rb_shape r' = rb_shape r
      \<and> rb_content r' = last_n (unat (rb_capacity_floats r)) (rb_content r @ take (unat n * unat (rb_channels r)) samples)"
proof (cases "n = 0")
  case True
  have "length (rb_content r) \<le> unat (rb_capacity_floats r)"
    using assms(1) by (simp add: rb_ok_def)
  with True assms(1) show ?thesis by (simp add: rb_write_def)
next
  case False
  note ok = assms(1) [unfolded rb_ok_def]
  let ?cap = "rb_capacity_floats r" and ?ch = "rb_channels r"
  define ret where "ret = (if n * ?ch > ?cap then rb_capacity_frames r else n)"
  obtain src fl where clip: "clip ?cap samples (n * ?ch) = (src, fl)"
    by fastforce
  have nf: "unat (n * ?ch) = unat n * unat ?ch"
    by (rule unat_mult_no_wrap) (rule assms(2))
  note c = clip_spec [OF clip, unfolded nf, OF assms(3)]
  have ret: "ret = (if unat n * unat ?ch > unat ?cap then rb_capacity_frames r else n)"
    by (simp add: ret_def word_less_nat_alt nf)
  have chd: "unat ?ch dvd unat fl"
    using ok by (auto simp: c(1) min_def) (metis dvd_triv_right)
  have "unat fl \<le> unat ?cap"
    by (simp add: c(1))
  then obtain r1 where r1: "rb_make_room fl r = Done r1" "rb_ok r1" "rb_data r1 = rb_data r"
    "rb_capacity_floats r1 = ?cap" "rb_write_pos r1 = rb_write_pos r" "rb_shape r1 = rb_shape r"
    "unat (rb_buffered r1) + unat fl \<le> unat ?cap"
    "rb_content r1 = last_n (unat ?cap - unat fl) (rb_content r)"
    using rb_make_room_spec [OF assms(1) _ chd] by blast
  have ch1: "rb_channels r1 = ?ch"
    using r1(6) by (simp add: rb_shape_def)
  obtain data where d: "copy_to_ring ?cap (rb_data r1) (rb_write_pos r1) src fl = Done data"
    "u32_mod (rb_write_pos r1 + fl) ?cap = Done ((rb_write_pos r1 + fl) mod ?cap)"
    and r': "rb_ok (r1\<lparr>rb_data := data, rb_write_pos := (rb_write_pos r1 + fl) mod ?cap,
      rb_buffered := rb_buffered r1 + fl\<rparr>)"
      "rb_content (r1\<lparr>rb_data := data, rb_write_pos := (rb_write_pos r1 + fl) mod ?cap,
      rb_buffered := rb_buffered r1 + fl\<rparr>) = rb_content r1 @ take (unat fl) src"
    using rb_store [OF r1(2), of fl src] r1(4,7) chd ch1 c(2) by metis
  have "rb_write samples n r = and_then (rb_make_room fl r) (\<lambda>r.
          let wp = rb_write_pos r in
          and_then (copy_to_ring (rb_capacity_floats r) (rb_data r) wp src fl) (\<lambda>data.
          and_then (u32_mod (wp + fl) (rb_capacity_floats r)) (\<lambda>wp.
            Done (r\<lparr>rb_data := data, rb_write_pos := wp, rb_buffered := rb_buffered r + fl\<rparr>, ret))))"
    using False clip by (auto simp: rb_write_def ret_def clip_def Let_def split: if_splits)
  then show ?thesis
    using r' r1(1,4,6,8) d c(3) by (simp add: ret Let_def rb_shape_def)
qed

section \<open>The contract\<close>

text \<open>A whole block of frames pushed, and a number of frames popped.\<close>

definition rb_push :: "sample list \<Rightarrow> RingBuffer \<Rightarrow> RingBuffer outcome" where
  "rb_push xs r = and_then (rb_write xs (of_nat (length xs div unat (rb_channels r))) r) (\<lambda>(r, n). Done r)"

definition rb_pop :: "nat \<Rightarrow> RingBuffer \<Rightarrow> (sample list \<times> RingBuffer) outcome" where
  "rb_pop floats r = and_then (rb_read (of_nat (floats div unat (rb_channels r))) r) (\<lambda>(xs, n, r). Done (xs, r))"

definition whole_frames :: "u32 \<times> u32 \<Rightarrow> nat \<Rightarrow> bool" where
  "whole_frames s k \<longleftrightarrow> unat (snd s) dvd k \<and> k < 4294967296"

lemma whole_frames_count:
  assumes "rb_ok r" and "whole_frames (rb_shape r) k"
  shows "unat (of_nat (k div unat (rb_channels r)) :: u32) * unat (rb_channels r) = k"
proof -
  have "k div unat (rb_channels r) < 2 ^ 32"
    using assms(2) le_less_trans [OF div_le_dividend [of k "unat (rb_channels r)"]]
    by (simp add: whole_frames_def)
  then have "unat (of_nat (k div unat (rb_channels r)) :: u32) = k div unat (rb_channels r)"
    by (simp add: unsigned_of_nat take_bit_nat_eq_self)
  then show ?thesis
    using assms(2) by (simp add: whole_frames_def rb_shape_def)
qed

interpretation audio_ring: bounded_fifo rb_ok rb_content rb_shape shape_cap
  "\<lambda>s xs. whole_frames s (length xs)" rb_push whole_frames rb_pop
proof unfold_locales
  fix r :: RingBuffer and xs :: "sample list"
  assume ok: "rb_ok r" and wf: "whole_frames (rb_shape r) (length xs)"
  have cap: "shape_cap (rb_shape r) = unat (rb_capacity_floats r)"
    using ok by (simp add: shape_cap_def rb_shape_def rb_ok_def)
  show "\<exists>r'. rb_push xs r = Done r' \<and> rb_ok r' \<and> rb_shape r' = rb_shape r \<and>
      rb_content r' = last_n (shape_cap (rb_shape r)) (rb_content r @ xs)"
    using rb_write_spec [OF ok, of "of_nat (length xs div unat (rb_channels r))" xs] wf
    unfolding whole_frames_count [OF ok wf] cap by (auto simp: rb_push_def whole_frames_def)
next
  fix r :: RingBuffer and k :: nat
  assume ok: "rb_ok r" and wf: "whole_frames (rb_shape r) k"
  show "\<exists>r'. rb_pop k r = Done (take k (rb_content r), r') \<and> rb_ok r' \<and> rb_shape r' = rb_shape r \<and>
      rb_content r' = drop k (rb_content r)"
    using rb_read_spec [OF ok, of "of_nat (k div unat (rb_channels r))"] wf
    unfolding whole_frames_count [OF ok wf] by (auto simp: rb_pop_def whole_frames_def)
qed

section \<open>Properties\<close>

text \<open>C21: writing appends the frames and drops the oldest samples that no longer fit (also when the block
  alone exceeds the ring), reading takes the oldest whole frames available; both stay inside the ring,
  keep its invariant and report the number of frames.\<close>

theorem ring_buffer_refines_queue:
  assumes "rb_ok r" and "unat n * unat (rb_channels r) < 4294967296"
    and "unat n * unat (rb_channels r) \<le> length samples"
  shows "(\<exists>r'. rb_write samples n r = Done (r', if unat n * unat (rb_channels r) > unat (rb_capacity_floats r)
          then rb_capacity_frames r else n)
      \<and> rb_ok r' \<and> rb_shape r' = rb_shape r
      \<and> rb_content r' = last_n (unat (rb_capacity_floats r)) (rb_content r @ take (unat n * unat (rb_channels r)) samples))
    \<and> (\<exists>r'. rb_read n r = Done (take (unat n * unat (rb_channels r)) (rb_content r),
        of_nat (min (unat n) (unat (rb_buffered r) div unat (rb_channels r))), r')
      \<and> rb_ok r' \<and> rb_shape r' = rb_shape r
      \<and> rb_content r' = drop (unat n * unat (rb_channels r)) (rb_content r))"
  using rb_write_spec [OF assms] rb_read_spec [OF assms(1,2)] by blast

theorem ring_buffer_refines_queue_witness:
  "\<exists>r'. rb_write [1, 2, 3, 4, 5, 6, 7, 8, 9, 10] 5 (new_RingBuffer 4 2) = Done (r', 4)
     \<and> rb_content r' = [3, 4, 5, 6, 7, 8, 9, 10]"
proof -
  let ?r = "new_RingBuffer 4 2"
  have "rb_ok ?r" "rb_content ?r = []"
    by (rule rb_ok_new; simp)+
  moreover have "rb_channels ?r = 2" "rb_capacity_floats ?r = 8" "rb_capacity_frames ?r = 4"
    by (simp_all add: new_RingBuffer_def)
  ultimately show ?thesis
    using ring_buffer_refines_queue [of ?r 5 "[1, 2, 3, 4, 5, 6, 7, 8, 9, 10]"]
    by (auto simp: last_n_def)
qed

text \<open>For every sequence of writes and reads of whole frames on a new ring, what has been read followed by
  what is still buffered is a subsequence of what was written, in order; nothing at all is lost while
  the total written stays within the capacity.\<close>

theorem ring_buffer_keeps_order:
  assumes "0 < unat frames * unat channels" and "unat frames * unat channels < 2147483648"
    and "audio_ring.admissible (frames, channels) ops"
  shows "\<exists>out r'. run_ops rb_push rb_pop ops (new_RingBuffer frames channels) = Done (out, r') \<and> rb_ok r'
     \<and> subseq (out @ rb_content r') (pushed ops)
     \<and> (length (pushed ops) \<le> unat frames * unat channels \<longrightarrow> out @ rb_content r' = pushed ops)"
  using audio_ring.run_ops_order [OF rb_ok_new(1) [OF assms(1,2)], of ops] assms(3)
    rb_ok_new(2,3) [OF assms(1,2)]
  by (auto simp: shape_cap_def)

theorem ring_buffer_keeps_order_witness:
  "\<exists>out r'. run_ops rb_push rb_pop [Push [1, 2], Pop 1, Push [3]] (new_RingBuffer 3 1) = Done (out, r')
     \<and> out @ rb_content r' = [1, 2, 3]"
proof -
  have "audio_ring.admissible (3, 1) [Push [1, 2], Pop 1, Push [3]]"
    unfolding audio_ring.admissible_def by (simp add: whole_frames_def)
  then show ?thesis
    using ring_buffer_keeps_order [of 3 1 "[Push [1, 2], Pop 1, Push [3]]"] by auto
qed

text \<open>A ring for zero channels (or zero frames) divides by zero in its first write; the constructor does
  not reject it.\<close>

theorem ring_buffer_zero_capacity:
  assumes "capacity_frames * channels = 0" and "n \<noteq> 0"
  shows "rb_write samples n (new_RingBuffer capacity_frames channels) = Crash DivideByZero"
  using assms
  by (auto simp: rb_write_def rb_make_room_def new_RingBuffer_def u32_mod_def copy_to_ring_def mem_read_def
      mem_write_def Let_def word_gt_0)

theorem ring_buffer_zero_capacity_witness:
  "rb_write [1, 2] 2 (new_RingBuffer 480 0) = Crash DivideByZero"
  by (rule ring_buffer_zero_capacity) simp_all

end
