(* ===== verification/RingThreads.thy ===== *)
theory RingThreads
  imports RingBuffer
begin

text \<open>
  \<open>RingBuffer\<close> with its two threads: \<open>write\<close>, \<open>read\<close> and \<open>flush\<close> of \<open>ring_buffer.cpp\<close> as sequences of steps,
  one per access to an atomic member and one per float copied, in any interleaving (each access takes
  effect at once; the memory orders are not modelled). Lemmas: without an overflow and a flush the
  threads never touch the same cell, and one thread alone does what the method does in one step.
  Properties: the ring is then a queue, and what an overflow during a read and a flush during a write do.
\<close>

section \<open>State\<close>

text \<open>
  Where a thread stands: a constructor names what it does next and carries its local variables, which are
  the excess the writer drops, the floats the reader takes, a position it loaded, and how many floats it has
  copied.
\<close>

datatype writer =
    W_idle
  | W_load_buffered
  | W_load_read_pos u32
  | W_store_read_pos u32 u32
  | W_sub_buffered u32
  | W_load_write_pos
  | W_copy u32 nat
  | W_store_write_pos u32
  | W_add_buffered

datatype reader =
    R_idle
  | R_load_buffered u32
  | R_load_read_pos u32
  | R_copy u32 u32 nat
  | R_store_read_pos u32 u32
  | R_sub_buffered u32
  | R_flush_load_write_pos
  | R_flush_store_read_pos u32
  | R_flush_store_buffered

text \<open>
  The writer's \<open>samples\<close> and \<open>floats\<close>, the reader's destination, and bookkeeping: the floats of all finished
  writes and reads, and whether the writer has ever found the ring too full.
\<close>

record Threads =
  rt_ring :: RingBuffer
  rt_writer :: writer
  rt_samples :: "sample list"
  rt_floats :: u32
  rt_reader :: reader
  rt_dest :: "sample list"
  rt_written :: "sample list"
  rt_read :: "sample list"
  rt_dropped :: bool

definition new_Threads :: "RingBuffer \<Rightarrow> Threads" where
  "new_Threads r = \<lparr>rt_ring = r, rt_writer = W_idle, rt_samples = [], rt_floats = 0, rt_reader = R_idle,
     rt_dest = [], rt_written = [], rt_read = [], rt_dropped = False\<rparr>"

section \<open>The writer\<close>

definition call_write :: "sample list \<Rightarrow> u32 \<Rightarrow> Threads \<Rightarrow> Threads" where
  "call_write samples frame_count s =
     (if frame_count = 0 then s
      else
        let r = rt_ring s; floats = frame_count * rb_channels r;
            (samples, floats) = (if floats > rb_capacity_floats r
                                 then (drop (unat (floats - rb_capacity_floats r)) samples, rb_capacity_floats r)
                                 else (samples, floats)) in
        s\<lparr>rt_writer := W_load_buffered, rt_samples := samples, rt_floats := floats\<rparr>)"

definition writer_step :: "Threads \<Rightarrow> Threads outcome" where
  "writer_step s =
     (let r = rt_ring s; cap = rb_capacity_floats r; floats = rt_floats s in
      case rt_writer s of
        W_idle \<Rightarrow> Done s
      | W_load_buffered \<Rightarrow>
          let buf = rb_buffered r in
          if buf + floats > cap then Done (s\<lparr>rt_writer := W_load_read_pos (buf + floats - cap), rt_dropped := True\<rparr>)
          else Done (s\<lparr>rt_writer := W_load_write_pos\<rparr>)
      | W_load_read_pos excess \<Rightarrow> Done (s\<lparr>rt_writer := W_store_read_pos excess (rb_read_pos r)\<rparr>)
      | W_store_read_pos excess rp \<Rightarrow>
          and_then (u32_mod (rp + excess) cap) (\<lambda>rp.
            Done (s\<lparr>rt_ring := r\<lparr>rb_read_pos := rp\<rparr>, rt_writer := W_sub_buffered excess\<rparr>))
      | W_sub_buffered excess \<Rightarrow>
          Done (s\<lparr>rt_ring := r\<lparr>rb_buffered := rb_buffered r - excess\<rparr>, rt_writer := W_load_write_pos\<rparr>)
      | W_load_write_pos \<Rightarrow> Done (s\<lparr>rt_writer := W_copy (rb_write_pos r) 0\<rparr>)
      | W_copy wp i \<Rightarrow>
          if i < unat floats then
            and_then (elem_at (rt_samples s) i) (\<lambda>x.
            and_then (mem_write (rb_data r) (ring_index cap wp i) [x]) (\<lambda>data.
              Done (s\<lparr>rt_ring := r\<lparr>rb_data := data\<rparr>, rt_writer := W_copy wp (i + 1)\<rparr>)))
          else Done (s\<lparr>rt_writer := W_store_write_pos wp\<rparr>)
      | W_store_write_pos wp \<Rightarrow>
          and_then (u32_mod (wp + floats) cap) (\<lambda>wp.
            Done (s\<lparr>rt_ring := r\<lparr>rb_write_pos := wp\<rparr>, rt_writer := W_add_buffered\<rparr>))
      | W_add_buffered \<Rightarrow>
          Done (s\<lparr>rt_ring := r\<lparr>rb_buffered := rb_buffered r + floats\<rparr>, rt_writer := W_idle,
                  rt_written := rt_written s @ take (unat floats) (rt_samples s)\<rparr>))"

section \<open>The reader\<close>

definition call_read :: "u32 \<Rightarrow> Threads \<Rightarrow> Threads" where
  "call_read frame_count s = (if frame_count = 0 then s else s\<lparr>rt_reader := R_load_buffered frame_count, rt_dest := []\<rparr>)"

text \<open>\<open>flush\<close> is meant for the writer's thread, but the session calls it on the thread that reads.\<close>

definition call_flush :: "Threads \<Rightarrow> Threads" where
  "call_flush s = s\<lparr>rt_reader := R_flush_load_write_pos\<rparr>"

definition flush_step :: "Threads \<Rightarrow> Threads outcome" where
  "flush_step s =
     (let r = rt_ring s in
      case rt_reader s of
        R_flush_load_write_pos \<Rightarrow> Done (s\<lparr>rt_reader := R_flush_store_read_pos (rb_write_pos r)\<rparr>)
      | R_flush_store_read_pos wp \<Rightarrow> Done (s\<lparr>rt_ring := r\<lparr>rb_read_pos := wp\<rparr>, rt_reader := R_flush_store_buffered\<rparr>)
      | R_flush_store_buffered \<Rightarrow> Done (s\<lparr>rt_ring := r\<lparr>rb_buffered := 0\<rparr>, rt_reader := R_idle\<rparr>)
      | _ \<Rightarrow> Done s)"

definition reader_step :: "Threads \<Rightarrow> Threads outcome" where
  "reader_step s =
     (let r = rt_ring s; cap = rb_capacity_floats r in
      case rt_reader s of
        R_idle \<Rightarrow> Done s
      | R_load_buffered frame_count \<Rightarrow>
          let floats_to_read = min (frame_count * rb_channels r) (rb_buffered r) in
          Done (s\<lparr>rt_reader := if floats_to_read = 0 then R_idle else R_load_read_pos floats_to_read\<rparr>)
      | R_load_read_pos k \<Rightarrow> Done (s\<lparr>rt_reader := R_copy k (rb_read_pos r) 0\<rparr>)
      | R_copy k rp i \<Rightarrow>
          if i < unat k then
            and_then (elem_at (rb_data r) (ring_index cap rp i)) (\<lambda>x.
              Done (s\<lparr>rt_dest := rt_dest s @ [x], rt_reader := R_copy k rp (i + 1)\<rparr>))
          else Done (s\<lparr>rt_reader := R_store_read_pos k rp\<rparr>)
      | R_store_read_pos k rp \<Rightarrow>
          and_then (u32_mod (rp + k) cap) (\<lambda>rp.
            Done (s\<lparr>rt_ring := r\<lparr>rb_read_pos := rp\<rparr>, rt_reader := R_sub_buffered k\<rparr>))
      | R_sub_buffered k \<Rightarrow>
          Done (s\<lparr>rt_ring := r\<lparr>rb_buffered := rb_buffered r - k\<rparr>, rt_reader := R_idle,
                  rt_read := rt_read s @ rt_dest s\<rparr>)
      | _ \<Rightarrow> flush_step s)"

section \<open>Interleavings\<close>

text \<open>A thread calls only when its last call is over.\<close>

datatype thread_action = CallWrite "sample list" u32 | WriterStep | CallRead u32 | CallFlush | ReaderStep

definition thread_action :: "thread_action \<Rightarrow> Threads \<Rightarrow> Threads outcome" where
  "thread_action a s =
     (case a of
        CallWrite samples n \<Rightarrow> Done (if rt_writer s = W_idle then call_write samples n s else s)
      | WriterStep \<Rightarrow> writer_step s
      | CallRead n \<Rightarrow> Done (if rt_reader s = R_idle then call_read n s else s)
      | CallFlush \<Rightarrow> Done (if rt_reader s = R_idle then call_flush s else s)
      | ReaderStep \<Rightarrow> reader_step s)"

fun run_threads :: "thread_action list \<Rightarrow> Threads \<Rightarrow> Threads outcome" where
  "run_threads [] s = Done s"
| "run_threads (a # as) s = and_then (thread_action a s) (run_threads as)"

text \<open>The host passes as many samples as it says, their number is a \<open>uint32_t\<close>, and the ring is not flushed.\<close>

definition proper_call :: "u32 \<Rightarrow> thread_action \<Rightarrow> bool" where
  "proper_call channels a \<longleftrightarrow>
     (case a of CallWrite samples n \<Rightarrow>
        unat n * unat channels < 4294967296 \<and> unat n * unat channels \<le> length samples
      | CallFlush \<Rightarrow> False | _ \<Rightarrow> True)"

section \<open>Invariant\<close>

text \<open>
  \<open>w\<close> floats were written and \<open>d\<close> read so far. The cells from \<open>d\<close> up to \<open>w\<close> hold the floats not read yet; what
  the writer stores lies behind them, and there is room for it.
\<close>

definition buffered_ok :: "RingBuffer \<Rightarrow> sample list \<Rightarrow> sample list \<Rightarrow> bool" where
  "buffered_ok r ws rs \<longleftrightarrow>
     length (rb_data r) = unat (rb_capacity_floats r) \<and> 0 < unat (rb_capacity_floats r) \<and>
     unat (rb_capacity_floats r) < 2147483648 \<and>
     length rs + unat (rb_buffered r) = length ws \<and> unat (rb_buffered r) \<le> unat (rb_capacity_floats r) \<and>
     rs = take (length rs) ws \<and>
     (\<forall>j. length rs \<le> j \<and> j < length ws \<longrightarrow> rb_data r ! (j mod unat (rb_capacity_floats r)) = ws ! j)"

definition stored :: "RingBuffer \<Rightarrow> nat \<Rightarrow> sample list \<Rightarrow> nat \<Rightarrow> bool" where
  "stored r w xs i \<longleftrightarrow> (\<forall>j<i. rb_data r ! ((w + j) mod unat (rb_capacity_floats r)) = xs ! j)"

definition writer_ok :: "writer \<Rightarrow> RingBuffer \<Rightarrow> sample list \<Rightarrow> nat \<Rightarrow> nat \<Rightarrow> bool" where
  "writer_ok p r xs n w \<longleftrightarrow>
     (let cap = unat (rb_capacity_floats r); at = unat (rb_write_pos r); room = unat (rb_buffered r) + n \<le> cap;
          given = n \<le> length xs \<and> n \<le> cap in
      case p of
        W_idle \<Rightarrow> at = w mod cap
      | W_load_buffered \<Rightarrow> at = w mod cap \<and> given
      | W_load_write_pos \<Rightarrow> at = w mod cap \<and> given \<and> room
      | W_copy wp i \<Rightarrow> at = w mod cap \<and> given \<and> room \<and> unat wp = w mod cap \<and> i \<le> n \<and> stored r w xs i
      | W_store_write_pos wp \<Rightarrow> at = w mod cap \<and> given \<and> room \<and> unat wp = w mod cap \<and> stored r w xs n
      | W_add_buffered \<Rightarrow> at = (w + n) mod cap \<and> given \<and> room \<and> stored r w xs n
      | _ \<Rightarrow> False)"

definition reader_ok :: "reader \<Rightarrow> RingBuffer \<Rightarrow> sample list \<Rightarrow> sample list \<Rightarrow> nat \<Rightarrow> bool" where
  "reader_ok p r dest ws d \<longleftrightarrow>
     (let cap = unat (rb_capacity_floats r); at = unat (rb_read_pos r) in
      case p of
        R_idle \<Rightarrow> at = d mod cap
      | R_load_buffered n \<Rightarrow> at = d mod cap \<and> dest = []
      | R_load_read_pos k \<Rightarrow> at = d mod cap \<and> dest = [] \<and> k \<le> rb_buffered r
      | R_copy k rp i \<Rightarrow>
          at = d mod cap \<and> k \<le> rb_buffered r \<and> unat rp = d mod cap \<and> i \<le> unat k \<and> dest = take i (drop d ws)
      | R_store_read_pos k rp \<Rightarrow>
          at = d mod cap \<and> k \<le> rb_buffered r \<and> unat rp = d mod cap \<and> dest = take (unat k) (drop d ws)
      | R_sub_buffered k \<Rightarrow> at = (d + unat k) mod cap \<and> k \<le> rb_buffered r \<and> dest = take (unat k) (drop d ws)
      | _ \<Rightarrow> False)"

definition threads_ok :: "Threads \<Rightarrow> bool" where
  "threads_ok s \<longleftrightarrow>
     buffered_ok (rt_ring s) (rt_written s) (rt_read s) \<and>
     writer_ok (rt_writer s) (rt_ring s) (rt_samples s) (unat (rt_floats s)) (length (rt_written s)) \<and>
     reader_ok (rt_reader s) (rt_ring s) (rt_dest s) (rt_written s) (length (rt_read s))"

section \<open>Cells\<close>

text \<open>Storing the next float touches neither what is buffered nor what was stored before it.\<close>

lemma store_next:
  assumes "buffered_ok r ws rs" and "stored r (length ws) xs i" and "i < n" and "unat (rb_buffered r) + n \<le> unat (rb_capacity_floats r)"
  defines "r' \<equiv> r\<lparr>rb_data := (rb_data r)[(length ws + i) mod unat (rb_capacity_floats r) := xs ! i]\<rparr>"
  shows "buffered_ok r' ws rs" and "stored r' (length ws) xs (i + 1)"
proof -
  let ?cap = "unat (rb_capacity_floats r)" and ?at = "(length ws + i) mod unat (rb_capacity_floats r)"
  have b: "length (rb_data r) = ?cap" "0 < ?cap" "length rs + unat (rb_buffered r) = length ws"
    using assms(1) by (simp_all add: buffered_ok_def)
  have old: "j mod ?cap \<noteq> ?at" if "length rs \<le> j" "j < length ws + i" for j
    by (rule mod_distinct) (use that assms(3,4) b(3) in linarith)+
  show "buffered_ok r' ws rs"
    using assms(1) old [THEN not_sym] by (simp add: buffered_ok_def r'_def nth_list_update)
  have "rb_data r' ! ((length ws + j) mod ?cap) = xs ! j" if "j < i + 1" for j
  proof (cases "j = i")
    case True
    then show ?thesis
      using b by (simp add: r'_def)
  next
    case False
    then have "j < i" "length rs \<le> length ws + j"
      using that b(3) by simp_all
    then show ?thesis
      using assms(2) old [THEN not_sym, of "length ws + j"] by (simp add: stored_def r'_def nth_list_update)
  qed
  then show "stored r' (length ws) xs (i + 1)"
    by (simp add: stored_def r'_def)
qed

text \<open>A position moved on by a count.\<close>

lemma position_advances:
  fixes p n cap :: u32
  assumes "unat p = w mod unat cap" and "unat n \<le> unat cap" and "0 < unat cap" and "unat cap < 2147483648"
  shows "unat ((p + n) mod cap) = (w + unat n) mod unat cap"
proof -
  have "unat p < unat cap"
    using assms(1,3) by simp
  then have "unat (p + n) = unat p + unat n"
    using assms(2,4) by (intro unat_plus_no_wrap) simp
  then show ?thesis
    by (simp add: unat_mod_word assms(1) mod_add_left_eq)
qed

lemma buffered_ok_bounds:
  assumes "buffered_ok r ws rs"
  shows "0 < unat (rb_capacity_floats r)" and "unat (rb_capacity_floats r) < 2147483648"
    and "unat (rb_buffered r) \<le> unat (rb_capacity_floats r)" and "length (rb_data r) = unat (rb_capacity_floats r)"
  using assms by (simp_all add: buffered_ok_def)

text \<open>Publishing what was stored.\<close>

lemma publish:
  assumes "buffered_ok r ws rs" and "stored r (length ws) xs (unat n)" and "unat n \<le> length xs"
    and "unat (rb_buffered r) + unat n \<le> unat (rb_capacity_floats r)"
  shows "buffered_ok (r\<lparr>rb_buffered := rb_buffered r + n\<rparr>) (ws @ take (unat n) xs) rs"
proof -
  let ?cap = "unat (rb_capacity_floats r)"
  have sum: "unat (rb_buffered r + n) = unat (rb_buffered r) + unat n"
    using assms(1,4) by (intro unat_plus_no_wrap) (simp add: buffered_ok_def)
  have "rb_data r ! (j mod ?cap) = (ws @ take (unat n) xs) ! j" if j: "length rs \<le> j" "j < length ws + unat n" for j
  proof (cases "j < length ws")
    case True
    then show ?thesis
      using assms(1) j by (simp add: buffered_ok_def nth_append)
  next
    case False
    then obtain k where "j = length ws + k" "k < unat n"
      using j(2) by (metis add_less_cancel_left le_Suc_ex not_less)
    then show ?thesis
      using assms(2) by (simp add: stored_def nth_append)
  qed
  moreover have "rs = take (length rs) (ws @ take (unat n) xs)"
    using assms(1) by (simp add: buffered_ok_def)
  ultimately show ?thesis
    using assms sum by (simp add: buffered_ok_def min_absorb2)
qed

section \<open>The writer keeps the invariant\<close>

text \<open>A reader does not notice what the writer does to the cells and the write position.\<close>

lemma reader_ok_fields [simp]:
  "reader_ok p (r\<lparr>rb_data := data\<rparr>) dest ws d = reader_ok p r dest ws d"
  "reader_ok p (r\<lparr>rb_write_pos := wp\<rparr>) dest ws d = reader_ok p r dest ws d"
  by (simp_all add: reader_ok_def cong: reader.case_cong)

lemma buffered_ok_fields [simp]:
  "buffered_ok (r\<lparr>rb_write_pos := wp\<rparr>) ws rs = buffered_ok r ws rs" "buffered_ok (r\<lparr>rb_read_pos := rp\<rparr>) ws rs = buffered_ok r ws rs"
  by (simp_all add: buffered_ok_def)

lemma stored_fields [simp]:
  "stored (r\<lparr>rb_write_pos := wp\<rparr>) w xs i = stored r w xs i" "stored (r\<lparr>rb_read_pos := rp\<rparr>) w xs i = stored r w xs i"
  "stored (r\<lparr>rb_buffered := b\<rparr>) w xs i = stored r w xs i"
  by (simp_all add: stored_def)

lemma reader_ok_publish:
  assumes "buffered_ok r ws rs" and "reader_ok p r dest ws (length rs)" and "rb_buffered r \<le> b"
  shows "reader_ok p (r\<lparr>rb_buffered := b\<rparr>) dest (ws @ xs) (length rs)"
proof -
  have "take i (drop (length rs) (ws @ xs)) = take i (drop (length rs) ws)" if "i \<le> unat k" "k \<le> rb_buffered r" for i k
  proof -
    have "i \<le> unat (rb_buffered r)"
      using that by (simp add: word_le_nat_alt)
    then show ?thesis
      using assms(1) by (simp add: buffered_ok_def)
  qed
  then show ?thesis
    using assms(2,3) by (auto simp: reader_ok_def Let_def split: reader.splits intro: order_trans)
qed

lemma threads_okD:
  assumes "threads_ok s"
  shows "buffered_ok (rt_ring s) (rt_written s) (rt_read s)"
    and "writer_ok (rt_writer s) (rt_ring s) (rt_samples s) (unat (rt_floats s)) (length (rt_written s))"
    and "reader_ok (rt_reader s) (rt_ring s) (rt_dest s) (rt_written s) (length (rt_read s))"
  using assms by (simp_all add: threads_ok_def)

lemma writer_copy_ok:
  assumes "threads_ok s" and "rt_writer s = W_copy wp i"
  shows "yields (writer_step s) threads_ok"
proof -
  let ?r = "rt_ring s" and ?n = "rt_floats s"
  note b = threads_okD(1) [OF assms(1)] and w = threads_okD(2) [OF assms(1)] and rd = threads_okD(3) [OF assms(1)]
  note cap = buffered_ok_bounds [OF b]
  have u: "unat wp = length (rt_written s) mod unat (rb_capacity_floats ?r)" "unat ?n \<le> length (rt_samples s)"
    "unat ?n \<le> unat (rb_capacity_floats ?r)" "unat (rb_buffered ?r) + unat ?n \<le> unat (rb_capacity_floats ?r)"
    "stored ?r (length (rt_written s)) (rt_samples s) i" "i \<le> unat ?n"
    using w assms(2) by (simp_all add: writer_ok_def Let_def)
  show ?thesis
  proof (cases "i < unat ?n")
    case True
    have "ring_index (rb_capacity_floats ?r) wp i = (length (rt_written s) + i) mod unat (rb_capacity_floats ?r)"
      using u True cap by (simp add: ring_index_mod mod_add_left_eq)
    with True assms(2) w rd cap u(2) store_next [OF b u(5) True u(4)] show ?thesis
      by (simp add: writer_step_def threads_ok_def writer_ok_def Let_def elem_at_Done mem_write_one)
  next
    case False
    then have "i = unat ?n"
      using u(6) by simp
    with assms(2) w b rd show ?thesis
      by (simp add: writer_step_def threads_ok_def writer_ok_def Let_def)
  qed
qed

lemma writer_step_ok:
  assumes "threads_ok s"
  shows "yields (writer_step s) (\<lambda>s'. rt_dropped s' \<or> threads_ok s')"
proof -
  let ?r = "rt_ring s" and ?n = "rt_floats s"
  note b = threads_okD(1) [OF assms] and w = threads_okD(2) [OF assms] and rd = threads_okD(3) [OF assms]
  note cap = buffered_ok_bounds [OF b]
  show ?thesis
  proof (cases "rt_writer s")
    case W_idle
    with assms show ?thesis by (simp add: writer_step_def Let_def)
  next
    case W_load_buffered
    have "unat (rb_buffered ?r + ?n) = unat (rb_buffered ?r) + unat ?n"
      using w W_load_buffered cap by (intro unat_plus_no_wrap) (simp add: writer_ok_def Let_def)
    with W_load_buffered w b rd show ?thesis
      by (auto simp: writer_step_def threads_ok_def writer_ok_def Let_def word_less_nat_alt)
  next
    case W_load_write_pos
    with w b rd show ?thesis
      by (simp add: writer_step_def threads_ok_def writer_ok_def Let_def stored_def)
  next
    case (W_copy wp i)
    from yields_mono [OF writer_copy_ok [OF assms this]] show ?thesis by simp
  next
    case (W_store_write_pos wp)
    with w b rd cap position_advances [of wp "length (rt_written s)" "rb_capacity_floats ?r" ?n] show ?thesis
      by (simp add: writer_step_def threads_ok_def writer_ok_def Let_def u32_mod_Done)
  next
    case W_add_buffered
    have u: "unat ?n \<le> length (rt_samples s)" "unat (rb_buffered ?r) + unat ?n \<le> unat (rb_capacity_floats ?r)"
      "stored ?r (length (rt_written s)) (rt_samples s) (unat ?n)"
      using w W_add_buffered by (simp_all add: writer_ok_def Let_def)
    have "unat (rb_buffered ?r + ?n) = unat (rb_buffered ?r) + unat ?n"
      using u(2) cap by (intro unat_plus_no_wrap) simp
    then have "rb_buffered ?r \<le> rb_buffered ?r + ?n"
      by (simp add: word_le_nat_alt)
    with W_add_buffered w publish [OF b u(3,1,2)] reader_ok_publish [OF b rd] u(1) show ?thesis
      by (simp add: writer_step_def threads_ok_def writer_ok_def Let_def min_absorb2)
  qed (use w in \<open>simp_all add: writer_ok_def Let_def\<close>)
qed

section \<open>The reader keeps the invariant\<close>

lemma writer_ok_fields [simp]: "writer_ok p (r\<lparr>rb_read_pos := rp\<rparr>) xs n w = writer_ok p r xs n w"
  by (simp add: writer_ok_def cong: writer.case_cong)

lemma writer_ok_take:
  assumes "writer_ok p r xs n w" and "unat b \<le> unat (rb_buffered r)"
  shows "writer_ok p (r\<lparr>rb_buffered := b\<rparr>) xs n w"
  using assms by (auto simp: writer_ok_def Let_def split: writer.splits)

text \<open>The front of what is buffered, in the cells from the reader's position on.\<close>

lemma next_float:
  assumes "buffered_ok r ws rs" and "unat rp = length rs mod unat (rb_capacity_floats r)"
    and "i < unat k" and "k \<le> rb_buffered r"
  shows "elem_at (rb_data r) (ring_index (rb_capacity_floats r) rp i) = Done (ws ! (length rs + i))"
    and "take (Suc i) (drop (length rs) ws) = take i (drop (length rs) ws) @ [ws ! (length rs + i)]"
proof -
  let ?cap = "unat (rb_capacity_floats r)"
  have i: "i < unat (rb_buffered r)"
    using assms(3,4) by (simp add: word_le_nat_alt)
  have b: "length (rb_data r) = ?cap" "0 < ?cap" "length rs + unat (rb_buffered r) = length ws" "unat (rb_buffered r) \<le> ?cap"
    using assms(1) by (simp_all add: buffered_ok_def)
  have "ring_index (rb_capacity_floats r) rp i = (length rs + i) mod ?cap"
    using assms(2) i b by (simp add: ring_index_mod mod_add_left_eq)
  then show "elem_at (rb_data r) (ring_index (rb_capacity_floats r) rp i) = Done (ws ! (length rs + i))"
    using assms(1) i b by (simp add: buffered_ok_def elem_at_Done)
  show "take (Suc i) (drop (length rs) ws) = take i (drop (length rs) ws) @ [ws ! (length rs + i)]"
    using i b by (simp add: take_Suc_conv_app_nth)
qed

text \<open>Giving back the cells that were read.\<close>

lemma release:
  assumes "buffered_ok r ws rs" and "k \<le> rb_buffered r"
  defines "rs' \<equiv> rs @ take (unat k) (drop (length rs) ws)"
  shows "buffered_ok (r\<lparr>rb_buffered := rb_buffered r - k\<rparr>) ws rs'" and "length rs' = length rs + unat k"
    and "unat (rb_buffered r - k) \<le> unat (rb_buffered r)"
proof -
  have k: "unat k \<le> unat (rb_buffered r)"
    using assms(2) by (simp add: word_le_nat_alt)
  have b: "length rs + unat (rb_buffered r) = length ws" "rs = take (length rs) ws"
    using assms(1) by (simp_all add: buffered_ok_def)
  have u: "unat (rb_buffered r - k) = unat (rb_buffered r) - unat k"
    by (rule unat_minus_no_wrap [OF k])
  show l: "length rs' = length rs + unat k"
    using k b(1) by (simp add: rs'_def)
  have "rs' = take (length rs + unat k) ws"
    unfolding rs'_def take_add using b(2) by simp
  with l have "rs' = take (length rs') ws"
    by simp
  with l show "buffered_ok (r\<lparr>rb_buffered := rb_buffered r - k\<rparr>) ws rs'"
    using assms(1) k by (auto simp: buffered_ok_def u intro: le_trans [OF diff_le_self])
  show "unat (rb_buffered r - k) \<le> unat (rb_buffered r)"
    by (simp add: u)
qed

lemma reader_copy_ok:
  assumes "threads_ok s" and "rt_reader s = R_copy k rp i"
  shows "yields (reader_step s) threads_ok"
proof -
  let ?r = "rt_ring s"
  note b = threads_okD(1) [OF assms(1)] and w = threads_okD(2) [OF assms(1)] and rd = threads_okD(3) [OF assms(1)]
  have u: "unat rp = length (rt_read s) mod unat (rb_capacity_floats ?r)" "k \<le> rb_buffered ?r" "i \<le> unat k"
    using rd assms(2) by (simp_all add: reader_ok_def Let_def)
  show ?thesis
  proof (cases "i < unat k")
    case True
    with assms(2) w b rd next_float [OF b u(1) True u(2)] show ?thesis
      by (simp add: reader_step_def threads_ok_def reader_ok_def Let_def)
  next
    case False
    then have "i = unat k"
      using u(3) by simp
    with assms(2) w b rd show ?thesis
      by (simp add: reader_step_def threads_ok_def reader_ok_def Let_def)
  qed
qed

lemma reader_step_ok:
  assumes "threads_ok s"
  shows "yields (reader_step s) threads_ok"
proof -
  let ?r = "rt_ring s"
  note b = threads_okD(1) [OF assms] and w = threads_okD(2) [OF assms] and rd = threads_okD(3) [OF assms]
  note cap = buffered_ok_bounds [OF b]
  show ?thesis
  proof (cases "rt_reader s")
    case R_idle
    with assms show ?thesis by (simp add: reader_step_def Let_def)
  next
    case (R_load_buffered n)
    with w b rd show ?thesis
      by (simp add: reader_step_def threads_ok_def reader_ok_def Let_def)
  next
    case (R_load_read_pos k)
    with w b rd show ?thesis
      by (simp add: reader_step_def threads_ok_def reader_ok_def Let_def)
  next
    case (R_copy k rp i)
    show ?thesis by (rule reader_copy_ok [OF assms R_copy])
  next
    case (R_store_read_pos k rp)
    have "unat rp = length (rt_read s) mod unat (rb_capacity_floats ?r)" "unat k \<le> unat (rb_capacity_floats ?r)"
      using rd R_store_read_pos cap(3) by (simp_all add: reader_ok_def Let_def word_le_nat_alt)
    with R_store_read_pos w b rd cap position_advances [of rp "length (rt_read s)" "rb_capacity_floats ?r" k] show ?thesis
      by (simp add: reader_step_def threads_ok_def reader_ok_def Let_def u32_mod_Done)
  next
    case (R_sub_buffered k)
    have u: "k \<le> rb_buffered ?r" "rt_dest s = take (unat k) (drop (length (rt_read s)) (rt_written s))"
      "unat (rb_read_pos ?r) = (length (rt_read s) + unat k) mod unat (rb_capacity_floats ?r)"
      using rd R_sub_buffered by (simp_all add: reader_ok_def Let_def)
    note rel = release [OF b u(1)]
    show ?thesis
      using rel writer_ok_take [OF w rel(3)] u(3) R_sub_buffered
      by (simp add: reader_step_def threads_ok_def reader_ok_def Let_def u(2))
  qed (use rd in \<open>simp_all add: reader_ok_def Let_def\<close>)
qed

section \<open>Calls and runs\<close>

lemma call_write_ok:
  assumes "threads_ok s" and "rt_writer s = W_idle" and "proper_call (rb_channels (rt_ring s)) (CallWrite samples n)"
  shows "threads_ok (call_write samples n s)"
proof -
  let ?r = "rt_ring s"
  obtain xs m where c: "clip (rb_capacity_floats ?r) samples (n * rb_channels ?r) = (xs, m)"
    by fastforce
  have "unat (n * rb_channels ?r) \<le> length samples"
    using assms(3) by (simp add: proper_call_def unat_mult_no_wrap)
  note clip = clip_spec(1,2) [OF c this]
  show ?thesis
    using assms(1,2) clip
    by (simp add: call_write_def Let_def c [unfolded clip_def] threads_ok_def writer_ok_def)
qed

lemma call_read_ok: "threads_ok s \<Longrightarrow> rt_reader s = R_idle \<Longrightarrow> threads_ok (call_read n s)"
  by (simp add: call_read_def threads_ok_def reader_ok_def Let_def)

lemma thread_action_ok:
  assumes "threads_ok s" and "proper_call (rb_channels (rt_ring s)) a"
  shows "yields (thread_action a s) (\<lambda>s'. rt_dropped s' \<or> threads_ok s')"
proof (cases a)
  case (CallWrite samples n)
  then show ?thesis
    using assms call_write_ok by (simp add: thread_action_def)
next
  case WriterStep
  then show ?thesis
    using writer_step_ok [OF assms(1)] by (simp add: thread_action_def)
next
  case (CallRead n)
  then show ?thesis
    using assms(1) call_read_ok by (simp add: thread_action_def)
next
  case CallFlush
  then show ?thesis
    using assms(2) by (simp add: proper_call_def)
next
  case ReaderStep
  then show ?thesis
    using yields_mono [OF reader_step_ok [OF assms(1)]] by (simp add: thread_action_def)
qed

text \<open>No step changes the number of channels and the capacity.\<close>

definition ring_size :: "Threads \<Rightarrow> u32 \<times> u32 \<times> u32" where
  "ring_size s = (rb_capacity_floats (rt_ring s), rb_capacity_frames (rt_ring s), rb_channels (rt_ring s))"

lemma call_write_ring [simp]: "rt_ring (call_write samples n s) = rt_ring s"
  by (simp add: call_write_def Let_def split: prod.split)

lemma thread_action_size: "allows (thread_action a s) (\<lambda>s'. ring_size s' = ring_size s)"
proof (cases a)
  case WriterStep
  show ?thesis
    by (cases "rt_writer s") (auto simp: WriterStep thread_action_def writer_step_def ring_size_def Let_def)
next
  case ReaderStep
  show ?thesis
    by (cases "rt_reader s") (auto simp: ReaderStep thread_action_def reader_step_def flush_step_def ring_size_def Let_def)
qed (auto simp: thread_action_def ring_size_def call_read_def call_flush_def)

text \<open>In this run the writer never finds the ring too full.\<close>

fun never_full :: "thread_action list \<Rightarrow> Threads \<Rightarrow> bool" where
  "never_full [] s \<longleftrightarrow> True"
| "never_full (a # as) s \<longleftrightarrow> (case thread_action a s of Done s' \<Rightarrow> \<not> rt_dropped s' \<and> never_full as s' | _ \<Rightarrow> True)"

lemma run_threads_ok:
  assumes "threads_ok s" and "list_all (proper_call (rb_channels (rt_ring s))) as" and "never_full as s"
  shows "yields (run_threads as s) (\<lambda>s'. threads_ok s' \<and> ring_size s' = ring_size s)"
  using assms
proof (induction as arbitrary: s)
  case (Cons a as)
  obtain s1 where s1: "thread_action a s = Done s1" "rt_dropped s1 \<or> threads_ok s1"
    using thread_action_ok [OF Cons.prems(1)] Cons.prems(2) by (auto elim: yieldsE)
  have size: "ring_size s1 = ring_size s"
    using thread_action_size [of a s] s1(1) by simp
  have "yields (run_threads as s1) (\<lambda>s'. threads_ok s' \<and> ring_size s' = ring_size s1)"
    using s1 Cons.prems(2,3) size by (intro Cons.IH) (auto simp: ring_size_def)
  then show ?case
    by (simp add: s1(1) size)
qed simp

lemma threads_ok_new:
  assumes "0 < unat frames * unat channels" and "unat frames * unat channels < 2147483648"
  shows "threads_ok (new_Threads (new_RingBuffer frames channels))"
  using assms unat_mult_no_wrap [of frames channels]
  by (simp add: threads_ok_def new_Threads_def new_RingBuffer_def buffered_ok_def writer_ok_def reader_ok_def Let_def)

text \<open>Between calls the ring holds exactly the floats written and not read.\<close>

lemma threads_ok_content:
  assumes "threads_ok s"
  obtains rest where "rt_written s = rt_read s @ rest" and "length rest = unat (rb_buffered (rt_ring s))"
    and "rt_reader s \<noteq> R_idle \<Longrightarrow> prefix (rt_dest s) rest"
    and "rt_reader s = R_idle \<Longrightarrow> rb_content (rt_ring s) = rest"
proof
  let ?rest = "drop (length (rt_read s)) (rt_written s)" and ?r = "rt_ring s"
  have b: "buffered_ok ?r (rt_written s) (rt_read s)"
    and rd: "reader_ok (rt_reader s) ?r (rt_dest s) (rt_written s) (length (rt_read s))"
    using assms by (simp_all add: threads_ok_def)
  show "rt_written s = rt_read s @ ?rest"
    using b by (metis append_take_drop_id buffered_ok_def)
  show l: "length ?rest = unat (rb_buffered ?r)"
    using b by (auto simp: buffered_ok_def)
  show "prefix (rt_dest s) ?rest" if "rt_reader s \<noteq> R_idle"
    using rd that by (cases "rt_reader s") (auto simp: reader_ok_def Let_def take_is_prefix)
  show "rb_content ?r = ?rest" if "rt_reader s = R_idle"
  proof (rule nth_equalityI)
    fix i
    assume "i < length (rb_content ?r)"
    then show "rb_content ?r ! i = ?rest ! i"
      using b rd that by (simp add: rb_content_def ring_seq_def buffered_ok_def reader_ok_def Let_def mod_add_left_eq)
  qed (use l in simp)
qed

section \<open>One thread alone\<close>

text \<open>A thread that takes steps while the other one does not move.\<close>

abbreviation alone :: "thread_action \<Rightarrow> Threads \<Rightarrow> Threads \<Rightarrow> bool" where
  "alone a \<equiv> repeats (thread_action a)"

lemma alone_run: "alone a s s' \<Longrightarrow> \<exists>k. run_threads (replicate k a) s = Done s'"
proof (induction rule: repeats.induct)
  case (repeats_refl s)
  show ?case by (rule exI [of _ 0]) simp
next
  case (repeats_step s s1 s2)
  then obtain k where "run_threads (replicate k a) s1 = Done s2" by blast
  with repeats_step(1) show ?case
    by (intro exI [of _ "Suc k"]) simp
qed

text \<open>The copying steps of a write store what \<open>copy_to_ring\<close> stores, those of a read load what
  \<open>copy_from_ring\<close> loads.\<close>

lemma writer_copies:
  assumes "rt_ring s = r" and "rt_writer s = W_copy wp 0" and "length (rb_data r) = unat (rb_capacity_floats r)"
    and "unat wp < unat (rb_capacity_floats r)" and "i \<le> unat (rt_floats s)"
    and "unat (rt_floats s) \<le> unat (rb_capacity_floats r)" and "unat (rt_floats s) \<le> length (rt_samples s)"
  shows "alone WriterStep s (s\<lparr>rt_ring := r\<lparr>rb_data := store_cells (unat wp) (rt_samples s) i (rb_data r)\<rparr>, rt_writer := W_copy wp i\<rparr>)"
  using assms(5)
proof (induction i)
  case 0
  have "s = s\<lparr>rt_ring := r\<lparr>rb_data := store_cells (unat wp) (rt_samples s) 0 (rb_data r)\<rparr>, rt_writer := W_copy wp 0\<rparr>"
    using assms(1,2) by (cases s, cases r) simp
  then show ?case
    by (metis repeats_refl)
next
  case (Suc i)
  let ?data = "store_cells (unat wp) (rt_samples s) i (rb_data r)"
  let ?t = "s\<lparr>rt_ring := r\<lparr>rb_data := ?data\<rparr>, rt_writer := W_copy wp i\<rparr>"
  have "ring_index (rb_capacity_floats r) wp i = (unat wp + i) mod length ?data"
    using Suc.prems assms(3,4,6) by (simp add: ring_index_mod)
  moreover have "0 < length ?data"
    using assms(3,4) by (cases "rb_data r") auto
  ultimately have "thread_action WriterStep ?t = Done (s\<lparr>rt_ring := r\<lparr>rb_data := store_cells (unat wp) (rt_samples s) (Suc i) (rb_data r)\<rparr>,
      rt_writer := W_copy wp (Suc i)\<rparr>)"
    using Suc.prems assms(7)
    by (simp add: thread_action_def writer_step_def Let_def elem_at_Done mem_write_one)
  with Suc show ?case
    by (intro repeats_snoc [OF Suc.IH]) simp_all
qed

lemma reader_copies:
  assumes "rt_ring s = r" and "rt_reader s = R_copy k rp 0" and "rt_dest s = []"
    and "length (rb_data r) = unat (rb_capacity_floats r)" and "unat rp < unat (rb_capacity_floats r)"
    and "i \<le> unat k" and "unat k \<le> unat (rb_capacity_floats r)"
  shows "alone ReaderStep s (s\<lparr>rt_reader := R_copy k rp i, rt_dest := ring_seq (rb_data r) (unat rp) i\<rparr>)"
  using assms(6)
proof (induction i)
  case 0
  have "s = s\<lparr>rt_reader := R_copy k rp 0, rt_dest := ring_seq (rb_data r) (unat rp) 0\<rparr>"
    using assms(2,3) by (cases s) simp
  then show ?case
    by (metis repeats_refl)
next
  case (Suc i)
  have "ring_index (rb_capacity_floats r) rp i = (unat rp + i) mod length (rb_data r)"
    using Suc.prems assms(4,5,7) by (simp add: ring_index_mod)
  moreover have "0 < length (rb_data r)"
    using assms(4,5) by (cases "rb_data r") auto
  ultimately have "thread_action ReaderStep (s\<lparr>rt_reader := R_copy k rp i, rt_dest := ring_seq (rb_data r) (unat rp) i\<rparr>)
      = Done (s\<lparr>rt_reader := R_copy k rp (Suc i), rt_dest := ring_seq (rb_data r) (unat rp) (Suc i)\<rparr>)"
    using Suc.prems assms(1)
    by (simp add: thread_action_def reader_step_def Let_def elem_at_Done ring_seq_def)
  with Suc show ?case
    by (intro repeats_snoc [OF Suc.IH]) simp_all
qed

text \<open>From the load of the write position on, and from the load of the fill level on.\<close>

lemma writer_finishes:
  assumes "rt_ring s = r" and "rt_writer s = W_load_write_pos" and "length (rb_data r) = unat (rb_capacity_floats r)"
    and "unat (rb_write_pos r) < unat (rb_capacity_floats r)"
    and "unat (rt_floats s) \<le> unat (rb_capacity_floats r)" and "unat (rt_floats s) \<le> length (rt_samples s)"
  obtains data where "copy_to_ring (rb_capacity_floats r) (rb_data r) (rb_write_pos r) (rt_samples s) (rt_floats s) = Done data"
    and "alone WriterStep s (s\<lparr>rt_ring := r\<lparr>rb_data := data, rb_write_pos := (rb_write_pos r + rt_floats s) mod rb_capacity_floats r,
      rb_buffered := rb_buffered r + rt_floats s\<rparr>, rt_writer := W_idle,
      rt_written := rt_written s @ take (unat (rt_floats s)) (rt_samples s)\<rparr>)"
proof
  let ?data = "store_cells (unat (rb_write_pos r)) (rt_samples s) (unat (rt_floats s)) (rb_data r)"
  define t where "t = s\<lparr>rt_writer := W_copy (rb_write_pos r) 0\<rparr>"
  let ?t = "t\<lparr>rt_ring := r\<lparr>rb_data := ?data\<rparr>, rt_writer := W_copy (rb_write_pos r) (unat (rt_floats s))\<rparr>"
  show "copy_to_ring (rb_capacity_floats r) (rb_data r) (rb_write_pos r) (rt_samples s) (rt_floats s) = Done ?data"
    using assms by (intro copy_to_ring_cells) (simp_all add: word_less_nat_alt word_le_nat_alt)
  have s1: "thread_action WriterStep s = Done t"
    using assms(1,2) by (simp add: thread_action_def writer_step_def Let_def t_def)
  have s2: "alone WriterStep t ?t"
    using writer_copies [of t r "rb_write_pos r" "unat (rt_floats s)"] assms by (simp add: t_def)
  have s3: "thread_action WriterStep ?t = Done (?t\<lparr>rt_writer := W_store_write_pos (rb_write_pos r)\<rparr>)"
    by (simp add: thread_action_def writer_step_def Let_def t_def)
  have s4: "thread_action WriterStep (?t\<lparr>rt_writer := W_store_write_pos (rb_write_pos r)\<rparr>)
      = Done (?t\<lparr>rt_ring := r\<lparr>rb_data := ?data, rb_write_pos := (rb_write_pos r + rt_floats s) mod rb_capacity_floats r\<rparr>,
          rt_writer := W_add_buffered\<rparr>)"
    using assms(4) by (simp add: thread_action_def writer_step_def Let_def t_def u32_mod_Done)
  have s5: "thread_action WriterStep (?t\<lparr>rt_ring := r\<lparr>rb_data := ?data,
        rb_write_pos := (rb_write_pos r + rt_floats s) mod rb_capacity_floats r\<rparr>, rt_writer := W_add_buffered\<rparr>)
      = Done (s\<lparr>rt_ring := r\<lparr>rb_data := ?data, rb_write_pos := (rb_write_pos r + rt_floats s) mod rb_capacity_floats r,
          rb_buffered := rb_buffered r + rt_floats s\<rparr>, rt_writer := W_idle,
          rt_written := rt_written s @ take (unat (rt_floats s)) (rt_samples s)\<rparr>)"
    by (simp add: thread_action_def writer_step_def Let_def t_def)
  show "alone WriterStep s (s\<lparr>rt_ring := r\<lparr>rb_data := ?data,
      rb_write_pos := (rb_write_pos r + rt_floats s) mod rb_capacity_floats r, rb_buffered := rb_buffered r + rt_floats s\<rparr>,
      rt_writer := W_idle, rt_written := rt_written s @ take (unat (rt_floats s)) (rt_samples s)\<rparr>)"
    by (rule repeats_step [OF s1 repeats_snoc [OF repeats_snoc [OF repeats_snoc [OF s2 s3] s4] s5]])
qed

lemma writer_makes_room:
  assumes "rt_writer s = W_load_buffered" and "0 < unat (rb_capacity_floats (rt_ring s))"
    and "rb_make_room (rt_floats s) (rt_ring s) = Done r"
  obtains b where "alone WriterStep s (s\<lparr>rt_ring := r, rt_writer := W_load_write_pos, rt_dropped := b\<rparr>)"
proof (cases "rb_buffered (rt_ring s) + rt_floats s > rb_capacity_floats (rt_ring s)")
  case True
  let ?r = "rt_ring s" and ?e = "rb_buffered (rt_ring s) + rt_floats s - rb_capacity_floats (rt_ring s)"
  let ?t = "\<lambda>w r. s\<lparr>rt_ring := r, rt_writer := w, rt_dropped := True\<rparr>"
  let ?rp = "(rb_read_pos ?r + ?e) mod rb_capacity_floats ?r"
  have "r = ?r\<lparr>rb_read_pos := ?rp, rb_buffered := rb_buffered ?r - ?e\<rparr>"
    using True assms(2,3) by (simp add: rb_make_room_def Let_def u32_mod_Done)
  moreover have "thread_action WriterStep s = Done (?t (W_load_read_pos ?e) ?r)"
    using True assms(1) by (simp add: thread_action_def writer_step_def Let_def)
  moreover have "thread_action WriterStep (?t (W_load_read_pos ?e) ?r) = Done (?t (W_store_read_pos ?e (rb_read_pos ?r)) ?r)"
    by (simp add: thread_action_def writer_step_def Let_def)
  moreover have "thread_action WriterStep (?t (W_store_read_pos ?e (rb_read_pos ?r)) ?r)
      = Done (?t (W_sub_buffered ?e) (?r\<lparr>rb_read_pos := ?rp\<rparr>))"
    using assms(2) by (simp add: thread_action_def writer_step_def Let_def u32_mod_Done)
  moreover have "thread_action WriterStep (?t (W_sub_buffered ?e) (?r\<lparr>rb_read_pos := ?rp\<rparr>))
      = Done (?t W_load_write_pos (?r\<lparr>rb_read_pos := ?rp, rb_buffered := rb_buffered ?r - ?e\<rparr>))"
    by (simp add: thread_action_def writer_step_def Let_def)
  ultimately show thesis
    using that by (blast intro: repeats_step repeats_refl)
next
  case False
  then have "r = rt_ring s"
    using assms(3) by (simp add: rb_make_room_def Let_def)
  moreover have "thread_action WriterStep s
      = Done (s\<lparr>rt_ring := rt_ring s, rt_writer := W_load_write_pos, rt_dropped := rt_dropped s\<rparr>)"
    using False assms(1) by (simp add: thread_action_def writer_step_def Let_def)
  ultimately show thesis
    using that by (blast intro: repeats_step repeats_refl)
qed

text \<open>A whole write and a whole read.\<close>

lemma writer_alone:
  assumes "rb_ok (rt_ring s)" and "rt_writer s = W_idle" and "proper_call (rb_channels (rt_ring s)) (CallWrite samples n)"
  obtains s' m where "rb_write samples n (rt_ring s) = Done (rt_ring s', m)" and "alone WriterStep (call_write samples n s) s'"
    and "rt_writer s' = W_idle" and "rt_reader s' = rt_reader s" and "rt_read s' = rt_read s" and "rt_dest s' = rt_dest s"
proof (cases "n = 0")
  case True
  then show thesis
    using that [of s 0] assms(2) by (simp add: rb_write_def call_write_def repeats_refl)
next
  case False
  let ?r = "rt_ring s" and ?ch = "rb_channels (rt_ring s)" and ?cap = "rb_capacity_floats (rt_ring s)"
  obtain xs fl where c: "clip ?cap samples (n * ?ch) = (xs, fl)"
    by fastforce
  have nf: "unat (n * ?ch) = unat n * unat ?ch"
    using assms(3) by (simp add: proper_call_def unat_mult_no_wrap)
  have len: "unat fl = min (unat n * unat ?ch) (unat ?cap)" "unat fl \<le> length xs"
    using clip_spec(1,2) [OF c] assms(3) by (simp_all add: proper_call_def nf)
  have ok: "0 < unat ?cap" "unat ?ch dvd unat ?cap"
    using assms(1) by (auto simp: rb_ok_def) (metis dvd_triv_right)
  have "unat ?ch dvd unat fl"
    using ok(2) by (simp add: len(1) min_def)
  then obtain r1 where r1: "rb_make_room fl ?r = Done r1" "rb_ok r1" "rb_capacity_floats r1 = ?cap"
    using rb_make_room_spec [OF assms(1), of fl] len(1) by (metis min.cobounded2)
  define t where "t = s\<lparr>rt_writer := W_load_buffered, rt_samples := xs, rt_floats := fl\<rparr>"
  have call: "call_write samples n s = t"
    using False by (simp add: call_write_def Let_def c [unfolded clip_def] t_def)
  obtain b where room: "alone WriterStep t (t\<lparr>rt_ring := r1, rt_writer := W_load_write_pos, rt_dropped := b\<rparr>)"
    using writer_makes_room [of t r1] ok(1) r1(1) by (auto simp: t_def)
  let ?t = "t\<lparr>rt_ring := r1, rt_writer := W_load_write_pos, rt_dropped := b\<rparr>"
  have "length (rb_data r1) = unat ?cap" "unat (rb_write_pos r1) < unat ?cap"
    using r1(2,3) ok(1) by (simp_all add: rb_ok_def)
  then obtain data where d: "copy_to_ring ?cap (rb_data r1) (rb_write_pos r1) xs fl = Done data"
    and fin: "alone WriterStep ?t (?t\<lparr>rt_ring := r1\<lparr>rb_data := data, rb_write_pos := (rb_write_pos r1 + fl) mod ?cap,
      rb_buffered := rb_buffered r1 + fl\<rparr>, rt_writer := W_idle, rt_written := rt_written ?t @ take (unat fl) xs\<rparr>)"
    using writer_finishes [of ?t r1] r1(3) len by (auto simp: t_def)
  show thesis
  proof (rule that)
    show "alone WriterStep (call_write samples n s) (?t\<lparr>rt_ring := r1\<lparr>rb_data := data, rb_write_pos := (rb_write_pos r1 + fl) mod ?cap,
      rb_buffered := rb_buffered r1 + fl\<rparr>, rt_writer := W_idle, rt_written := rt_written ?t @ take (unat fl) xs\<rparr>)"
      unfolding call by (rule repeats_trans [OF room fin])
    show "rb_write samples n ?r = Done (rt_ring (?t\<lparr>rt_ring := r1\<lparr>rb_data := data, rb_write_pos := (rb_write_pos r1 + fl) mod ?cap,
      rb_buffered := rb_buffered r1 + fl\<rparr>, rt_writer := W_idle, rt_written := rt_written ?t @ take (unat fl) xs\<rparr>),
      if n * ?ch > ?cap then rb_capacity_frames ?r else n)"
      using False c r1(1,3) d ok(1) by (auto simp: rb_write_def clip_def Let_def u32_mod_Done split: if_splits)
  qed (simp_all add: t_def)
qed

text \<open>A read up to the point where it has copied its floats, and its last two steps.\<close>

definition after_copy :: "u32 \<Rightarrow> Threads \<Rightarrow> Threads" where
  "after_copy k s = s\<lparr>rt_reader := R_store_read_pos k (rb_read_pos (rt_ring s)),
     rt_dest := ring_seq (rb_data (rt_ring s)) (unat (rb_read_pos (rt_ring s))) (unat k)\<rparr>"

lemma reader_reaches_copy:
  fixes s n
  defines "k \<equiv> min (n * rb_channels (rt_ring s)) (rb_buffered (rt_ring s))"
  assumes "rb_ok (rt_ring s)" and "k \<noteq> 0"
  shows "alone ReaderStep (s\<lparr>rt_reader := R_load_buffered n, rt_dest := []\<rparr>) (after_copy k s)"
proof -
  let ?r = "rt_ring s" and ?t = "\<lambda>p xs. s\<lparr>rt_reader := p, rt_dest := xs\<rparr>"
  let ?xs = "ring_seq (rb_data ?r) (unat (rb_read_pos ?r)) (unat k)"
  have ok: "length (rb_data ?r) = unat (rb_capacity_floats ?r)"
    "unat (rb_read_pos ?r) < unat (rb_capacity_floats ?r)" "unat (rb_buffered ?r) \<le> unat (rb_capacity_floats ?r)"
    using assms(2) by (simp_all add: rb_ok_def)
  then have "unat k \<le> unat (rb_capacity_floats ?r)"
    by (simp add: k_def min_def word_le_nat_alt)
  then have s3: "alone ReaderStep (?t (R_copy k (rb_read_pos ?r) 0) []) (?t (R_copy k (rb_read_pos ?r) (unat k)) ?xs)"
    using reader_copies [of "?t (R_copy k (rb_read_pos ?r) 0) []" ?r k "rb_read_pos ?r" "unat k"] ok by simp
  have s1: "thread_action ReaderStep (?t (R_load_buffered n) []) = Done (?t (R_load_read_pos k) [])"
    using assms(3) by (simp add: thread_action_def reader_step_def Let_def k_def)
  have s2: "thread_action ReaderStep (?t (R_load_read_pos k) []) = Done (?t (R_copy k (rb_read_pos ?r) 0) [])"
    by (simp add: thread_action_def reader_step_def Let_def)
  have s4: "thread_action ReaderStep (?t (R_copy k (rb_read_pos ?r) (unat k)) ?xs) = Done (after_copy k s)"
    by (simp add: thread_action_def reader_step_def after_copy_def Let_def)
  show ?thesis
    by (rule repeats_step [OF s1 repeats_step [OF s2 repeats_snoc [OF s3 s4]]])
qed

lemma reader_last_steps:
  assumes "rt_reader s = R_store_read_pos k rp" and "0 < unat (rb_capacity_floats (rt_ring s))"
  shows "run_threads [ReaderStep, ReaderStep] s = Done (s\<lparr>rt_ring := (rt_ring s)\<lparr>
     rb_read_pos := (rp + k) mod rb_capacity_floats (rt_ring s), rb_buffered := rb_buffered (rt_ring s) - k\<rparr>,
     rt_reader := R_idle, rt_read := rt_read s @ rt_dest s\<rparr>)"
  using assms by (simp add: thread_action_def reader_step_def u32_mod_Done Let_def)

lemma reader_finishes:
  fixes s n
  defines "k \<equiv> min (n * rb_channels (rt_ring s)) (rb_buffered (rt_ring s))"
  defines "xs \<equiv> ring_seq (rb_data (rt_ring s)) (unat (rb_read_pos (rt_ring s))) (unat k)"
    and "rp \<equiv> (rb_read_pos (rt_ring s) + k) mod rb_capacity_floats (rt_ring s)"
  assumes "rb_ok (rt_ring s)" and "k \<noteq> 0"
  shows "alone ReaderStep (s\<lparr>rt_reader := R_load_buffered n, rt_dest := []\<rparr>)
     (s\<lparr>rt_ring := (rt_ring s)\<lparr>rb_read_pos := rp, rb_buffered := rb_buffered (rt_ring s) - k\<rparr>,
        rt_reader := R_idle, rt_dest := xs, rt_read := rt_read s @ xs\<rparr>)" (is "alone _ _ ?end")
proof -
  let ?t = "after_copy k s"
  have start: "alone ReaderStep (s\<lparr>rt_reader := R_load_buffered n, rt_dest := []\<rparr>) ?t"
    using reader_reaches_copy [of s n] assms(4,5) by (simp add: k_def)
  have "run_threads [ReaderStep, ReaderStep] ?t = Done ?end"
    using reader_last_steps [of ?t k] assms(4) by (simp add: after_copy_def rb_ok_def xs_def rp_def)
  then show ?thesis
    by (auto simp: outcome_simps intro: repeats_snoc [OF repeats_snoc [OF start]])
qed

lemma reader_alone:
  assumes "rb_ok (rt_ring s)" and "rt_reader s = R_idle"
  obtains xs s' m where "rb_read n (rt_ring s) = Done (xs, m, rt_ring s')" and "alone ReaderStep (call_read n s) s'"
    and "rt_reader s' = R_idle" and "rt_writer s' = rt_writer s" and "rt_read s' = rt_read s @ xs"
    and "rt_written s' = rt_written s"
proof (cases "n = 0")
  case True
  then show thesis
    using that [of "[]" 0 s] assms(2) by (simp add: rb_read_def call_read_def repeats_refl)
next
  case False
  let ?r = "rt_ring s" and ?k = "min (n * rb_channels (rt_ring s)) (rb_buffered (rt_ring s))"
  let ?cap = "rb_capacity_floats (rt_ring s)" and ?t = "\<lambda>p. s\<lparr>rt_reader := p, rt_dest := []\<rparr>"
  have call: "call_read n s = ?t (R_load_buffered n)"
    using False by (simp add: call_read_def)
  show thesis
  proof (cases "?k = 0")
    case True
    then have "thread_action ReaderStep (?t (R_load_buffered n)) = Done (?t R_idle)"
      by (simp add: thread_action_def reader_step_def Let_def)
    then have "alone ReaderStep (call_read n s) (?t R_idle)"
      unfolding call by (blast intro: repeats_step repeats_refl)
    then show thesis
      using that [of "[]" 0 "?t R_idle"] True by (simp add: rb_read_def Let_def)
  next
    case kpos: False
    let ?xs = "ring_seq (rb_data ?r) (unat (rb_read_pos ?r)) (unat ?k)"
    have "0 < unat ?cap" "rb_read_pos ?r < ?cap" "?k \<le> ?cap" "length (rb_data ?r) = unat ?cap"
      using assms(1) by (simp_all add: rb_ok_def word_less_nat_alt word_le_nat_alt min_def)
    then have read: "rb_read n ?r = Done (?xs, ?k div rb_channels ?r,
        ?r\<lparr>rb_read_pos := (rb_read_pos ?r + ?k) mod ?cap, rb_buffered := rb_buffered ?r - ?k\<rparr>)"
      using False kpos rb_ok_channels [OF assms(1)] copy_from_ring_eq [of "rb_data ?r" ?cap "rb_read_pos ?r" ?k]
      by (simp add: rb_read_def Let_def u32_mod_Done u32_div_Done)
    show thesis
      by (rule that [OF _ reader_finishes [OF assms(1) kpos, folded call]]) (simp_all add: read)
  qed
qed

section \<open>A write that makes room during a read\<close>

lemma run_threads_append: "run_threads (as @ bs) s = and_then (run_threads as s) (run_threads bs)"
proof (induction as arbitrary: s)
  case (Cons a as)
  then have "run_threads (as @ bs) = (\<lambda>s. and_then (run_threads as s) (run_threads bs))"
    by (rule ext)
  then show ?case by (simp add: and_then_assoc)
qed simp

lemma rb_write_position:
  assumes "rb_ok r" and "unat n * unat (rb_channels r) \<le> unat (rb_capacity_floats r)"
    and "rb_write samples n r = Done (r', m)"
  shows "unat (rb_write_pos r') = (unat (rb_write_pos r) + unat n * unat (rb_channels r)) mod unat (rb_capacity_floats r)"
proof (cases "n = 0")
  case True
  with assms(1,3) show ?thesis
    by (auto simp: rb_write_def rb_ok_def)
next
  case False
  have small: "unat (rb_capacity_floats r) < 2147483648" "unat (rb_write_pos r) < unat (rb_capacity_floats r)"
    using assms(1) by (simp_all add: rb_ok_def)
  then have nf: "unat (n * rb_channels r) = unat n * unat (rb_channels r)"
    using assms(2) by (simp add: unat_mult_no_wrap)
  then have le: "\<not> rb_capacity_floats r < n * rb_channels r"
    using assms(2) by (simp add: word_less_nat_alt)
  obtain r1 where r1: "rb_make_room (n * rb_channels r) r = Done r1" "rb_write_pos r1 = rb_write_pos r"
    "rb_capacity_floats r1 = rb_capacity_floats r" "rb_write_pos r' = (rb_write_pos r + n * rb_channels r) mod rb_capacity_floats r"
    using assms(3) False le small
    by (auto simp: rb_write_def rb_make_room_def Let_def outcome_simps u32_mod_Done split: if_splits)
  show ?thesis
    using assms(2) small by (simp add: r1(4) unat_mod_word unat_plus_no_wrap nf)
qed

text \<open>
  The reader has copied \<open>k\<close> floats; the writer drops \<open>e\<close> floats and fills the ring; the reader then moves the
  position it loaded before. The positions are \<open>e\<close> cells apart from where they belong: what the ring hands out
  next is the right content rotated by \<open>e\<close>.
\<close>

lemma rotated_content:
  assumes "rb_ok r2" and "rb_buffered r2 = rb_capacity_floats r2" and "k \<le> unat (rb_capacity_floats r2)"
    and "e \<le> k + unat (rb_capacity_floats r2)"
    and "unat (rb_read_pos r2) = (rp + e) mod unat (rb_capacity_floats r2)"
  shows "ring_seq (rb_data r2) (rp + k) (unat (rb_capacity_floats r2) - k)
      = take (unat (rb_capacity_floats r2) - k) (rotate (unat (rb_capacity_floats r2) + k - e) (rb_content r2))"
proof (rule nth_equalityI)
  let ?cap = "unat (rb_capacity_floats r2)"
  have len: "length (rb_data r2) = ?cap" "length (rb_content r2) = ?cap"
    using assms(1,2) by (simp_all add: rb_ok_def)
  then show "length (ring_seq (rb_data r2) (rp + k) (?cap - k)) = length (take (?cap - k) (rotate (?cap + k - e) (rb_content r2)))"
    by simp
  fix i
  assume "i < length (ring_seq (rb_data r2) (rp + k) (?cap - k))"
  then have i: "i < ?cap - k" by simp
  then have pos: "0 < ?cap" by simp
  have "rotate (?cap + k - e) (rb_content r2) ! i = rb_content r2 ! ((?cap + k - e + i) mod ?cap)"
    using i by (subst nth_rotate) (simp_all add: assms(2))
  also have "\<dots> = rb_data r2 ! (((rp + e) mod ?cap + (?cap + k - e + i) mod ?cap) mod ?cap)"
    using pos by (simp add: rb_content_def len assms(2,5))
  also have "((rp + e) mod ?cap + (?cap + k - e + i) mod ?cap) mod ?cap = (rp + e + (?cap + k - e + i)) mod ?cap"
    by (rule mod_add_eq)
  also have "rp + e + (?cap + k - e + i) = rp + k + i + ?cap"
    using assms(4) by simp
  also have "(rp + k + i + ?cap) mod ?cap = (rp + k + i) mod ?cap"
    by simp
  finally show "ring_seq (rb_data r2) (rp + k) (?cap - k) ! i = take (?cap - k) (rotate (?cap + k - e) (rb_content r2)) ! i"
    using i by (simp add: len)
qed

lemma rotated_cases:
  assumes "length xs = cap" and "k \<le> cap" and "e < cap"
  shows "take (cap - k) (rotate (cap + k - e) xs)
      = (if k < e then drop (cap - (e - k)) xs @ take (cap - e) xs else take (cap - k) (drop (k - e) xs))"
proof (cases "k < e")
  case True
  then have "(cap + k - e) mod cap = cap - (e - k)"
    using assms(3) by simp
  with True assms show ?thesis
    by (simp add: rotate_drop_take)
next
  case False
  then have "(cap + k - e) mod cap = (k - e) mod cap"
    by (metis Nat.add_diff_assoc mod_add_self1 not_less)
  then have "rotate (cap + k - e) xs = rotate (k - e) xs"
    using assms(1) rotate_conv_mod by metis
  moreover have "take (cap - k) (rotate (k - e) xs) = take (cap - k) (drop (k - e) xs)"
    using assms False by (cases "k - e < cap") (auto simp: rotate_drop_take)
  ultimately show ?thesis
    using False by simp
qed

text \<open>A write that overflows leaves a full ring that starts \<open>e\<close> cells further on.\<close>

lemma overflowing_write:
  fixes r :: RingBuffer
  defines "cap \<equiv> unat (rb_capacity_floats r)" and "c \<equiv> unat (rb_channels r)"
  assumes "rb_ok r" and "rb_write block n r = Done (r2, m)" and "unat n * c \<le> cap" and "unat n * c \<le> length block"
    and "unat (rb_buffered r) + unat n * c = cap + e"
  shows "rb_ok r2" and "rb_capacity_floats r2 = rb_capacity_floats r" and "rb_buffered r2 = rb_capacity_floats r"
    and "rb_content r2 = last_n cap (rb_content r @ take (unat n * c) block)"
    and "unat (rb_read_pos r2) = (unat (rb_read_pos r) + e) mod cap"
proof -
  note ok = assms(3) [unfolded rb_ok_def]
  have "unat n * unat (rb_channels r) < 4294967296"
    using ok assms(5) by (simp add: cap_def c_def)
  from rb_write_spec [OF assms(3) this, of block] have shape: "rb_shape r2 = rb_shape r"
    and ok2: "rb_ok r2" and content: "rb_content r2 = last_n cap (rb_content r @ take (unat n * c) block)"
    using assms(4,6) by (auto simp: cap_def c_def)
  then show "rb_ok r2" and "rb_content r2 = last_n cap (rb_content r @ take (unat n * c) block)"
    by simp_all
  have cap2: "unat (rb_capacity_floats r2) = cap"
    using shape ok ok2 by (simp add: rb_shape_def rb_ok_def cap_def)
  then show "rb_capacity_floats r2 = rb_capacity_floats r"
    by (simp add: cap_def word_unat_eq_iff)
  have "unat (rb_buffered r2) = length (rb_content r2)"
    by simp
  also have "\<dots> = cap"
    using assms(6,7) by (simp add: content del: length_rb_content) (simp add: assms(7))
  finally show b2: "rb_buffered r2 = rb_capacity_floats r"
    by (simp add: cap_def word_unat_eq_iff)
  then have "unat (rb_read_pos r2) = unat (rb_write_pos r2)"
    using ok2 cap2 by (simp add: rb_ok_def cap_def)
  also have "\<dots> = (unat (rb_write_pos r) + unat n * c) mod cap"
    using rb_write_position [OF assms(3) _ assms(4)] assms(5) by (simp add: c_def cap_def)
  also have "\<dots> = (unat (rb_read_pos r) + unat (rb_buffered r) + unat n * c) mod cap"
    using ok by (simp add: cap_def mod_add_left_eq)
  also have "unat (rb_read_pos r) + unat (rb_buffered r) + unat n * c = unat (rb_read_pos r) + e + cap"
    using assms(7) by simp
  finally show "unat (rb_read_pos r2) = (unat (rb_read_pos r) + e) mod cap"
    by simp
qed

text \<open>What the last two steps of the read make of such a ring.\<close>

lemma torn_ring:
  fixes r2 :: RingBuffer
  defines "cap \<equiv> unat (rb_capacity_floats r2)"
  assumes "rb_ok r2" and "rb_buffered r2 = rb_capacity_floats r2" and "unat kw \<le> cap" and "unat rp < cap"
    and "0 < e" and "e < cap" and "unat (rb_read_pos r2) = (unat rp + e) mod cap"
    and "r3 = r2\<lparr>rb_read_pos := (rp + kw) mod rb_capacity_floats r2, rb_buffered := rb_capacity_floats r2 - kw\<rparr>"
  shows "rb_content r3 = take (cap - unat kw) (rotate (cap + unat kw - e) (rb_content r2))" and "\<not> rb_ok r3"
proof -
  note ok = assms(2) [unfolded rb_ok_def, folded cap_def]
  have rp3: "unat (rb_read_pos r3) = (unat rp + unat kw) mod cap"
    using ok assms(4,5) by (simp add: assms(9) unat_mod_word unat_plus_no_wrap cap_def)
  have b3: "unat (rb_buffered r3) = cap - unat kw"
    using assms(4) by (simp add: assms(9) cap_def unat_minus_no_wrap)
  have len: "length (rb_data r2) = cap"
    using ok by simp
  have "rb_content r3 = ring_seq (rb_data r2) (unat rp + unat kw) (cap - unat kw)"
    by (simp add: rb_content_def rp3 b3) (simp add: assms(9) ring_seq_mod [OF len])
  then show "rb_content r3 = take (cap - unat kw) (rotate (cap + unat kw - e) (rb_content r2))"
    using rotated_content [OF assms(2,3), folded cap_def, of "unat kw" e "unat rp"] assms(4,7,8) by simp
  show "\<not> rb_ok r3"
  proof
    assume "rb_ok r3"
    then have "unat (rb_write_pos r3) = ((unat rp + unat kw) mod cap + (cap - unat kw)) mod cap"
      by (simp add: rb_ok_def rp3 b3) (simp add: assms(9) cap_def)
    also have "\<dots> = (unat rp + unat kw + (cap - unat kw)) mod cap"
      by (rule mod_add_left_eq)
    also have "\<dots> = unat rp mod cap"
      using assms(4) by simp
    finally have "(unat rp + e) mod cap = unat rp mod cap"
      using ok assms(3,5,8) by (simp add: assms(9) cap_def)
    then show False
      using mod_distinct [of "unat rp" "unat rp + e" cap] assms(6,7) by simp
  qed
qed

lemma overflow_during_read:
  fixes s :: Threads
  defines "r \<equiv> rt_ring s"
  defines "cap \<equiv> unat (rb_capacity_floats r)" and "c \<equiv> unat (rb_channels r)"
  assumes "rb_ok r" and "rt_writer s = W_idle" and "rt_reader s = R_idle"
    and "unat m * c < 2 ^ 32" and "k = min (unat m * c) (unat (rb_buffered r))" and "0 < k"
    and "unat n * c \<le> cap" and "unat n * c \<le> length block"
    and "unat (rb_buffered r) + unat n * c = cap + e" and "0 < e" and "e < cap"
  shows "\<exists>i j s'. run_threads ([CallRead m] @ replicate i ReaderStep @ [CallWrite block n] @ replicate j WriterStep
        @ [ReaderStep, ReaderStep]) s = Done s'
    \<and> rt_writer s' = W_idle \<and> rt_reader s' = R_idle \<and> rt_read s' = rt_read s @ take k (rb_content r)
    \<and> rb_content (rt_ring s') = take (cap - k) (rotate (cap + k - e) (last_n cap (rb_content r @ take (unat n * c) block)))
    \<and> \<not> rb_ok (rt_ring s')"
proof -
  let ?k = "min (m * rb_channels r) (rb_buffered r)"
  have pos: "0 < cap" "cap < 2147483648" "unat (rb_buffered r) \<le> cap" "unat (rb_read_pos r) < cap"
    using assms(4) by (simp_all add: cap_def rb_ok_def)
  have k: "unat ?k = k"
    using assms(7,8) by (simp add: c_def min_def word_le_nat_alt unat_mult_no_wrap)
  have k_le: "k \<le> unat (rb_buffered r)" and m0: "m \<noteq> 0" and k0: "?k \<noteq> 0"
    using assms(8,9) k by (auto simp: min_def split: if_splits)
  let ?s1 = "after_copy ?k s"
  have "alone ReaderStep (call_read m s) ?s1"
    using reader_reaches_copy [of s m] assms(4) k0 m0 by (simp add: call_read_def r_def)
  then obtain i where i: "run_threads (replicate i ReaderStep) (call_read m s) = Done ?s1"
    using alone_run by blast
  have s1: "rt_ring ?s1 = r" "rt_writer ?s1 = W_idle" "rt_reader ?s1 = R_store_read_pos ?k (rb_read_pos r)"
    "rt_dest ?s1 = take k (rb_content r)" "rt_read ?s1 = rt_read s"
    using assms(5) k_le by (simp_all add: after_copy_def r_def [symmetric] k rb_content_def take_ring_seq)
  have "proper_call (rb_channels r) (CallWrite block n)"
    using assms(10,11) pos(2) by (simp add: proper_call_def c_def)
  then obtain s2 m2 where w: "rb_write block n r = Done (rt_ring s2, m2)" "alone WriterStep (call_write block n ?s1) s2"
    and s2: "rt_writer s2 = W_idle" "rt_reader s2 = R_store_read_pos ?k (rb_read_pos r)" "rt_read s2 = rt_read s"
      "rt_dest s2 = take k (rb_content r)"
    using writer_alone [of ?s1 block n] assms(4) s1 by metis
  obtain j where j: "run_threads (replicate j WriterStep) (call_write block n ?s1) = Done s2"
    using alone_run [OF w(2)] by blast
  note r2 = overflowing_write [OF assms(4) w(1), folded cap_def c_def, OF assms(10-12)]
  define r3 where "r3 = (rt_ring s2)\<lparr>rb_read_pos := (rb_read_pos r + ?k) mod rb_capacity_floats (rt_ring s2),
     rb_buffered := rb_capacity_floats (rt_ring s2) - ?k\<rparr>"
  define s3 where "s3 = s2\<lparr>rt_ring := r3, rt_reader := R_idle, rt_read := rt_read s @ take k (rb_content r)\<rparr>"
  have last: "run_threads [ReaderStep, ReaderStep] s2 = Done s3"
    using reader_last_steps [OF s2(2)] pos(1) s2(3,4) r2(2,3)
    by (simp add: s3_def r3_def cap_def del: run_threads.simps)
  have reading: "run_threads [CallRead m] s = Done (call_read m s)"
    and writing: "run_threads [CallWrite block n] ?s1 = Done (call_write block n ?s1)"
    using assms(6) s1(2) by (simp_all add: thread_action_def)
  have "run_threads ([CallRead m] @ replicate i ReaderStep @ [CallWrite block n] @ replicate j WriterStep
        @ [ReaderStep, ReaderStep]) s = Done s3"
    by (simp only: run_threads_append i j last and_then.simps reading writing)
  moreover have "rb_content r3 = take (cap - k) (rotate (cap + k - e) (last_n cap (rb_content r @ take (unat n * c) block)))"
    and "\<not> rb_ok r3"
    using torn_ring [OF r2(1) _ _ _ assms(13) _ _ r3_def] r2(2-5) pos k k_le assms(14) by (simp_all add: cap_def)
  ultimately show ?thesis
    using s2(1) by (intro exI [of _ i] exI [of _ j] exI [of _ s3]) (simp add: s3_def)
qed

section \<open>Properties\<close>

lemmas thread_run_simps = replicate_steps thread_action_def call_write_def writer_step_def call_read_def call_flush_def reader_step_def flush_step_def
  ring_index_def new_Threads_def new_RingBuffer_def u32_mod_def elem_at_def mem_write_def Let_def

text \<open>C20: however the steps of one writing and one reading thread interleave, as long as the writer never finds
  the ring too full no access leaves the ring, the floats read are the first of those written, in order,
  the fill level is exactly the number still to be read, what an unfinished read has copied is the
  front of those, and outside a read they are what the ring holds.\<close>

theorem ring_buffer_threads_fifo:
  assumes "0 < unat frames * unat channels" and "unat frames * unat channels < 2147483648"
    and "list_all (proper_call channels) as"
    and "never_full as (new_Threads (new_RingBuffer frames channels))"
  shows "\<exists>s rest. run_threads as (new_Threads (new_RingBuffer frames channels)) = Done s
     \<and> rt_written s = rt_read s @ rest \<and> length rest = unat (rb_buffered (rt_ring s))
     \<and> (if rt_reader s = R_idle then rb_content (rt_ring s) = rest else prefix (rt_dest s) rest)"
proof -
  let ?s = "new_Threads (new_RingBuffer frames channels)"
  have "rb_channels (rt_ring ?s) = channels"
    by (simp add: new_Threads_def new_RingBuffer_def)
  then obtain s where "run_threads as ?s = Done s" "threads_ok s"
    using run_threads_ok [OF threads_ok_new [OF assms(1,2)] _ assms(4)] assms(3) by (auto elim: yieldsE)
  then show ?thesis
    by (metis threads_ok_content)
qed

theorem ring_buffer_threads_fifo_witness:
  "\<exists>s rest. run_threads ([CallWrite [1, 2, 3] 3] @ replicate 7 WriterStep @ [CallRead 2] @ replicate 3 ReaderStep
       @ [CallWrite [4] 1] @ replicate 4 WriterStep @ replicate 3 ReaderStep @ replicate 3 WriterStep)
     (new_Threads (new_RingBuffer 4 1)) = Done s \<and> rt_written s = rt_read s @ rest"
proof -
  let ?as = "[CallWrite [1, 2, 3] 3] @ replicate 7 WriterStep @ [CallRead 2] @ replicate 3 ReaderStep
       @ [CallWrite [4] 1] @ replicate 4 WriterStep @ replicate 3 ReaderStep @ replicate 3 WriterStep"
  have "list_all (proper_call 1) ?as"
    by (simp add: proper_call_def replicate_steps)
  moreover have "never_full ?as (new_Threads (new_RingBuffer 4 1))"
    by (simp add: thread_run_simps)
  ultimately show ?thesis
    using ring_buffer_threads_fifo [of 4 1 ?as] by auto
qed

text \<open>C27: when a write makes room after a read has copied its \<open>k\<close> floats and before that read stores its
  position, both threads move the read position and reduce the fill level for the same floats. From any
  ring in order, with \<open>e\<close> floats too many (but not a whole ring of them), the calls end with positions
  that do not fit each other, and what the ring then holds, and hands out next, is the right content
  rotated by \<open>e\<close>: for \<open>k < e\<close> the newest floats come first, otherwise the newest \<open>e\<close> are not counted.\<close>

theorem ring_buffer_overflow_race:
  fixes s :: Threads
  defines "r \<equiv> rt_ring s"
  defines "cap \<equiv> unat (rb_capacity_floats r)" and "c \<equiv> unat (rb_channels r)"
  defines "L n block \<equiv> last_n cap (rb_content r @ take (unat n * c) block)"
  assumes "rb_ok r" and "rt_writer s = W_idle" and "rt_reader s = R_idle"
    and "unat m * c < 2 ^ 32" and "k = min (unat m * c) (unat (rb_buffered r))" and "0 < k"
    and "unat n * c \<le> cap" and "unat n * c \<le> length block"
    and "unat (rb_buffered r) + unat n * c = cap + e" and "0 < e" and "e < cap"
  shows "\<exists>i j s'. run_threads ([CallRead m] @ replicate i ReaderStep @ [CallWrite block n] @ replicate j WriterStep
        @ [ReaderStep, ReaderStep]) s = Done s'
    \<and> rt_writer s' = W_idle \<and> rt_reader s' = R_idle \<and> rt_read s' = rt_read s @ take k (rb_content r)
    \<and> rb_content (rt_ring s') = (if k < e then drop (cap - (e - k)) (L n block) @ take (cap - e) (L n block)
        else take (cap - k) (drop (k - e) (L n block)))
    \<and> \<not> rb_ok (rt_ring s')"
proof -
  have "unat (rb_buffered r) \<le> cap"
    using assms(5) by (simp add: rb_ok_def cap_def)
  then have k: "k \<le> cap"
    using assms(9) by simp
  have len: "length (L n block) = cap"
    using assms(12,13) by (simp add: L_def)
  have "take (cap - k) (rotate (cap + k - e) (L n block))
      = (if k < e then drop (cap - (e - k)) (L n block) @ take (cap - e) (L n block)
         else take (cap - k) (drop (k - e) (L n block)))"
    using rotated_cases [OF len k] assms(15) by simp
  then show ?thesis
    using overflow_during_read [of s m k n block e] assms unfolding L_def r_def cap_def c_def by simp
qed

text \<open>Six floats for a ring of four: the reader gets the 1, the writer drops 1 and 2, and next comes the 6.\<close>

definition full_ring :: Threads where
  "full_ring = new_Threads ((new_RingBuffer 4 1)\<lparr>rb_data := [1, 2, 3, 4], rb_buffered := 4\<rparr>)"

theorem ring_buffer_overflow_race_witness:
  "\<exists>i j s'. run_threads ([CallRead 1] @ replicate i ReaderStep @ [CallWrite [5, 6] 2] @ replicate j WriterStep
        @ [ReaderStep, ReaderStep]) full_ring = Done s'
    \<and> rt_read s' = [1] \<and> rb_content (rt_ring s') = [6, 3, 4] \<and> \<not> rb_ok (rt_ring s')"
proof -
  let ?r = "(new_RingBuffer 4 1)\<lparr>rb_data := [1, 2, 3, 4], rb_buffered := 4\<rparr>"
  have f: "rt_ring full_ring = ?r" "rt_writer full_ring = W_idle" "rt_reader full_ring = R_idle" "rt_read full_ring = []"
    by (simp_all add: full_ring_def new_Threads_def)
  have r: "rb_ok ?r" "unat (rb_capacity_floats ?r) = 4" "unat (rb_channels ?r) = 1" "unat (rb_buffered ?r) = 4"
    by (simp_all add: rb_ok_def new_RingBuffer_def)
  have content: "rb_content ?r = [1, 2, 3, 4]"
    by (simp add: rb_content_def new_RingBuffer_def ring_seq_def upt_rec)
  have "last_n 4 ([1, 2, 3, 4] @ take (unat (2 :: u32) * 1) [5, 6]) = [3, 4, 5, 6 :: sample]"
    by (simp add: last_n_def)
  from ring_buffer_overflow_race [of full_ring 1 1 2 "[5, 6]" 2, unfolded f r content this] r(1) show ?thesis
    by (simp del: run_threads.simps replicate.simps) (elim exE conjE, intro exI conjI, assumption+)
qed

text \<open>
  The end of a longer run: the host writes 1 to 10, at no time more than two of them too many, and the
  reader gets 9 and 10 before 7 and 8.
\<close>

lemma ring_buffer_overflow_run:
  "case run_threads
      ([CallWrite [1, 2, 3, 4] 4] @ replicate 10 WriterStep @ [CallRead 4] @ replicate 6 ReaderStep
       @ [CallWrite [5, 6] 2] @ replicate 10 WriterStep @ replicate 3 ReaderStep
       @ [CallWrite [7, 8, 9, 10] 4] @ replicate 10 WriterStep @ [CallRead 4] @ replicate 9 ReaderStep)
      (new_Threads (new_RingBuffer 4 1)) of
     Done s \<Rightarrow> rt_writer s = W_idle \<and> rt_reader s = R_idle \<and> rt_written s = [1, 2, 3, 4, 5, 6, 7, 8, 9, 10]
       \<and> rt_read s = [1, 2, 3, 4, 9, 10, 7, 8] \<and> \<not> rb_ok (rt_ring s)
   | _ \<Rightarrow> False"
  by (simp add: thread_run_simps rb_ok_def)

text \<open>C22: a thread that the other one does not interrupt implements the queue with its single accesses: after
  the steps of a write the ring holds the old content and the block, less the oldest floats that no
  longer fit; those of a read take the oldest floats out and hand them to the reader; those of a flush leave
  nothing. Each call ends, and the ring is in order again.\<close>

theorem ring_buffer_steps_refine_queue:
  fixes s :: Threads
  defines "c \<equiv> unat (rb_channels (rt_ring s))"
  assumes "rb_ok (rt_ring s)" and "rt_writer s = W_idle" and "rt_reader s = R_idle"
    and "unat n * c < 2 ^ 32" and "unat n * c \<le> length samples"
  shows "(\<exists>k s'. run_threads (CallWrite samples n # replicate k WriterStep) s = Done s' \<and> rt_writer s' = W_idle
        \<and> rb_ok (rt_ring s') \<and> rb_content (rt_ring s')
            = last_n (unat (rb_capacity_floats (rt_ring s))) (rb_content (rt_ring s) @ take (unat n * c) samples))
    \<and> (\<exists>k s'. run_threads (CallRead n # replicate k ReaderStep) s = Done s' \<and> rt_reader s' = R_idle
        \<and> rb_ok (rt_ring s') \<and> rt_read s' = rt_read s @ take (unat n * c) (rb_content (rt_ring s))
        \<and> rb_content (rt_ring s') = drop (unat n * c) (rb_content (rt_ring s)))
    \<and> (\<exists>k s'. run_threads (CallFlush # replicate k ReaderStep) s = Done s' \<and> rt_reader s' = R_idle
        \<and> rb_ok (rt_ring s') \<and> rb_content (rt_ring s') = [])"
proof (intro conjI)
  have proper: "proper_call (rb_channels (rt_ring s)) (CallWrite samples n)"
    and n32: "unat n * unat (rb_channels (rt_ring s)) < 4294967296"
    using assms(5,6) by (simp_all add: proper_call_def c_def)
  obtain s' m where w: "rb_write samples n (rt_ring s) = Done (rt_ring s', m)"
    "alone WriterStep (call_write samples n s) s'" "rt_writer s' = W_idle"
    using writer_alone [OF assms(2,3) proper] by metis
  then obtain k where "run_threads (replicate k WriterStep) (call_write samples n s) = Done s'"
    using alone_run by blast
  then show "\<exists>k s'. run_threads (CallWrite samples n # replicate k WriterStep) s = Done s' \<and> rt_writer s' = W_idle
      \<and> rb_ok (rt_ring s') \<and> rb_content (rt_ring s')
          = last_n (unat (rb_capacity_floats (rt_ring s))) (rb_content (rt_ring s) @ take (unat n * c) samples)"
    using w rb_write_spec [OF assms(2) n32, of samples] assms(3,6)
    by (intro exI [of _ k] exI [of _ s']) (auto simp: thread_action_def c_def)
next
  have n32: "unat n * unat (rb_channels (rt_ring s)) < 4294967296"
    using assms(5) by (simp add: c_def)
  obtain xs s' m where r: "rb_read n (rt_ring s) = Done (xs, m, rt_ring s')"
    "alone ReaderStep (call_read n s) s'" "rt_reader s' = R_idle" "rt_read s' = rt_read s @ xs"
    using reader_alone [OF assms(2,4)] by metis
  then obtain k where "run_threads (replicate k ReaderStep) (call_read n s) = Done s'"
    using alone_run by blast
  then show "\<exists>k s'. run_threads (CallRead n # replicate k ReaderStep) s = Done s' \<and> rt_reader s' = R_idle
      \<and> rb_ok (rt_ring s') \<and> rt_read s' = rt_read s @ take (unat n * c) (rb_content (rt_ring s))
      \<and> rb_content (rt_ring s') = drop (unat n * c) (rb_content (rt_ring s))"
    using r rb_read_spec [OF assms(2) n32] assms(4)
    by (intro exI [of _ k] exI [of _ s']) (auto simp: thread_action_def c_def)
next
  show "\<exists>k s'. run_threads (CallFlush # replicate k ReaderStep) s = Done s' \<and> rt_reader s' = R_idle
      \<and> rb_ok (rt_ring s') \<and> rb_content (rt_ring s') = []"
    using assms(4) rb_ok_flush [OF assms(2)] by (intro exI [of _ 3])
      (simp add: thread_action_def call_flush_def reader_step_def flush_step_def rb_flush_def replicate_steps Let_def)
qed

theorem ring_buffer_steps_refine_queue_witness:
  "(\<exists>k s'. run_threads (CallWrite [5, 6] 2 # replicate k WriterStep) full_ring = Done s' \<and> rb_content (rt_ring s') = [3, 4, 5, 6])
   \<and> (\<exists>k s'. run_threads (CallRead 2 # replicate k ReaderStep) full_ring = Done s' \<and> rt_read s' = [1, 2]
        \<and> rb_content (rt_ring s') = [3, 4])"
proof -
  let ?r = "(new_RingBuffer 4 1)\<lparr>rb_data := [1, 2, 3, 4], rb_buffered := 4\<rparr>"
  have f: "rt_ring full_ring = ?r" "rt_writer full_ring = W_idle" "rt_reader full_ring = R_idle" "rt_read full_ring = []"
    by (simp_all add: full_ring_def new_Threads_def)
  have r: "rb_ok ?r" "unat (rb_capacity_floats ?r) = 4" "unat (rb_channels ?r) = 1"
    by (simp_all add: rb_ok_def new_RingBuffer_def)
  have content: "rb_content ?r = [1, 2, 3, 4]"
    by (simp add: rb_content_def new_RingBuffer_def ring_seq_def upt_rec)
  show ?thesis
    using ring_buffer_steps_refine_queue [of full_ring 2 "[5, 6]", unfolded f r content] r(1)
    by (auto simp: last_n_def)
qed

text \<open>
  A flush that falls between the writer's last two steps drops the position of the block but not its
  length: the ring then counts as filled with floats nobody wrote, and every later float comes late.
\<close>

theorem ring_buffer_flush_race:
  "case run_threads
      ([CallWrite [1, 2, 3] 3] @ replicate 7 WriterStep @ [CallFlush] @ replicate 3 ReaderStep @ [WriterStep]
       @ [CallRead 3] @ replicate 9 ReaderStep @ [CallWrite [4, 5] 2] @ replicate 8 WriterStep
       @ [CallRead 2] @ replicate 9 ReaderStep)
      (new_Threads (new_RingBuffer 4 1)) of
     Done s \<Rightarrow> rt_writer s = W_idle \<and> rt_reader s = R_idle \<and> rt_written s = [1, 2, 3, 4, 5]
       \<and> rt_read s = [0, 1, 2, 3, 4] \<and> rb_buffered (rt_ring s) = 0 \<and> \<not> rb_ok (rt_ring s)
   | _ \<Rightarrow> False"
  by (simp add: thread_run_simps rb_ok_def)

end
