(* ===== verification/JitterBuffer.thy ===== *)
theory JitterBuffer
  imports Ring "HOL-Library.Signed_Division"
begin

text \<open>
  \<open>JitterBuffer\<close> of \<open>jitter_buffer.h\<close> and \<open>jitter_buffer.cpp\<close>: the playback buffer with its
  Filling/Playing states, overflow snap, overrun snap, underrun and drift correction. \<open>int32_t\<close> values
  are \<open>int\<close> with overflow a fault; the atomic \<open>fetch_add\<close> and \<open>fetch_sub\<close> wrap. A method is one step
  here (\<open>JitterThreads\<close> cuts a write into steps). Lemmas: the invariant, and a refinement
  to a specification on the list of buffered samples.
\<close>

unbundle bit_operations_syntax

section \<open>Definitions\<close>

record JitterBufferConfig =
  jc_sample_rate :: u32
  jc_num_channels :: u32
  jc_target_latency_ms :: u32
  jc_target_window_ms :: u32
  jc_min_latency_ms :: u32
  jc_max_latency_ms :: u32
  jc_capacity_ms :: u32
  jc_correction_interval :: u32

definition default_JitterBufferConfig :: JitterBufferConfig where
  "default_JitterBufferConfig =
     \<lparr>jc_sample_rate = 48000, jc_num_channels = 1, jc_target_latency_ms = 60, jc_target_window_ms = 20,
      jc_min_latency_ms = 10, jc_max_latency_ms = 200, jc_capacity_ms = 1000, jc_correction_interval = 16\<rparr>"

datatype JitterBufferState = Filling | Playing

record JitterBuffer =
  jb_data :: "sample list"
  jb_capacity :: u32
  jb_num_channels :: u32
  jb_sample_rate :: u32
  jb_target_low :: int
  jb_target_high :: int
  jb_target_centre :: int
  jb_min_samples :: int
  jb_max_samples :: int
  jb_write_pos :: u32
  jb_read_pos :: u32
  jb_state :: JitterBufferState
  jb_correction_interval :: u32
  jb_correction_counter :: u32
  jb_underrun_count :: u32
  jb_overrun_count :: u32
  jb_samples_dropped :: u32
  jb_samples_inserted :: u32
  jb_buffered :: int
  jb_overflow_flag :: bool

definition ms_to_samples :: "u32 \<Rightarrow> u32 \<Rightarrow> u32" where
  "ms_to_samples ms sample_rate = ms * sample_rate div 1000"

text \<open>\<open>static_cast<int32_t>\<close> of a \<open>uint32_t\<close>, and an atomic addition on \<open>int32_t\<close>.\<close>

definition i32_of :: "u32 \<Rightarrow> int" where
  "i32_of w = sint w"

definition i32_wrap :: "int \<Rightarrow> int" where
  "i32_wrap n = sint (word_of_int n :: u32)"

definition i32_div :: "int \<Rightarrow> int \<Rightarrow> int outcome" where
  "i32_div a b =
     (if b = 0 then Crash DivideByZero
      else if a = - i32_max - 1 \<and> b = - 1 then Crash SignedOverflow
      else Done (a sdiv b))"

definition new_JitterBuffer :: "JitterBufferConfig \<Rightarrow> JitterBuffer" where
  "new_JitterBuffer config =
     (let rate = jc_sample_rate config;
          capacity = ms_to_samples (jc_capacity_ms config) rate * jc_num_channels config;
          target_low_ms = jc_target_latency_ms config - jc_target_window_ms config div 2;
          target_high_ms = jc_target_latency_ms config + jc_target_window_ms config div 2 in
      \<lparr>jb_data = replicate (unat capacity) 0, jb_capacity = capacity, jb_num_channels = jc_num_channels config,
       jb_sample_rate = rate,
       jb_target_low = i32_of (ms_to_samples target_low_ms rate),
       jb_target_high = i32_of (ms_to_samples target_high_ms rate),
       jb_target_centre = i32_of (ms_to_samples (jc_target_latency_ms config) rate),
       jb_min_samples = i32_of (ms_to_samples (jc_min_latency_ms config) rate),
       jb_max_samples = i32_of (ms_to_samples (jc_max_latency_ms config) rate),
       jb_write_pos = 0, jb_read_pos = 0, jb_state = Filling,
       jb_correction_interval = jc_correction_interval config, jb_correction_counter = 0,
       jb_underrun_count = 0, jb_overrun_count = 0, jb_samples_dropped = 0, jb_samples_inserted = 0,
       jb_buffered = 0, jb_overflow_flag = False\<rparr>)"

text \<open>The write side.\<close>

definition jb_write :: "sample list \<Rightarrow> u32 \<Rightarrow> JitterBuffer \<Rightarrow> JitterBuffer outcome" where
  "jb_write src float_count b =
     (if float_count = 0 then Done b
      else
        let (src, n) = (if float_count > jb_capacity b
                        then (drop (unat (float_count - jb_capacity b)) src, jb_capacity b)
                        else (src, float_count));
            buf = jb_buffered b;
            b = (if (word_of_int buf :: u32) + n > jb_capacity b
                 then b\<lparr>jb_overflow_flag := True, jb_buffered := i32_of (jb_capacity b)\<rparr>
                 else b\<lparr>jb_buffered := i32_wrap (buf + i32_of n)\<rparr>);
            wp = jb_write_pos b in
        and_then (copy_to_ring (jb_capacity b) (jb_data b) wp src n) (\<lambda>data.
        and_then (u32_mod (wp + n) (jb_capacity b)) (\<lambda>wp.
          Done (b\<lparr>jb_data := data, jb_write_pos := wp\<rparr>))))"

text \<open>The snap that a set overflow flag causes at the start of a read.\<close>

definition jb_overflow_snap :: "JitterBuffer \<Rightarrow> JitterBuffer" where
  "jb_overflow_snap b =
     (if jb_overflow_flag b then
        let snap_floats = word_of_int (jb_target_centre b) * jb_num_channels b;
            wp = jb_write_pos b;
            rp = (if wp \<ge> snap_floats then wp - snap_floats else jb_capacity b - (snap_floats - wp)) in
        b\<lparr>jb_overflow_flag := False, jb_read_pos := rp, jb_buffered := i32_of snap_floats,
          jb_overrun_count := jb_overrun_count b + 1\<rparr>
      else b)"

text \<open>The snap of a reader that is too far behind, given the local \<open>buf\<close>.\<close>

definition jb_overrun_snap :: "JitterBuffer \<Rightarrow> JitterBuffer outcome" where
  "jb_overrun_snap b =
     (let snap_floats = word_of_int (jb_target_centre b) * jb_num_channels b :: u32 in
      and_then (i32_add (jb_buffered b) (- i32_of snap_floats)) (\<lambda>excess.
      and_then (u32_mod (jb_read_pos b + word_of_int excess) (jb_capacity b)) (\<lambda>rp.
        Done (b\<lparr>jb_read_pos := rp, jb_buffered := i32_wrap (jb_buffered b - excess),
                jb_overrun_count := jb_overrun_count b + 1\<rparr>))))"

text \<open>\<open>memset(dst, 0, ...)\<close> and the loops that zero the rest of the destination.\<close>

definition zero_fill :: "int \<Rightarrow> int \<Rightarrow> sample list \<Rightarrow> sample list outcome" where
  "zero_fill start stop dst = (if start < stop then mem_write dst (nat start) (replicate (nat (stop - start)) 0) else Done dst)"

definition silence :: "u32 \<Rightarrow> sample list \<Rightarrow> JitterBuffer \<Rightarrow> (bool \<times> sample list \<times> JitterBuffer) outcome" where
  "silence float_count dst b =
     and_then (mem_write dst 0 (replicate (unat float_count) 0)) (\<lambda>dst. Done (False, dst, b))"

text \<open>The loop that repeats the last frame: \<open>n\<close> rounds from index \<open>i\<close> on.\<close>

fun repeat_last :: "nat \<Rightarrow> int \<Rightarrow> int \<Rightarrow> int \<Rightarrow> int \<Rightarrow> sample list \<Rightarrow> sample list outcome" where
  "repeat_last 0 i real_floats last_start nc dst = Done dst"
| "repeat_last (Suc n) i real_floats last_start nc dst =
     (if nc = 0 then Crash DivideByZero
      else
        and_then (elem_at dst (nat (last_start + (i - real_floats) smod nc))) (\<lambda>x.
        and_then (mem_write dst (nat i) [x]) (\<lambda>dst.
          repeat_last n (i + 1) real_floats last_start nc dst)))"

text \<open>
  Taking \<open>consume\<close> floats out of the ring, \<open>output\<close> of them copied to the start of the destination
  before the position moves; what follows the copy in the destination is left to the continuation.
\<close>

definition jb_take :: "int \<Rightarrow> int \<Rightarrow> sample list \<Rightarrow> JitterBuffer \<Rightarrow> (sample list \<times> JitterBuffer) outcome" where
  "jb_take output consume dst b =
     and_then (copy_from_ring (jb_capacity b) (jb_data b) (jb_read_pos b) (word_of_int output)) (\<lambda>xs.
     and_then (mem_write dst 0 xs) (\<lambda>dst.
     and_then (u32_mod (jb_read_pos b + word_of_int consume) (jb_capacity b)) (\<lambda>rp.
       Done (dst, b\<lparr>jb_read_pos := rp, jb_buffered := i32_wrap (jb_buffered b - consume)\<rparr>))))"

definition jb_play :: "int \<Rightarrow> u32 \<Rightarrow> sample list \<Rightarrow> JitterBuffer \<Rightarrow> (bool \<times> sample list \<times> JitterBuffer) outcome" where
  "jb_play correction float_count dst b =
     (let nc = i32_of (jb_num_channels b);
          buf = jb_buffered b;
          floats_requested = i32_of float_count in
      if correction > 0 then
        and_then (i32_add floats_requested (correction * nc)) (\<lambda>floats_to_consume.
          let floats_to_consume = (if floats_to_consume > buf then buf else floats_to_consume);
              to_output = (if floats_requested > buf then buf else floats_requested) in
          and_then (jb_take to_output floats_to_consume dst b) (\<lambda>(dst, b).
          and_then (zero_fill to_output floats_requested dst) (\<lambda>dst.
            Done (True, dst, b\<lparr>jb_samples_dropped := jb_samples_dropped b + word_of_int correction\<rparr>))))
      else if correction < 0 then
        and_then (i32_add floats_requested (correction * nc)) (\<lambda>real_floats.
          let real_floats = (if real_floats < nc then nc else real_floats);
              real_floats = (if real_floats > buf then buf else real_floats);
              last_start = (if real_floats - nc < 0 then 0 else real_floats - nc) in
          and_then (jb_take real_floats real_floats dst b) (\<lambda>(dst, b).
          and_then (repeat_last (nat (floats_requested - real_floats)) real_floats real_floats last_start nc dst)
            (\<lambda>dst. Done (True, dst, b\<lparr>jb_samples_inserted := jb_samples_inserted b + word_of_int (- correction)\<rparr>))))
      else
        let to_read = (if floats_requested > buf then buf else floats_requested) in
        and_then (jb_take to_read to_read dst b) (\<lambda>(dst, b).
        and_then (zero_fill to_read floats_requested dst) (\<lambda>dst. Done (True, dst, b))))"

text \<open>
  The correction of this read, and the counter that lets one through every \<open>correction_interval\<close> reads.
\<close>

definition jb_correction :: "int \<Rightarrow> JitterBuffer \<Rightarrow> int \<times> JitterBuffer" where
  "jb_correction fill_samples b =
     (let correction = (if fill_samples < jb_target_low b then - 1
                        else if fill_samples > jb_target_high b then 1 else 0);
          counter = jb_correction_counter b + 1 in
      if counter < jb_correction_interval b then (0, b\<lparr>jb_correction_counter := counter\<rparr>)
      else (correction, b\<lparr>jb_correction_counter := 0\<rparr>))"

text \<open>The part of a read from the underrun check on, given the local \<open>fill_samples\<close>.\<close>

definition jb_play_from :: "JitterBuffer \<Rightarrow> int \<Rightarrow> sample list \<Rightarrow> u32 \<Rightarrow> (bool \<times> sample list \<times> JitterBuffer) outcome" where
  "jb_play_from b fill_samples dst n =
     (if fill_samples < jb_min_samples b then
        silence n dst (b\<lparr>jb_state := Filling, jb_underrun_count := jb_underrun_count b + 1\<rparr>)
      else let (correction, b) = jb_correction fill_samples b in jb_play correction n dst b)"

definition jb_read :: "sample list \<Rightarrow> u32 \<Rightarrow> JitterBuffer \<Rightarrow> (bool \<times> sample list \<times> JitterBuffer) outcome" where
  "jb_read dst float_count b =
     (if float_count = 0 then Done (True, dst, b)
      else
        let b = jb_overflow_snap b; nc = i32_of (jb_num_channels b) in
        and_then (i32_div (jb_buffered b) nc) (\<lambda>fill_samples.
        if jb_state b = Filling \<and> fill_samples < jb_target_low b then silence float_count dst b
        else
          let b = (if jb_state b = Filling then b\<lparr>jb_state := Playing, jb_correction_counter := 0\<rparr> else b) in
          and_then (if fill_samples > jb_max_samples b
                    then and_then (jb_overrun_snap b) (\<lambda>b. and_then (i32_div (jb_buffered b) nc) (\<lambda>f. Done (b, f)))
                    else Done (b, fill_samples))
            (\<lambda>(b, fill_samples). jb_play_from b fill_samples dst float_count)))"

text \<open>The level in milliseconds is floating-point arithmetic on two integers, passed in as \<open>to_ms\<close>.\<close>

record 'ms JitterBufferStats =
  js_fill_level_samples :: int
  js_fill_level_ms :: 'ms
  js_current_zone :: int
  js_underrun_count :: u32
  js_overrun_count :: u32
  js_samples_dropped :: u32
  js_samples_inserted :: u32
  js_state :: JitterBufferState

definition jb_get_stats :: "(int \<Rightarrow> u32 \<Rightarrow> 'ms) \<Rightarrow> JitterBuffer \<Rightarrow> 'ms JitterBufferStats outcome" where
  "jb_get_stats to_ms b =
     and_then (i32_div (jb_buffered b) (i32_of (jb_num_channels b))) (\<lambda>fill_samples.
       Done \<lparr>js_fill_level_samples = fill_samples, js_fill_level_ms = to_ms fill_samples (jb_sample_rate b),
             js_current_zone = (if fill_samples < jb_target_low b then - 1
                                else if fill_samples > jb_target_high b then 1 else 0),
             js_underrun_count = jb_underrun_count b, js_overrun_count = jb_overrun_count b,
             js_samples_dropped = jb_samples_dropped b, js_samples_inserted = jb_samples_inserted b,
             js_state = jb_state b\<rparr>)"

section \<open>Signed values in range\<close>

lemma i32_of_small: "unat w < 2147483648 \<Longrightarrow> i32_of w = int (unat w)"
  unfolding i32_of_def by (rule sint_u32_small)

lemma i32_wrap_small:
  assumes "0 \<le> n" and "n < 2147483648"
  shows "i32_wrap n = n"
proof -
  have "take_bit 32 n = n"
    using assms by (simp add: take_bit_int_eq_self_iff)
  moreover have "signed_take_bit 31 n = n"
    using assms by (simp add: signed_take_bit_int_eq_self_iff)
  ultimately show ?thesis
    using assms by (simp add: i32_wrap_def sint_uint unsigned_of_int)
qed

lemma i32_wrap_int: "n < 2147483648 \<Longrightarrow> i32_wrap (int n) = int n"
  by (rule i32_wrap_small) simp_all

lemma unat_word_of_int: "0 \<le> n \<Longrightarrow> n < 4294967296 \<Longrightarrow> unat (word_of_int n :: u32) = nat n"
  by (simp add: unsigned_of_int take_bit_int_eq_self)

lemma i32_div_nonneg: "0 \<le> a \<Longrightarrow> 0 < n \<Longrightarrow> i32_div a (int n) = Done (int (nat a div n))"
  by (simp add: i32_div_def sgn_if signed_divide_int_def nat_div_distrib zdiv_int)

section \<open>Invariant and abstraction\<close>

definition jb_ok :: "JitterBuffer \<Rightarrow> bool" where
  "jb_ok b \<longleftrightarrow>
     length (jb_data b) = unat (jb_capacity b) \<and> 0 < unat (jb_capacity b) \<and> unat (jb_capacity b) < 2147483648 \<and>
     unat (jb_write_pos b) < unat (jb_capacity b) \<and> unat (jb_read_pos b) < unat (jb_capacity b) \<and>
     0 \<le> jb_buffered b \<and> jb_buffered b \<le> int (unat (jb_capacity b)) \<and>
     (if jb_overflow_flag b then jb_buffered b = int (unat (jb_capacity b))
      else unat (jb_write_pos b) = (unat (jb_read_pos b) + nat (jb_buffered b)) mod unat (jb_capacity b))"

text \<open>
  What a configuration has to satisfy: at least one channel, a snap target that fits into the ring and
  does not exceed the overrun limit, and an underrun limit of at least one sample.
\<close>

definition snap_len :: "JitterBuffer \<Rightarrow> nat" where
  "snap_len b = nat (jb_target_centre b) * unat (jb_num_channels b)"

definition jb_config_ok :: "JitterBuffer \<Rightarrow> bool" where
  "jb_config_ok b \<longleftrightarrow>
     0 < unat (jb_num_channels b) \<and> 0 \<le> jb_target_centre b \<and> jb_target_centre b \<le> jb_max_samples b \<and>
     snap_len b \<le> unat (jb_capacity b) \<and> 0 < jb_min_samples b \<and> unat (jb_num_channels b) \<le> unat (jb_capacity b)"

text \<open>
  The samples a reader would get, oldest first. While the overflow flag is set the read position is
  stale and the ring holds a full capacity of samples that ends at the write position.
\<close>

definition jb_content :: "JitterBuffer \<Rightarrow> sample list" where
  "jb_content b =
     (if jb_overflow_flag b then ring_seq (jb_data b) (unat (jb_write_pos b)) (unat (jb_capacity b))
      else ring_seq (jb_data b) (unat (jb_read_pos b)) (nat (jb_buffered b)))"

text \<open>The fields no operation changes.\<close>

definition jb_config :: "JitterBuffer \<Rightarrow> u32 \<times> u32 \<times> u32 \<times> int \<times> int \<times> int \<times> int \<times> int \<times> u32" where
  "jb_config b = (jb_capacity b, jb_num_channels b, jb_sample_rate b, jb_target_low b, jb_target_high b,
     jb_target_centre b, jb_min_samples b, jb_max_samples b, jb_correction_interval b)"

lemma jb_config_eqD:
  assumes "jb_config b' = jb_config b"
  shows "jb_capacity b' = jb_capacity b" "jb_num_channels b' = jb_num_channels b"
    "jb_target_low b' = jb_target_low b" "jb_target_high b' = jb_target_high b"
    "jb_target_centre b' = jb_target_centre b" "jb_min_samples b' = jb_min_samples b"
    "jb_max_samples b' = jb_max_samples b" "jb_correction_interval b' = jb_correction_interval b"
    "snap_len b' = snap_len b" "jb_config_ok b' = jb_config_ok b"
  using assms by (simp_all add: jb_config_def snap_len_def jb_config_ok_def)

lemma length_jb_content: "jb_ok b \<Longrightarrow> length (jb_content b) = nat (jb_buffered b)"
  by (simp add: jb_content_def jb_ok_def)

lemma jb_content_bound: "jb_ok b \<Longrightarrow> length (jb_content b) \<le> unat (jb_capacity b)"
  by (auto simp: length_jb_content jb_ok_def nat_le_iff)

lemma jb_bounds: "jb_ok b \<Longrightarrow> nat (jb_buffered b) \<le> unat (jb_capacity b) \<and> unat (jb_capacity b) < 2147483648"
  by (simp add: jb_ok_def nat_le_iff)

section \<open>Writing\<close>

text \<open>The sequence in the ring after \<open>m\<close> samples were stored at the write position.\<close>

definition stored_at :: "JitterBuffer \<Rightarrow> nat \<Rightarrow> sample list \<Rightarrow> sample list \<Rightarrow> bool" where
  "stored_at b m src data \<longleftrightarrow>
     length data = length (jb_data b) \<and> m \<le> length src \<and> m \<le> unat (jb_capacity b) \<and>
     (\<forall>d < unat (jb_capacity b). data ! ((unat (jb_write_pos b) + d) mod unat (jb_capacity b)) =
        (if d < m then src ! d else jb_data b ! ((unat (jb_write_pos b) + d) mod unat (jb_capacity b))))"

lemma stored_full:
  assumes "jb_ok b" and "stored_at b m src data" and "unat (jb_capacity b) < nat (jb_buffered b) + m"
  shows "ring_seq data (unat (jb_write_pos b) + m) (unat (jb_capacity b))
    = last_n (unat (jb_capacity b)) (jb_content b @ take m src)"
proof -
  note ok = assms(1) [unfolded jb_ok_def] and st = assms(2) [unfolded stored_at_def]
  let ?cap = "unat (jb_capacity b)" and ?wp = "unat (jb_write_pos b)" and ?buf = "nat (jb_buffered b)"
  have lens: "length (jb_data b) = ?cap" "0 < ?cap" "m \<le> ?cap" "length (take m src) = m"
    using ok st by simp_all
  have "ring_seq data (?wp + m) ((?cap - m) + length (take m src)) = ring_seq (jb_data b) (?wp + m) (?cap - m) @ take m src"
  proof (rule ring_seq_store)
    fix d
    assume d: "d < length (jb_data b)"
    have eq: "?wp + m + (?cap - m) + d = ?wp + d + ?cap"
      using lens(3) by simp
    show "data ! ((?wp + m + (?cap - m) + d) mod length (jb_data b)) = (if d < length (take m src) then take m src ! d
        else jb_data b ! ((?wp + m + (?cap - m) + d) mod length (jb_data b)))"
      unfolding eq lens(1,4) using st d lens(1) by simp
  qed (use st lens in simp_all)
  moreover have "ring_seq (jb_data b) (?wp + m) (?cap - m) = last_n (?cap - m) (jb_content b)"
  proof (cases "jb_overflow_flag b")
    case True
    with lens show ?thesis
      by (simp add: jb_content_def last_n_def drop_ring_seq)
  next
    case False
    let ?e = "?buf + m - ?cap"
    have "last_n (?cap - m) (jb_content b) = ring_seq (jb_data b) (unat (jb_read_pos b) + ?e) (?cap - m)"
      using False ok assms(3) lens by (simp add: jb_content_def last_n_def drop_ring_seq)
    moreover have "(?wp + m) mod ?cap = (unat (jb_read_pos b) + ?e) mod ?cap"
    proof -
      have "(?wp + m) mod ?cap = (unat (jb_read_pos b) + ?buf + m) mod ?cap"
        using False ok by (simp add: mod_add_left_eq)
      also have "unat (jb_read_pos b) + ?buf + m = unat (jb_read_pos b) + ?e + ?cap"
        using assms(3) by simp
      finally show ?thesis by simp
    qed
    ultimately show ?thesis
      using ring_seq_mod [OF lens(1)] by metis
  qed
  ultimately show ?thesis
    using lens by (simp add: last_n_append_short)
qed

lemma stored_room:
  assumes "jb_ok b" and "stored_at b m src data" and "nat (jb_buffered b) + m \<le> unat (jb_capacity b)" and "0 < m"
  shows "\<not> jb_overflow_flag b"
    and "ring_seq data (unat (jb_read_pos b)) (nat (jb_buffered b) + m) = jb_content b @ take m src"
proof -
  note ok = assms(1) [unfolded jb_ok_def] and st = assms(2) [unfolded stored_at_def]
  let ?cap = "unat (jb_capacity b)" and ?buf = "nat (jb_buffered b)"
  show flag: "\<not> jb_overflow_flag b"
    using ok assms(3,4) by (auto simp: nat_eq_iff2)
  have wp: "unat (jb_write_pos b) = (unat (jb_read_pos b) + ?buf) mod ?cap"
    using ok flag by simp
  have "ring_seq data (unat (jb_read_pos b)) (?buf + length (take m src))
      = ring_seq (jb_data b) (unat (jb_read_pos b)) ?buf @ take m src"
  proof (rule ring_seq_store)
    fix d
    assume d: "d < length (jb_data b)"
    have "(unat (jb_read_pos b) + ?buf + d) mod length (jb_data b) = (unat (jb_write_pos b) + d) mod ?cap"
      using ok by (simp add: wp mod_add_left_eq)
    then show "data ! ((unat (jb_read_pos b) + ?buf + d) mod length (jb_data b)) =
        (if d < length (take m src) then take m src ! d
         else jb_data b ! ((unat (jb_read_pos b) + ?buf + d) mod length (jb_data b)))"
      using st d ok by simp
  qed (use st ok assms(3) in simp_all)
  with st flag show "ring_seq data (unat (jb_read_pos b)) (?buf + m) = jb_content b @ take m src"
    by (simp add: jb_content_def)
qed

text \<open>The two ways a write ends: the buffer is full and flagged, or the level grows.\<close>

lemma write_ends_full:
  assumes "jb_ok b" and "stored_at b m src data" and "unat (jb_capacity b) < nat (jb_buffered b) + m"
    and "unat wp = (unat (jb_write_pos b) + m) mod unat (jb_capacity b)"
  defines "b' \<equiv> b\<lparr>jb_overflow_flag := True, jb_buffered := i32_of (jb_capacity b), jb_data := data, jb_write_pos := wp\<rparr>"
  shows "jb_ok b'" and "jb_content b' = last_n (unat (jb_capacity b)) (jb_content b @ take m src)"
proof -
  note ok = assms(1) [unfolded jb_ok_def] and st = assms(2) [unfolded stored_at_def]
  have cap: "unat (jb_capacity b) < 2147483648" "0 < unat (jb_capacity b)"
    using ok by simp_all
  show "jb_ok b'"
    using ok st cap assms(4) i32_of_small [OF cap(1)] by (simp add: b'_def jb_ok_def)
  show "jb_content b' = last_n (unat (jb_capacity b)) (jb_content b @ take m src)"
    using stored_full [OF assms(1-3)] st ok assms(4) by (simp add: b'_def jb_content_def ring_seq_mod)
qed

lemma write_ends_with_room:
  assumes "jb_ok b" and "stored_at b m src data" and "k = nat (jb_buffered b) + m" and "k \<le> unat (jb_capacity b)" and "0 < m"
    and "unat wp = (unat (jb_write_pos b) + m) mod unat (jb_capacity b)"
  defines "b' \<equiv> b\<lparr>jb_buffered := int k, jb_data := data, jb_write_pos := wp\<rparr>"
  shows "jb_ok b'" and "jb_content b' = last_n (unat (jb_capacity b)) (jb_content b @ take m src)"
proof -
  note ok = assms(1) [unfolded jb_ok_def] and st = assms(2) [unfolded stored_at_def]
  note room = stored_room [OF assms(1,2) assms(4) [unfolded assms(3)] assms(5), folded assms(3)]
  have "int k \<le> int (unat (jb_capacity b))"
    using assms(4) by (simp only: of_nat_le_iff)
  then show "jb_ok b'"
    using room(1) ok st assms(6) by (simp add: b'_def jb_ok_def mod_add_left_eq add.assoc assms(3) [symmetric])
  have "length (jb_content b @ take m src) = k"
    using length_jb_content [OF assms(1)] st by (simp add: assms(3))
  then show "jb_content b' = last_n (unat (jb_capacity b)) (jb_content b @ take m src)"
    using room assms(4) by (simp add: b'_def jb_content_def)
qed

lemma jb_write_run:
  assumes "n \<noteq> 0" and "clip (jb_capacity b) src n = (src', m)"
    and "copy_to_ring (jb_capacity b) (jb_data b) (jb_write_pos b) src' m = Done data" and "0 < unat (jb_capacity b)"
  shows "jb_write src n b = Done ((if (word_of_int (jb_buffered b) :: u32) + m > jb_capacity b
        then b\<lparr>jb_overflow_flag := True, jb_buffered := i32_of (jb_capacity b)\<rparr>
        else b\<lparr>jb_buffered := i32_wrap (jb_buffered b + i32_of m)\<rparr>)
      \<lparr>jb_data := data, jb_write_pos := (jb_write_pos b + m) mod jb_capacity b\<rparr>)"
  using assms by (cases "n > jb_capacity b") (auto simp: jb_write_def clip_def Let_def u32_mod_Done)

lemma jb_write_spec:
  assumes "jb_ok b" and "unat n \<le> length src"
  shows "\<exists>b'. jb_write src n b = Done b' \<and> jb_ok b' \<and> jb_config b' = jb_config b \<and> jb_state b' = jb_state b
     \<and> jb_content b' = last_n (unat (jb_capacity b)) (jb_content b @ take (unat n) src)"
proof (cases "n = 0")
  case True
  with assms(1) show ?thesis by (simp add: jb_write_def jb_content_bound)
next
  case False
  note ok = assms(1) [unfolded jb_ok_def]
  let ?cap = "jb_capacity b" and ?wp = "jb_write_pos b" and ?buf = "nat (jb_buffered b)"
  obtain src' m where clip: "clip ?cap src n = (src', m)"
    by fastforce
  note c = clip_spec [OF clip assms(2)]
  have cap: "unat ?cap < 2147483648" "0 < unat ?cap" and wp: "unat ?wp < unat ?cap"
    and buf: "?buf \<le> unat ?cap" "0 \<le> jb_buffered b" and dlen: "length (jb_data b) = unat ?cap"
    using ok by (simp_all add: nat_le_iff)
  have m: "0 < unat m" "unat m \<le> unat ?cap"
    using False cap c(1) by (auto simp: unat_gt_0)
  have le: "?wp < ?cap" "m \<le> ?cap"
    using wp m by (simp_all add: word_less_nat_alt word_le_nat_alt)
  obtain data where data: "copy_to_ring ?cap (jb_data b) ?wp src' m = Done data" and st: "stored_at b (unat m) src' data"
    by (rule copy_to_ring_eq [OF dlen le c(2)]) (use c(2) m(2) in \<open>auto simp: stored_at_def\<close>)
  have l: "length (take (unat m) src') = unat m"
    using c(2) by simp
  have x: "last_n (unat ?cap) (jb_content b @ take (unat m) src') = last_n (unat ?cap) (jb_content b @ take (unat n) src)"
    by (rule trans [OF last_n_append_short [of "take (unat m) src'", unfolded l, OF m(2)] c(3)])
  have wp': "unat ((?wp + m) mod ?cap) = (unat ?wp + unat m) mod unat ?cap"
    unfolding unat_mod_word by (subst unat_plus_no_wrap) (use wp m cap in simp_all)
  have "unat (word_of_int (jb_buffered b) :: u32) = ?buf"
    using buf cap by (intro unat_word_of_int) auto
  then have "unat ((word_of_int (jb_buffered b) :: u32) + m) = ?buf + unat m"
    using buf cap m by (subst unat_plus_no_wrap) simp_all
  then have full: "(word_of_int (jb_buffered b) :: u32) + m > ?cap \<longleftrightarrow> unat ?cap < ?buf + unat m"
    by (simp add: word_less_nat_alt)
  note run = jb_write_run [OF False clip data cap(2), unfolded full]
  show ?thesis
  proof (cases "unat ?cap < ?buf + unat m")
    case True
    then show ?thesis
      using run write_ends_full [OF assms(1) st True wp'] x by (simp add: jb_config_def)
  next
    case False
    define k where "k = ?buf + unat m"
    have k: "k \<le> unat ?cap"
      using False by (simp add: k_def)
    have "jb_buffered b + i32_of m = int k"
      using buf(2) m(2) cap(1) by (simp add: k_def i32_of_small)
    then have "i32_wrap (jb_buffered b + i32_of m) = int k"
      using k cap(1) by (simp add: i32_wrap_int)
    then show ?thesis
      using run False write_ends_with_room [OF assms(1) st k_def k m(1) wp'] x by (simp add: jb_config_def)
  qed
qed

section \<open>Moving the read position\<close>

lemma jb_move:
  assumes "jb_ok b" and "\<not> jb_overflow_flag b" and "c \<le> nat (jb_buffered b)"
    and "rp = (jb_read_pos b + word_of_int (int c)) mod jb_capacity b"
    and "buf = i32_wrap (jb_buffered b - int c)"
  shows "jb_ok (b\<lparr>jb_read_pos := rp, jb_buffered := buf\<rparr>)"
    and "jb_content (b\<lparr>jb_read_pos := rp, jb_buffered := buf\<rparr>) = drop c (jb_content b)"
proof -
  note ok = assms(1) [unfolded jb_ok_def]
  let ?cap = "unat (jb_capacity b)"
  have c: "c < 2147483648" "c \<le> ?cap"
    using jb_bounds [OF assms(1)] assms(3) by linarith+
  have w: "unat (word_of_int (int c) :: u32) = c"
    using c(1) by (subst unat_word_of_int) simp_all
  have rp: "unat rp = (unat (jb_read_pos b) + c) mod ?cap"
  proof -
    have "unat (jb_read_pos b) < 2147483648"
      using ok by simp
    then have s: "unat (jb_read_pos b) + unat (word_of_int (int c) :: u32) < 4294967296"
      unfolding w using c(1) by linarith
    show ?thesis
      unfolding assms(4) unat_mod_word unat_plus_no_wrap [OF s] w ..
  qed
  define k where "k = nat (jb_buffered b) - c"
  have k: "k < 2147483648" "k \<le> ?cap"
    using jb_bounds [OF assms(1)] unfolding k_def by linarith+
  have "jb_buffered b - int c = int k"
    using ok assms(3) by (simp add: k_def of_nat_diff)
  then have buf: "buf = int k"
    unfolding assms(5) by (simp only: i32_wrap_int [OF k(1)])
  have sum: "unat (jb_read_pos b) + c + k = unat (jb_read_pos b) + nat (jb_buffered b)"
    using assms(3) by (simp add: k_def)
  have "int k \<le> int ?cap"
    using k(2) by (simp only: of_nat_le_iff)
  then show "jb_ok (b\<lparr>jb_read_pos := rp, jb_buffered := buf\<rparr>)"
    using ok assms(2) by (simp add: jb_ok_def rp buf mod_add_left_eq sum)
  show "jb_content (b\<lparr>jb_read_pos := rp, jb_buffered := buf\<rparr>) = drop c (jb_content b)"
    using ok assms(2) by (simp add: jb_content_def rp buf ring_seq_mod drop_ring_seq k_def)
qed

lemma snap_floats:
  assumes "jb_ok b" and "jb_config_ok b"
  shows "unat (word_of_int (jb_target_centre b) * jb_num_channels b :: u32) = snap_len b"
    and "i32_of (word_of_int (jb_target_centre b) * jb_num_channels b) = int (snap_len b)"
proof -
  have cap: "snap_len b \<le> unat (jb_capacity b)" "unat (jb_capacity b) < 2147483648"
    using assms by (simp_all add: jb_ok_def jb_config_ok_def)
  have "nat (jb_target_centre b) \<le> snap_len b"
    using assms(2) by (simp add: snap_len_def jb_config_ok_def)
  then have "unat (word_of_int (jb_target_centre b) :: u32) = nat (jb_target_centre b)"
    using cap assms(2) by (intro unat_word_of_int) (auto simp: jb_config_ok_def nat_le_iff)
  then show u: "unat (word_of_int (jb_target_centre b) * jb_num_channels b :: u32) = snap_len b"
    using cap by (subst unat_mult_no_wrap) (simp_all add: snap_len_def)
  then show "i32_of (word_of_int (jb_target_centre b) * jb_num_channels b) = int (snap_len b)"
    using cap by (subst i32_of_small) simp_all
qed

definition same_rest :: "JitterBuffer \<Rightarrow> JitterBuffer \<Rightarrow> bool" where
  "same_rest b b' \<longleftrightarrow> jb_config b' = jb_config b \<and> jb_state b' = jb_state b \<and>
     jb_correction_counter b' = jb_correction_counter b"

lemma jb_overflow_snap_spec:
  assumes "jb_ok b" and "jb_config_ok b"
  shows "jb_ok (jb_overflow_snap b) \<and> \<not> jb_overflow_flag (jb_overflow_snap b) \<and> same_rest b (jb_overflow_snap b)
     \<and> jb_content (jb_overflow_snap b)
        = (if jb_overflow_flag b then last_n (snap_len b) (jb_content b) else jb_content b)"
proof (cases "jb_overflow_flag b")
  case False
  with assms(1) show ?thesis by (simp add: jb_overflow_snap_def same_rest_def)
next
  case True
  note ok = assms(1) [unfolded jb_ok_def]
  let ?snap = "word_of_int (jb_target_centre b) * jb_num_channels b :: u32"
  let ?cap = "jb_capacity b" and ?wp = "jb_write_pos b"
  note snap = snap_floats [OF assms]
  define rp where "rp = (if ?wp \<ge> ?snap then ?wp - ?snap else ?cap - (?snap - ?wp))"
  have le: "snap_len b \<le> unat ?cap" and wp: "unat ?wp < unat ?cap"
    using assms(2) ok by (simp_all add: jb_config_ok_def)
  have rp: "unat rp = (if unat ?wp \<ge> snap_len b then unat ?wp - snap_len b else unat ?cap - (snap_len b - unat ?wp))"
  proof (cases "?wp \<ge> ?snap")
    case True
    then show ?thesis
      using snap(1) by (simp add: rp_def word_le_nat_alt unat_minus_no_wrap)
  next
    case False
    then have gt: "unat ?wp < snap_len b"
      using snap(1) by (simp add: word_le_nat_alt)
    then have "unat (?snap - ?wp) = snap_len b - unat ?wp"
      using snap(1) by (simp add: unat_minus_no_wrap)
    with False gt le show ?thesis
      using snap(1) by (simp add: rp_def word_le_nat_alt unat_minus_no_wrap)
  qed
  have mod_rp: "unat rp = (unat ?wp + (unat ?cap - snap_len b)) mod unat ?cap" and rp_less: "unat rp < unat ?cap"
    using rp le wp by (auto simp: mod_if)
  have wp_eq: "unat ?wp = (unat rp + snap_len b) mod unat ?cap"
    using le wp by (simp add: mod_rp mod_add_left_eq)
  let ?b = "b\<lparr>jb_overflow_flag := False, jb_read_pos := rp, jb_buffered := int (snap_len b),
      jb_overrun_count := jb_overrun_count b + 1\<rparr>"
  have b: "jb_overflow_snap b = ?b"
    using True snap(2) by (simp add: jb_overflow_snap_def rp_def Let_def)
  have "int (snap_len b) \<le> int (unat ?cap)"
    using le by (simp only: of_nat_le_iff)
  then have "jb_ok ?b"
    using ok rp_less wp_eq by (simp add: jb_ok_def)
  moreover have "jb_content ?b = last_n (snap_len b) (jb_content b)"
    using True ok le by (simp add: jb_content_def mod_rp ring_seq_mod last_n_def drop_ring_seq)
  ultimately show ?thesis
    using True by (simp add: b same_rest_def jb_config_def)
qed

lemma jb_overrun_snap_spec:
  assumes "jb_ok b" and "jb_config_ok b" and "\<not> jb_overflow_flag b" and "snap_len b \<le> length (jb_content b)"
  obtains b' where "jb_overrun_snap b = Done b'" and "jb_ok b'" and "\<not> jb_overflow_flag b'" and "same_rest b b'"
    and "jb_content b' = last_n (snap_len b) (jb_content b)"
proof -
  note ok = assms(1) [unfolded jb_ok_def]
  note snap = snap_floats [OF assms(1,2)]
  define c where "c = nat (jb_buffered b) - snap_len b"
  have le: "snap_len b \<le> nat (jb_buffered b)"
    using assms(4) length_jb_content [OF assms(1)] by simp
  have c: "jb_buffered b + - int (snap_len b) = int c"
    using le ok by (simp add: c_def of_nat_diff)
  have "c < 2147483648"
    using jb_bounds [OF assms(1)] unfolding c_def by linarith
  then have add: "i32_add (jb_buffered b) (- int (snap_len b)) = Done (int c)"
    unfolding i32_add_def c by (simp add: i32_max_def)
  let ?rp = "(jb_read_pos b + word_of_int (int c)) mod jb_capacity b"
  let ?buf = "i32_wrap (jb_buffered b - int c)"
  let ?b = "b\<lparr>jb_read_pos := ?rp, jb_buffered := ?buf\<rparr>"
  have "0 < unat (jb_capacity b)"
    using ok by simp
  then have run: "jb_overrun_snap b = Done (?b\<lparr>jb_overrun_count := jb_overrun_count b + 1\<rparr>)"
    unfolding jb_overrun_snap_def snap(2) Let_def add by (simp add: u32_mod_Done)
  have "jb_ok ?b" and "jb_content ?b = drop c (jb_content b)"
    using jb_move [OF assms(1,3) _ refl refl] by (simp_all add: c_def)
  moreover have "drop c (jb_content b) = last_n (snap_len b) (jb_content b)"
    using length_jb_content [OF assms(1)] by (simp add: last_n_def c_def)
  ultimately show thesis
    using that [OF run] assms(3) by (simp add: jb_ok_def jb_content_def same_rest_def jb_config_def)
qed

section \<open>Filling the destination\<close>

lemma jb_take_spec:
  assumes "jb_ok b" and "\<not> jb_overflow_flag b" and "n \<le> c" and "c \<le> length (jb_content b)" and "n \<le> length dst"
  obtains b' where "jb_take (int n) (int c) dst b = Done (take n (jb_content b) @ drop n dst, b')"
    and "jb_ok b'" and "\<not> jb_overflow_flag b'" and "same_rest b b'" and "jb_content b' = drop c (jb_content b)"
proof -
  note ok = assms(1) [unfolded jb_ok_def]
  have c: "c \<le> nat (jb_buffered b)"
    using assms(4) length_jb_content [OF assms(1)] by simp
  have "nat (jb_buffered b) \<le> unat (jb_capacity b)"
    using ok by (simp add: nat_le_iff)
  then have n: "n \<le> unat (jb_capacity b)"
    using assms(3) c by simp
  have w: "unat (word_of_int (int n) :: u32) = n"
    using n ok by (subst unat_word_of_int) simp_all
  have copy: "copy_from_ring (jb_capacity b) (jb_data b) (jb_read_pos b) (word_of_int (int n)) = Done (take n (jb_content b))"
    using ok n w assms(2,3) c
    by (subst copy_from_ring_eq) (simp_all add: word_less_nat_alt word_le_nat_alt jb_content_def take_ring_seq)
  have len: "length (take n (jb_content b)) = n"
    using assms(3,4) by simp
  have "0 < unat (jb_capacity b)"
    using ok by simp
  then have "jb_take (int n) (int c) dst b = Done (take n (jb_content b) @ drop n dst,
      b\<lparr>jb_read_pos := (jb_read_pos b + word_of_int (int c)) mod jb_capacity b,
        jb_buffered := i32_wrap (jb_buffered b - int c)\<rparr>)"
    using assms(5) len unfolding jb_take_def copy by (simp add: mem_simps u32_mod_Done)
  then show thesis
    using that jb_move [OF assms(1,2) c refl refl] assms(2) by (simp add: same_rest_def jb_config_def)
qed

lemma zero_fill_spec:
  "n \<le> k \<Longrightarrow> k \<le> length dst \<Longrightarrow> zero_fill (int n) (int k) dst = Done (take n dst @ replicate (k - n) 0 @ drop k dst)"
  by (auto simp: zero_fill_def mem_simps nat_diff_distrib)

lemma smod_int: "int m smod int c = int (m mod c)"
  by (cases "m = 0") (simp_all add: signed_modulo_int_def zmod_int)

lemma repeat_last_spec:
  "0 < c \<Longrightarrow> l + c \<le> r \<Longrightarrow> r \<le> i \<Longrightarrow> i + n \<le> length dst \<Longrightarrow>
     repeat_last n (int i) (int r) (int l) (int c) dst
       = Done (take i dst @ map (\<lambda>j. dst ! (l + (i - r + j) mod c)) [0..<n] @ drop (i + n) dst)"
proof (induction n arbitrary: i dst)
  case 0
  then show ?case by simp
next
  case (Suc n)
  let ?x = "dst ! (l + (i - r) mod c)"
  let ?dst = "take i dst @ [?x] @ drop (i + 1) dst"
  have idx: "nat (int l + (int i - int r) smod int c) = l + (i - r) mod c"
    unfolding of_nat_diff [OF Suc.prems(3), symmetric] smod_int by (simp add: nat_add_distrib)
  have lt: "(i - r) mod c < c"
    using Suc.prems(1) by simp
  then have rd: "elem_at dst (l + (i - r) mod c) = Done ?x"
    using Suc.prems(2-4) by (intro elem_at_Done) linarith
  have wr: "mem_write dst i [?x] = Done ?dst"
    using Suc.prems(4) by (simp add: mem_simps)
  have keep: "?dst ! (l + m mod c) = dst ! (l + m mod c)" for m
  proof -
    have "l + m mod c < i"
      using Suc.prems(1-3) mod_less_divisor [of c m] by linarith
    then show ?thesis
      using Suc.prems(4) by (simp add: nth_append)
  qed
  have "repeat_last n (int (i + 1)) (int r) (int l) (int c) ?dst
      = Done (take (i + 1) ?dst @ map (\<lambda>j. ?dst ! (l + (i + 1 - r + j) mod c)) [0..<n] @ drop (i + 1 + n) ?dst)"
    using Suc.prems by (intro Suc.IH) simp_all
  also have "map (\<lambda>j. ?dst ! (l + (i + 1 - r + j) mod c)) [0..<n] = map (\<lambda>j. dst ! (l + (i - r + j) mod c)) [Suc 0..<Suc n]"
    unfolding keep map_Suc_upt [symmetric] map_map using Suc.prems(3) by (simp add: Suc_diff_le)
  finally have rest: "repeat_last n (int i + 1) (int r) (int l) (int c) ?dst = Done (take (i + 1) ?dst @
      map (\<lambda>j. dst ! (l + (i - r + j) mod c)) [Suc 0..<Suc n] @ drop (i + 1 + n) ?dst)"
    by (simp add: add.commute)
  have "take (i + 1) ?dst = take i dst @ [?x]" and "drop (i + 1 + n) ?dst = drop (i + Suc n) dst"
    using Suc.prems(4) by (simp_all add: add.commute)
  then show ?case
    using Suc.prems(1) rest by (simp add: idx rd wr upt_conv_Cons del: upt_Suc)
qed

section \<open>Specification of a read\<close>

text \<open>
  On lists of samples: \<open>k\<close> floats are delivered out of \<open>xs\<close>, zero-padded at the end of the data. With a
  positive correction one frame of \<open>nc\<close> floats more is consumed; with a negative one a frame less is
  consumed and the last frame is repeated in its place.
\<close>

definition play_spec :: "int \<Rightarrow> nat \<Rightarrow> nat \<Rightarrow> sample list \<Rightarrow> sample list \<times> sample list" where
  "play_spec correction nc k xs =
     (if correction > 0 then (take k xs @ replicate (k - length xs) 0, drop (k + nc) xs)
      else if correction < 0 then
        let real = min (max (k - nc) nc) (length xs) in
        (take real xs @ map (\<lambda>j. xs ! (real - nc + j mod nc)) [0..<k - real], drop real xs)
      else (take k xs @ replicate (k - length xs) 0, drop k xs))"

text \<open>
  The whole read: the snap of a flagged overflow, the start of playing at the lower bound of the target
  window, the snap of an overrun, the fall back to filling on an underrun, and the correction that the
  counter lets through.
\<close>

definition read_spec ::
    "JitterBuffer \<Rightarrow> nat \<Rightarrow> bool \<times> sample list \<times> sample list \<times> JitterBufferState \<times> u32" where
  "read_spec b k =
     (let nc = unat (jb_num_channels b);
          xs = (if jb_overflow_flag b then last_n (snap_len b) (jb_content b) else jb_content b);
          filled = int (length xs div nc) in
      if jb_state b = Filling \<and> filled < jb_target_low b then
        (False, replicate k 0, xs, Filling, jb_correction_counter b)
      else
        let counter = (if jb_state b = Filling then 0 else jb_correction_counter b);
            xs = (if filled > jb_max_samples b then last_n (snap_len b) xs else xs);
            filled = int (length xs div nc) in
        if filled < jb_min_samples b then (False, replicate k 0, xs, Filling, counter)
        else
          let due = (\<not> counter + 1 < jb_correction_interval b);
              correction = (if \<not> due then 0 else if filled < jb_target_low b then - 1
                            else if filled > jb_target_high b then 1 else 0);
              (out, rest) = play_spec correction nc k xs in
          (True, out, rest, Playing, if due then 0 else counter + 1))"

lemma i32_add_int: "a + b < 2147483648 \<Longrightarrow> i32_add (int a) (int b) = Done (int (a + b))"
  unfolding i32_add_def by (simp add: i32_max_def)

lemma int_min: "(if int a > int b then int b else int a) = int (min a b)"
  by (simp add: min_def)

lemma repeat_real:
  assumes "0 < nc" and "nc \<le> real" and "real \<le> k" and "real \<le> length xs" and "k \<le> length dst"
  shows "repeat_last (k - real) (int real) (int real) (int (real - nc)) (int nc) (take real xs @ drop real dst)
     = Done (take real xs @ map (\<lambda>j. xs ! (real - nc + j mod nc)) [0..<k - real] @ drop k dst)"
proof -
  let ?dst = "take real xs @ drop real dst"
  have "repeat_last (k - real) (int real) (int real) (int (real - nc)) (int nc) ?dst
      = Done (take real ?dst @ map (\<lambda>j. ?dst ! (real - nc + (real - real + j) mod nc)) [0..<k - real]
          @ drop (real + (k - real)) ?dst)"
    by (rule repeat_last_spec) (use assms in simp_all)
  moreover have "?dst ! (real - nc + j mod nc) = xs ! (real - nc + j mod nc)" for j
  proof -
    have "real - nc + j mod nc < real"
      using assms(1,2) mod_less_divisor [OF assms(1), of j] by linarith
    then show ?thesis
      using assms(4) by (simp add: nth_append)
  qed
  ultimately show ?thesis
    using assms by simp
qed

type_synonym play_result = "(bool \<times> sample list \<times> JitterBuffer) outcome"

text \<open>Taking samples and filling the rest of the destination with zeros.\<close>

lemma take_and_fill:
  assumes "jb_ok b" and "\<not> jb_overflow_flag b" and "k \<le> length dst" and "len = length (jb_content b)"
    and "min k len \<le> c" and "c \<le> len"
  obtains b' where "\<And>f :: sample list \<Rightarrow> JitterBuffer \<Rightarrow> play_result. and_then (jb_take (int (min k len)) (int c) dst b) (\<lambda>(dst, b).
        and_then (zero_fill (int (min k len)) (int k) dst) (\<lambda>dst. f dst b))
      = f (take k (jb_content b) @ replicate (k - len) 0 @ drop k dst) b'"
    and "jb_ok b'" and "\<not> jb_overflow_flag b'" and "same_rest b b'" and "jb_content b' = drop c (jb_content b)"
proof -
  let ?xs = "jb_content b" and ?r = "min k len"
  obtain b' where t: "jb_take (int ?r) (int c) dst b = Done (take ?r ?xs @ drop ?r dst, b')"
    and b': "jb_ok b'" "\<not> jb_overflow_flag b'" "same_rest b b'" "jb_content b' = drop c ?xs"
    by (rule jb_take_spec [OF assms(1,2), of ?r c dst]) (use assms(3-6) in auto)
  have z: "zero_fill (int ?r) (int k) (take ?r ?xs @ drop ?r dst)
      = Done (take k ?xs @ replicate (k - len) 0 @ drop k dst)"
    by (subst zero_fill_spec) (use assms(3,4) in \<open>auto simp: min_def\<close>)
  show thesis
    by (rule that [OF _ b']) (simp only: t z and_then.simps prod.case)
qed

text \<open>Taking samples and repeating the last frame.\<close>

lemma take_and_repeat:
  assumes "jb_ok b" and "\<not> jb_overflow_flag b" and "k \<le> length dst" and "0 < nc" and "nc \<le> real" and "real \<le> k"
    and "real \<le> length (jb_content b)"
  obtains b' where "\<And>f :: sample list \<Rightarrow> JitterBuffer \<Rightarrow> play_result. and_then (jb_take (int real) (int real) dst b) (\<lambda>(dst, b).
        and_then (repeat_last (k - real) (int real) (int real) (int (real - nc)) (int nc) dst) (\<lambda>dst. f dst b))
      = f (take real (jb_content b) @ map (\<lambda>j. jb_content b ! (real - nc + j mod nc)) [0..<k - real] @ drop k dst) b'"
    and "jb_ok b'" and "\<not> jb_overflow_flag b'" and "same_rest b b'" and "jb_content b' = drop real (jb_content b)"
proof -
  let ?xs = "jb_content b"
  obtain b' where t: "jb_take (int real) (int real) dst b = Done (take real ?xs @ drop real dst, b')"
    and b': "jb_ok b'" "\<not> jb_overflow_flag b'" "same_rest b b'" "jb_content b' = drop real ?xs"
    by (rule jb_take_spec [OF assms(1,2), of real real dst]) (use assms(3,6,7) in auto)
  have rep: "repeat_last (k - real) (int real) (int real) (int (real - nc)) (int nc) (take real ?xs @ drop real dst)
      = Done (take real ?xs @ map (\<lambda>j. ?xs ! (real - nc + j mod nc)) [0..<k - real] @ drop k dst)"
    by (rule repeat_real) (use assms in simp_all)
  show thesis
    by (rule that [OF _ b']) (simp only: t rep and_then.simps prod.case)
qed

text \<open>What a playing method counts besides.\<close>

lemma played_counts:
  assumes "jb_ok b'" and "\<not> jb_overflow_flag b'" and "same_rest b b'" and "jb_content b' = rest"
  shows "let b'' = b'\<lparr>jb_samples_dropped := x\<rparr> in jb_ok b'' \<and> \<not> jb_overflow_flag b'' \<and> same_rest b b'' \<and> jb_content b'' = rest"
    and "let b'' = b'\<lparr>jb_samples_inserted := x\<rparr> in jb_ok b'' \<and> \<not> jb_overflow_flag b'' \<and> same_rest b b'' \<and> jb_content b'' = rest"
  using assms by (simp_all add: jb_ok_def same_rest_def jb_config_def jb_content_def)

lemma jb_play_inserting:
  assumes "jb_ok b" and "\<not> jb_overflow_flag b" and "unat (jb_num_channels b) = nc" and "unat n = k"
    and "0 < nc" and "nc \<le> length (jb_content b)" and "nc \<le> k" and "k + nc < 2147483648" and "k \<le> length dst"
    and "play_spec (- 1) nc k (jb_content b) = (out, rest)"
  shows "\<exists>b'. jb_play (- 1) n dst b = Done (True, out @ drop k dst, b') \<and> jb_ok b'
     \<and> \<not> jb_overflow_flag b' \<and> same_rest b b' \<and> jb_content b' = rest"
proof -
  let ?xs = "jb_content b"
  define len where "len = length ?xs"
  define real where "real = min (max (k - nc) nc) len"
  have buf: "jb_buffered b = int len"
    using assms(1) by (simp add: len_def length_jb_content jb_ok_def)
  have sizes: "i32_of n = int k" "i32_of (jb_num_channels b) = int nc"
    using assms(3,4,8) by (auto simp: i32_of_small)
  have real: "nc \<le> real" "real \<le> k" "real \<le> length ?xs"
    using assms(6,7) by (auto simp: real_def len_def)
  obtain b' where run: "\<And>f :: sample list \<Rightarrow> JitterBuffer \<Rightarrow> play_result. and_then (jb_take (int real) (int real) dst b) (\<lambda>(dst, b).
        and_then (repeat_last (k - real) (int real) (int real) (int (real - nc)) (int nc) dst) (\<lambda>dst. f dst b))
      = f (take real ?xs @ map (\<lambda>j. ?xs ! (real - nc + j mod nc)) [0..<k - real] @ drop k dst) b'"
    and b': "jb_ok b'" "\<not> jb_overflow_flag b'" "same_rest b b'" "jb_content b' = drop real ?xs"
    by (rule take_and_repeat [OF assms(1,2,9,5) real]) blast
  have spec: "drop real ?xs = rest" "out = take real ?xs @ map (\<lambda>j. ?xs ! (real - nc + j mod nc)) [0..<k - real]"
    using assms(10) by (simp_all add: play_spec_def real_def len_def Let_def)
  have add: "i32_add (int k) (- 1 * int nc) = Done (int (k - nc))"
    using assms(7,8) unfolding i32_add_def by (simp add: i32_max_def of_nat_diff)
  have cut: "(if int (k - nc) < int nc then int nc else int (k - nc)) = int (max (k - nc) nc)"
    "(if int real - int nc < 0 then 0 else int real - int nc) = int (real - nc)" "nat (int k - int real) = k - real"
    using real(1) by (simp_all add: max_def of_nat_diff)
  have neg: "\<not> (0::int) < - 1" "- 1 < (0::int)"
    by simp_all
  have "jb_play (- 1) n dst b = Done (True, out @ drop k dst, b'\<lparr>jb_samples_inserted := jb_samples_inserted b' + word_of_int (- (- 1))\<rparr>)"
    unfolding jb_play_def sizes buf Let_def if_not_P [OF neg(1)] if_P [OF neg(2)]
    unfolding add and_then.simps cut(1) int_min real_def [symmetric] cut(2,3) run spec(2) by simp
  then show ?thesis
    using played_counts(2) [OF b'] spec(1) by (auto simp: Let_def)
qed

lemma jb_play_spec:
  assumes "jb_ok b" and "\<not> jb_overflow_flag b" and "unat (jb_num_channels b) = nc" and "unat n = k"
    and "0 < nc" and "nc \<le> length (jb_content b)" and "nc \<le> k" and "k + nc < 2147483648"
    and "k \<le> length dst" and "correction \<in> {- 1, 0, 1}"
    and "play_spec correction nc k (jb_content b) = (out, rest)"
  shows "\<exists>b'. jb_play correction n dst b = Done (True, out @ drop k dst, b') \<and> jb_ok b'
     \<and> \<not> jb_overflow_flag b' \<and> same_rest b b' \<and> jb_content b' = rest"
proof -
  let ?xs = "jb_content b"
  define len where "len = length ?xs"
  have buf: "jb_buffered b = int len"
    using assms(1) by (simp add: len_def length_jb_content jb_ok_def)
  have sizes: "i32_of n = int k" "i32_of (jb_num_channels b) = int nc"
    using assms(3,4,8) by (auto simp: i32_of_small)
  note fill = take_and_fill [OF assms(1,2,9) len_def]
  consider "correction = 0" | "correction = 1" | "correction = - 1"
    using assms(10) by auto
  then show ?thesis
  proof cases
    case 1
    obtain b' where run: "\<And>f :: sample list \<Rightarrow> JitterBuffer \<Rightarrow> play_result. and_then (jb_take (int (min k len)) (int (min k len)) dst b) (\<lambda>(dst, b).
          and_then (zero_fill (int (min k len)) (int k) dst) (\<lambda>dst. f dst b))
        = f (take k ?xs @ replicate (k - len) 0 @ drop k dst) b'"
      and b': "jb_ok b'" "\<not> jb_overflow_flag b'" "same_rest b b'" "jb_content b' = drop (min k len) ?xs"
      by (rule fill [OF order_refl min.cobounded2]) blast
    have "drop (min k len) ?xs = rest" "out = take k ?xs @ replicate (k - len) 0"
      using 1 assms(11) by (auto simp: play_spec_def len_def min_def)
    then show ?thesis
      using 1 b' unfolding jb_play_def sizes buf Let_def int_min by (simp add: run)
  next
    case 2
    define c where "c = min (k + nc) len"
    obtain b' where run: "\<And>f :: sample list \<Rightarrow> JitterBuffer \<Rightarrow> play_result. and_then (jb_take (int (min k len)) (int c) dst b) (\<lambda>(dst, b).
          and_then (zero_fill (int (min k len)) (int k) dst) (\<lambda>dst. f dst b))
        = f (take k ?xs @ replicate (k - len) 0 @ drop k dst) b'"
      and b': "jb_ok b'" "\<not> jb_overflow_flag b'" "same_rest b b'" "jb_content b' = drop c ?xs"
      by (rule fill [of c]) (simp add: c_def, simp add: c_def, blast)
    have "drop c ?xs = rest" "out = take k ?xs @ replicate (k - len) 0"
      using 2 assms(11) by (auto simp: play_spec_def c_def len_def min_def)
    moreover have add: "i32_add (int k) (1 * int nc) = Done (int (k + nc))"
      using i32_add_int [OF assms(8)] by simp
    ultimately show ?thesis
      using 2 played_counts(1) [OF b'] unfolding jb_play_def sizes buf Let_def
      by (simp only: add and_then.simps int_min c_def [symmetric] run) simp
  qed (use jb_play_inserting [OF assms(1-9)] assms(11) in simp)
qed

lemma silence_spec:
  "unat n \<le> length dst \<Longrightarrow> silence n dst b = Done (False, replicate (unat n) 0 @ drop (unat n) dst, b)"
  by (simp add: silence_def mem_simps)

lemma jb_fill:
  assumes "jb_ok b" and "jb_config_ok b" and "unat (jb_num_channels b) < 2147483648"
  shows "i32_div (jb_buffered b) (i32_of (jb_num_channels b))
    = Done (int (length (jb_content b) div unat (jb_num_channels b)))"
  using assms by (simp only: i32_of_small length_jb_content)
    (rule i32_div_nonneg; simp add: jb_ok_def jb_config_ok_def)

lemma snap_below_max:
  assumes "jb_config_ok b" and "int (length xs div unat (jb_num_channels b)) > jb_max_samples b"
  shows "snap_len b \<le> length xs"
proof -
  let ?nc = "unat (jb_num_channels b)"
  have "nat (jb_target_centre b) \<le> length xs div ?nc"
    using assms by (simp add: jb_config_ok_def nat_le_iff)
  then have "snap_len b \<le> length xs div ?nc * ?nc"
    unfolding snap_len_def by (rule mult_le_mono1)
  also have "\<dots> \<le> length xs"
    by simp
  finally show ?thesis .
qed

definition play_from_spec :: "JitterBuffer \<Rightarrow> nat \<Rightarrow> bool \<times> sample list \<times> sample list \<times> JitterBufferState \<times> u32" where
  "play_from_spec b k =
     (let nc = unat (jb_num_channels b); xs = jb_content b; filled = int (length xs div nc);
          counter = jb_correction_counter b in
      if filled < jb_min_samples b then (False, replicate k 0, xs, Filling, counter)
      else
        let due = (\<not> counter + 1 < jb_correction_interval b);
            correction = (if \<not> due then 0 else if filled < jb_target_low b then - 1
                          else if filled > jb_target_high b then 1 else 0);
            (out, rest) = play_spec correction nc k xs in
        (True, out, rest, Playing, if due then 0 else counter + 1))"

lemma jb_play_from_refines:
  assumes "jb_ok b" and "jb_config_ok b" and "\<not> jb_overflow_flag b" and "jb_state b = Playing"
    and "unat (jb_num_channels b) \<le> unat n" and "unat n + unat (jb_num_channels b) < 2147483648"
    and "unat n \<le> length dst" and "f = int (length (jb_content b) div unat (jb_num_channels b))"
    and "play_from_spec b (unat n) = (res, out, rest, st, cnt)"
  shows "\<exists>b'. jb_play_from b f dst n = Done (res, out @ drop (unat n) dst, b') \<and> jb_ok b' \<and> \<not> jb_overflow_flag b'
     \<and> jb_config b' = jb_config b \<and> jb_content b' = rest \<and> jb_state b' = st \<and> jb_correction_counter b' = cnt"
proof (cases "f < jb_min_samples b")
  case True
  let ?b = "b\<lparr>jb_state := Filling, jb_underrun_count := jb_underrun_count b + 1\<rparr>"
  have "jb_ok ?b" "jb_content ?b = jb_content b" "jb_config ?b = jb_config b"
    using assms(1) by (simp_all add: jb_ok_def jb_content_def jb_config_def)
  with True assms(3,7,8,9) show ?thesis
    by (auto simp: jb_play_from_def play_from_spec_def silence_spec Let_def)
next
  case False
  let ?nc = "unat (jb_num_channels b)"
  define due where "due \<longleftrightarrow> \<not> jb_correction_counter b + 1 < jb_correction_interval b"
  define corr where "corr = (if \<not> due then 0 else if f < jb_target_low b then - 1
      else if f > jb_target_high b then 1 else 0 :: int)"
  let ?b = "b\<lparr>jb_correction_counter := if due then 0 else jb_correction_counter b + 1\<rparr>"
  have c: "jb_correction f b = (corr, ?b)"
    by (simp add: jb_correction_def due_def corr_def Let_def)
  have b: "jb_ok ?b" "jb_content ?b = jb_content b" "jb_num_channels ?b = jb_num_channels b"
    using assms(1) by (simp_all add: jb_ok_def jb_content_def)
  have "0 < jb_min_samples b"
    using assms(2) by (simp add: jb_config_ok_def)
  then have "0 < length (jb_content b) div ?nc"
    using False assms(8) by linarith
  then have nc: "?nc \<le> length (jb_content b)" "0 < ?nc"
    by (auto simp: div_greater_zero_iff)
  have spec: "play_spec corr ?nc (unat n) (jb_content b) = (out, rest)" "res = True" "st = Playing"
    "cnt = (if due then 0 else jb_correction_counter b + 1)"
    using assms(9) False unfolding play_from_spec_def assms(8) [symmetric] due_def [symmetric] Let_def corr_def
    by (auto simp: case_prod_unfold)
  have "corr \<in> {- 1, 0, 1}"
    by (simp add: corr_def)
  then have "\<exists>b'. jb_play corr n dst ?b = Done (True, out @ drop (unat n) dst, b') \<and> jb_ok b'
      \<and> \<not> jb_overflow_flag b' \<and> same_rest ?b b' \<and> jb_content b' = rest"
    using b assms(3,5,6,7) nc spec(1) by (intro jb_play_spec [where nc = ?nc]) simp_all
  then obtain b' where "jb_play corr n dst ?b = Done (True, out @ drop (unat n) dst, b')" and "jb_ok b'"
    "\<not> jb_overflow_flag b'" "same_rest ?b b'" "jb_content b' = rest"
    by blast
  with False c spec assms(4) show ?thesis
    by (auto simp: jb_play_from_def same_rest_def jb_config_def)
qed

lemma play_from_spec_cong:
  assumes "jb_config b' = jb_config b" and "jb_content b' = xs" and "jb_correction_counter b' = counter"
  shows "play_from_spec b' k =
     (let nc = unat (jb_num_channels b); filled = int (length xs div nc) in
      if filled < jb_min_samples b then (False, replicate k 0, xs, Filling, counter)
      else
        let due = (\<not> counter + 1 < jb_correction_interval b);
            correction = (if \<not> due then 0 else if filled < jb_target_low b then - 1
                          else if filled > jb_target_high b then 1 else 0);
            (out, rest) = play_spec correction nc k xs in
        (True, out, rest, Playing, if due then 0 else counter + 1))"
  using assms(2,3) jb_config_eqD [OF assms(1)] by (simp add: play_from_spec_def Let_def)

text \<open>The snap of a reader that is too far behind, if it is.\<close>

lemma overrun_step:
  assumes "jb_ok b" and "\<not> jb_overflow_flag b" and "jb_config_ok b" and "unat (jb_num_channels b) < 2147483648"
    and "f = int (length (jb_content b) div unat (jb_num_channels b))"
    and "xs = (if f > jb_max_samples b then last_n (snap_len b) (jb_content b) else jb_content b)"
  obtains b' where "(if f > jb_max_samples b
        then and_then (jb_overrun_snap b) (\<lambda>b'. and_then (i32_div (jb_buffered b') (i32_of (jb_num_channels b))) (\<lambda>f. Done (b', f)))
        else Done (b, f)) = Done (b', int (length xs div unat (jb_num_channels b)))"
    and "jb_ok b'" and "\<not> jb_overflow_flag b'" and "same_rest b b'" and "jb_content b' = xs"
proof (cases "f > jb_max_samples b")
  case True
  have "snap_len b \<le> length (jb_content b)"
    using True snap_below_max [OF assms(3), of "jb_content b"] assms(5) by simp
  then obtain b' where b': "jb_overrun_snap b = Done b'" "jb_ok b'" "\<not> jb_overflow_flag b'" "same_rest b b'"
    "jb_content b' = last_n (snap_len b) (jb_content b)"
    using jb_overrun_snap_spec [OF assms(1) _ assms(2)] assms(3) by blast
  then have "jb_config b' = jb_config b"
    by (simp add: same_rest_def)
  note cfg = jb_config_eqD [OF this]
  have "i32_div (jb_buffered b') (i32_of (jb_num_channels b)) = Done (int (length (jb_content b') div unat (jb_num_channels b)))"
    using jb_fill [OF b'(2)] assms(3,4) cfg by simp
  with True b' assms(6) show thesis
    by (intro that [of b']) simp_all
next
  case False
  with assms show thesis
    by (intro that [of b]) (simp_all add: same_rest_def)
qed

lemma jb_read_refines:
  assumes "jb_ok b" and "jb_config_ok b" and "0 < unat n" and "unat (jb_num_channels b) \<le> unat n"
    and "unat n + unat (jb_num_channels b) < 2147483648" and "unat n \<le> length dst"
    and "read_spec b (unat n) = (res, out, rest, st, cnt)"
  shows "\<exists>b'. jb_read dst n b = Done (res, out @ drop (unat n) dst, b') \<and> jb_ok b' \<and> \<not> jb_overflow_flag b'
     \<and> jb_config b' = jb_config b \<and> jb_content b' = rest \<and> jb_state b' = st \<and> jb_correction_counter b' = cnt"
proof -
  define b1 where "b1 = jb_overflow_snap b"
  have b1: "jb_ok b1" "\<not> jb_overflow_flag b1" "jb_config b1 = jb_config b" "jb_state b1 = jb_state b"
    "jb_correction_counter b1 = jb_correction_counter b"
    "jb_content b1 = (if jb_overflow_flag b then last_n (snap_len b) (jb_content b) else jb_content b)"
    using jb_overflow_snap_spec [OF assms(1,2)] by (simp_all add: b1_def same_rest_def)
  note cfg = jb_config_eqD [OF b1(3)]
  have nc: "unat (jb_num_channels b) < 2147483648"
    using assms(5) by linarith
  define f where "f = int (length (jb_content b1) div unat (jb_num_channels b))"
  have fill: "i32_div (jb_buffered b1) (i32_of (jb_num_channels b)) = Done f"
    using jb_fill [OF b1(1)] assms(2) nc cfg by (simp add: f_def)
  have n: "n \<noteq> 0"
    using assms(3) by auto
  show ?thesis
  proof (cases "jb_state b = Filling \<and> f < jb_target_low b")
    case True
    have "jb_read dst n b = silence n dst b1"
      using True fill cfg b1(4) n by (simp add: jb_read_def b1_def [symmetric] Let_def)
    moreover have "(res, out, rest, st, cnt) = (False, replicate (unat n) 0, jb_content b1, Filling, jb_correction_counter b)"
      using True assms(7) unfolding read_spec_def b1(6) [symmetric] f_def [symmetric] Let_def by simp
    ultimately show ?thesis
      using b1 assms(6) True by (simp add: silence_spec)
  next
    case False
    define b2 where "b2 = (if jb_state b1 = Filling then b1\<lparr>jb_state := Playing, jb_correction_counter := 0\<rparr> else b1)"
    have b2: "jb_ok b2" "\<not> jb_overflow_flag b2" "jb_config b2 = jb_config b" "jb_state b2 = Playing"
      "jb_correction_counter b2 = (if jb_state b = Filling then 0 else jb_correction_counter b)"
      "jb_content b2 = jb_content b1"
      using b1 by (auto simp: b2_def jb_ok_def jb_config_def jb_content_def intro: JitterBufferState.exhaust)
    note cfg2 = jb_config_eqD [OF b2(3)]
    define xs where "xs = (if f > jb_max_samples b then last_n (snap_len b) (jb_content b1) else jb_content b1)"
    obtain b3 where run: "(if f > jb_max_samples b
          then and_then (jb_overrun_snap b2) (\<lambda>b'. and_then (i32_div (jb_buffered b') (i32_of (jb_num_channels b))) (\<lambda>f. Done (b', f)))
          else Done (b2, f)) = Done (b3, int (length xs div unat (jb_num_channels b)))"
      and s3: "jb_ok b3" "\<not> jb_overflow_flag b3" "same_rest b2 b3" "jb_content b3 = xs"
      by (rule overrun_step [OF b2(1,2), unfolded cfg2 b2(6), OF assms(2) nc f_def xs_def]) blast
    have b3: "jb_config b3 = jb_config b" "jb_state b3 = Playing" "jb_correction_counter b3 = jb_correction_counter b2"
      using s3(3) b2(3,4) by (simp_all add: same_rest_def)
    note cfg3 = jb_config_eqD [OF b3(1)]
    have "jb_read dst n b = jb_play_from b3 (int (length xs div unat (jb_num_channels b))) dst n"
    proof -
      have c: "\<not> (jb_state b1 = Filling \<and> f < jb_target_low b)"
        using False b1(4) by simp
      show ?thesis
        unfolding jb_read_def Let_def if_not_P [OF n] b1_def [symmetric] cfg(2,3) fill and_then.simps
        unfolding if_not_P [OF c] b2_def [symmetric] cfg2(7) run and_then.simps prod.case ..
    qed
    moreover have "play_from_spec b3 (unat n) = (res, out, rest, st, cnt)"
      using assms(7) unfolding play_from_spec_cong [OF b3(1) s3(4) b3(3)] b2(5)
        read_spec_def b1(6) [symmetric] f_def [symmetric] Let_def if_not_P [OF False] xs_def [symmetric] .
    ultimately show ?thesis
      using jb_play_from_refines [OF s3(1) _ s3(2) b3(2), of n dst] assms(2,4,5,6) cfg3 b3(1) s3(4) by simp
  qed
qed

section \<open>Sequences of operations\<close>

text \<open>Writes and reads on one buffer; the result lists what each read returned.\<close>

datatype jb_op = JWrite "sample list" u32 | JRead "sample list" u32

fun jb_run :: "jb_op list \<Rightarrow> JitterBuffer \<Rightarrow> ((bool \<times> sample list) list \<times> JitterBuffer) outcome" where
  "jb_run [] b = Done ([], b)"
| "jb_run (JWrite src n # ops) b = and_then (jb_write src n b) (\<lambda>b. jb_run ops b)"
| "jb_run (JRead dst n # ops) b =
     and_then (jb_read dst n b) (\<lambda>(ok, dst, b). and_then (jb_run ops b) (\<lambda>(rs, b). Done ((ok, dst) # rs, b)))"

text \<open>Operations whose memory arguments are large enough, with reads of at least one frame.\<close>

definition jb_op_ok :: "nat \<Rightarrow> jb_op \<Rightarrow> bool" where
  "jb_op_ok nc op =
     (case op of
        JWrite src n \<Rightarrow> unat n \<le> length src
      | JRead dst n \<Rightarrow> 0 < unat n \<and> nc \<le> unat n \<and> unat n + nc < 2147483648 \<and> unat n \<le> length dst)"

definition jb_inv :: "JitterBuffer \<Rightarrow> bool" where
  "jb_inv b \<longleftrightarrow> jb_ok b \<and> jb_config_ok b"

lemma jb_write_inv:
  assumes "jb_inv b" and "jb_op_ok nc (JWrite src n)"
  shows "\<exists>b'. jb_write src n b = Done b' \<and> jb_inv b' \<and> jb_config b' = jb_config b \<and> jb_state b' = jb_state b"
proof -
  obtain b' where b': "jb_write src n b = Done b'" "jb_ok b'" "jb_config b' = jb_config b" "jb_state b' = jb_state b"
    using jb_write_spec [of b n src] assms by (auto simp: jb_inv_def jb_op_ok_def)
  with jb_config_eqD(10) [OF b'(3)] assms(1) show ?thesis
    by (auto simp: jb_inv_def)
qed

lemma jb_read_inv:
  assumes "jb_inv b" and "jb_op_ok (unat (jb_num_channels b)) (JRead dst n)"
    and "read_spec b (unat n) = (res, out, rest, st, cnt)"
  shows "\<exists>b'. jb_read dst n b = Done (res, out @ drop (unat n) dst, b') \<and> jb_inv b' \<and>
    jb_config b' = jb_config b \<and> jb_state b' = st \<and> jb_content b' = rest"
proof -
  have "\<exists>b'. jb_read dst n b = Done (res, out @ drop (unat n) dst, b') \<and> jb_ok b' \<and> \<not> jb_overflow_flag b'
     \<and> jb_config b' = jb_config b \<and> jb_content b' = rest \<and> jb_state b' = st \<and> jb_correction_counter b' = cnt"
    by (rule jb_read_refines) (use assms in \<open>simp_all add: jb_inv_def jb_op_ok_def\<close>)
  then obtain b' where b': "jb_read dst n b = Done (res, out @ drop (unat n) dst, b')" "jb_ok b'"
    "jb_config b' = jb_config b" "jb_content b' = rest" "jb_state b' = st"
    by blast
  with jb_config_eqD(10) [OF b'(3)] assms(1) show ?thesis
    by (auto simp: jb_inv_def)
qed

lemma jb_run_inv:
  "jb_inv b \<Longrightarrow> list_all (jb_op_ok (unat (jb_num_channels b))) ops \<Longrightarrow>
     \<exists>rs b'. jb_run ops b = Done (rs, b') \<and> jb_inv b' \<and> jb_config b' = jb_config b"
proof (induction ops arbitrary: b)
  case Nil
  then show ?case by simp
next
  case (Cons op ops)
  show ?case
  proof (cases op)
    case (JWrite src n)
    with Cons.prems obtain b1 where b1: "jb_write src n b = Done b1" "jb_inv b1" "jb_config b1 = jb_config b"
      using jb_write_inv [of b "unat (jb_num_channels b)" src n] by auto
    with Cons.IH [of b1] Cons.prems jb_config_eqD(2) [of b1 b] JWrite show ?thesis by auto
  next
    case (JRead dst n)
    obtain res out rest st cnt where "read_spec b (unat n) = (res, out, rest, st, cnt)"
      by (cases "read_spec b (unat n)")
    with Cons.prems JRead obtain b1 d where b1: "jb_read dst n b = Done (res, d, b1)" "jb_inv b1"
      "jb_config b1 = jb_config b"
      using jb_read_inv [of b dst n] by auto
    with Cons.IH [of b1] Cons.prems jb_config_eqD(2) [of b1 b] JRead show ?thesis by auto
  qed
qed

text \<open>A buffer whose lower bound lies above its capacity never starts to play.\<close>

lemma starving_read:
  assumes "jb_inv b" and "jb_state b = Filling" and "int (unat (jb_capacity b)) < jb_target_low b"
  shows "\<exists>xs. read_spec b k = (False, replicate k 0, xs, Filling, jb_correction_counter b)"
proof -
  let ?xs = "if jb_overflow_flag b then last_n (snap_len b) (jb_content b) else jb_content b"
  have "length ?xs \<le> unat (jb_capacity b)"
    using jb_content_bound [of b] assms(1) by (auto simp: jb_inv_def)
  then have "length ?xs div unat (jb_num_channels b) \<le> unat (jb_capacity b)"
    by (rule order_trans [OF div_le_dividend])
  then have "int (length ?xs div unat (jb_num_channels b)) \<le> int (unat (jb_capacity b))"
    by (simp only: of_nat_le_iff)
  then have low: "int (length ?xs div unat (jb_num_channels b)) < jb_target_low b"
    using assms(3) by linarith
  show ?thesis
    unfolding read_spec_def Let_def if_P [OF conjI [OF assms(2) low]] by blast
qed

lemma starving_run:
  "jb_inv b \<Longrightarrow> jb_state b = Filling \<Longrightarrow> int (unat (jb_capacity b)) < jb_target_low b \<Longrightarrow>
     list_all (jb_op_ok (unat (jb_num_channels b))) ops \<Longrightarrow>
     \<exists>rs b'. jb_run ops b = Done (rs, b') \<and> list_all (\<lambda>(ok, out). \<not> ok) rs"
proof (induction ops arbitrary: b)
  case Nil
  then show ?case by simp
next
  case (Cons op ops)
  show ?case
  proof (cases op)
    case (JWrite src n)
    with Cons.prems obtain b1 where b1: "jb_write src n b = Done b1" "jb_inv b1" "jb_config b1 = jb_config b"
      "jb_state b1 = Filling"
      using jb_write_inv [of b "unat (jb_num_channels b)" src n] by auto
    with Cons.IH [of b1] Cons.prems jb_config_eqD(1,2,3) [of b1 b] JWrite show ?thesis by auto
  next
    case (JRead dst n)
    obtain xs where rs: "read_spec b (unat n) = (False, replicate (unat n) 0, xs, Filling, jb_correction_counter b)"
      using starving_read [OF Cons.prems(1-3)] by blast
    have "jb_op_ok (unat (jb_num_channels b)) (JRead dst n)"
      using Cons.prems(4) JRead by simp
    from jb_read_inv [OF Cons.prems(1) this rs] obtain b1 d where
      b1: "jb_read dst n b = Done (False, d, b1)" "jb_inv b1" "jb_config b1 = jb_config b" "jb_state b1 = Filling"
      by blast
    with Cons.IH [of b1] Cons.prems jb_config_eqD(1,2,3) [of b1 b] JRead show ?thesis by auto
  qed
qed

section \<open>Configurations\<close>

text \<open>
  The configurations a buffer works with: at least one channel and one frame, a ring of less than
  \<open>2^31\<close> floats, a target latency within the capacity and within the maximum latency, a minimum
  latency of at least one sample, and no product of milliseconds and rate that leaves 32 bits.
\<close>

definition jitter_config_fits :: "JitterBufferConfig \<Rightarrow> bool" where
  "jitter_config_fits c \<longleftrightarrow>
     (let rate = unat (jc_sample_rate c); frames = unat (jc_capacity_ms c) * rate div 1000 in
      0 < unat (jc_num_channels c) \<and> 0 < frames \<and> frames * unat (jc_num_channels c) < 2 ^ 31
      \<and> unat (jc_target_latency_ms c) \<le> unat (jc_capacity_ms c)
      \<and> unat (jc_target_latency_ms c) \<le> unat (jc_max_latency_ms c)
      \<and> 1000 \<le> unat (jc_min_latency_ms c) * rate
      \<and> unat (jc_capacity_ms c) * rate < 2 ^ 32 \<and> unat (jc_max_latency_ms c) * rate < 2 ^ 32
      \<and> unat (jc_min_latency_ms c) * rate < 2 ^ 32)"

lemma unat_ms_to_samples:
  "unat ms * unat rate < 2 ^ 32 \<Longrightarrow> unat (ms_to_samples ms rate) = unat ms * unat rate div 1000"
  by (simp add: ms_to_samples_def unat_div_distrib unat_mult_no_wrap)

lemma i32_of_ms_to_samples:
  assumes "unat ms * unat rate < 2 ^ 32"
  shows "i32_of (ms_to_samples ms rate) = int (unat ms * unat rate div 1000)"
proof -
  have "unat ms * unat rate div 1000 < 2147483648"
    using assms by (simp add: less_mult_imp_div_less)
  then show ?thesis
    unfolding unat_ms_to_samples [OF assms, symmetric] by (rule i32_of_small)
qed

lemma new_JitterBuffer_fields:
  assumes "jitter_config_fits c"
  defines "b \<equiv> new_JitterBuffer c" and "rate \<equiv> unat (jc_sample_rate c)"
  shows "unat (jb_capacity b) = unat (jc_capacity_ms c) * rate div 1000 * unat (jc_num_channels c)"
    and "jb_target_centre b = int (unat (jc_target_latency_ms c) * rate div 1000)"
    and "jb_max_samples b = int (unat (jc_max_latency_ms c) * rate div 1000)"
    and "jb_min_samples b = int (unat (jc_min_latency_ms c) * rate div 1000)"
    and "jb_num_channels b = jc_num_channels c" and "jb_state b = Filling" and "jb_inv b"
proof -
  note fits = assms(1) [unfolded jitter_config_fits_def Let_def, folded rate_def]
  note defs = b_def new_JitterBuffer_def Let_def
  define frames where "frames = unat (jc_capacity_ms c) * rate div 1000"
  have frames: "unat (ms_to_samples (jc_capacity_ms c) (jc_sample_rate c)) = frames"
    using fits by (simp add: unat_ms_to_samples rate_def frames_def)
  have cap: "unat (ms_to_samples (jc_capacity_ms c) (jc_sample_rate c) * jc_num_channels c)
      = frames * unat (jc_num_channels c)"
    using fits frames by (subst unat_mult_no_wrap) (simp_all add: frames_def)
  show cap': "unat (jb_capacity b) = unat (jc_capacity_ms c) * rate div 1000 * unat (jc_num_channels c)"
    using cap by (simp add: defs frames_def)
  have le_cap': "unat (jc_target_latency_ms c) * rate \<le> unat (jc_capacity_ms c) * rate"
    and le_max: "unat (jc_target_latency_ms c) * rate \<le> unat (jc_max_latency_ms c) * rate"
    using fits by (auto intro: mult_le_mono1)
  from le_cap' have le_cap: "unat (jc_target_latency_ms c) * rate div 1000 \<le> frames"
    unfolding frames_def by (rule div_le_mono)
  have "unat (jc_target_latency_ms c) * rate < 2 ^ 32"
    by (rule order.strict_trans1 [OF le_cap']) (use fits in simp)
  then show centre: "jb_target_centre b = int (unat (jc_target_latency_ms c) * rate div 1000)"
    by (simp add: defs i32_of_ms_to_samples rate_def)
  show max: "jb_max_samples b = int (unat (jc_max_latency_ms c) * rate div 1000)"
    and min: "jb_min_samples b = int (unat (jc_min_latency_ms c) * rate div 1000)"
    and nc: "jb_num_channels b = jc_num_channels c" and "jb_state b = Filling"
    using fits by (simp_all add: defs i32_of_ms_to_samples rate_def)
  have "jb_ok b"
    using cap fits by (simp add: jb_ok_def defs frames_def)
  moreover have "unat (jc_target_latency_ms c) * rate div 1000 \<le> unat (jc_max_latency_ms c) * rate div 1000"
    using le_max by (rule div_le_mono)
  moreover have "unat (jc_target_latency_ms c) * rate div 1000 * unat (jc_num_channels c) \<le> frames * unat (jc_num_channels c)"
    using le_cap by (rule mult_le_mono1)
  moreover have "0 < unat (jc_min_latency_ms c) * rate div 1000" and "0 < frames" and "0 < unat (jc_num_channels c)"
    using fits by (simp_all add: frames_def div_greater_zero_iff)
  ultimately show "jb_inv b"
    unfolding jb_inv_def jb_config_ok_def snap_len_def cap' centre max min nc frames_def [symmetric]
    by (simp del: of_nat_mult of_nat_div)
qed

text \<open>Without channels there is no ring, and the first float in or out divides by zero.\<close>

lemma jitter_no_channels:
  assumes "jc_num_channels c = 0" and "n \<noteq> 0"
  shows "jb_write src n (new_JitterBuffer c) = Crash DivideByZero"
    and "jb_read dst n (new_JitterBuffer c) = Crash DivideByZero"
proof -
  have "n > 0"
    using assms(2) by (simp add: word_neq_0_conv)
  with assms show "jb_write src n (new_JitterBuffer c) = Crash DivideByZero"
    "jb_read dst n (new_JitterBuffer c) = Crash DivideByZero"
    by (simp_all add: jb_write_def jb_read_def jb_overflow_snap_def new_JitterBuffer_def Let_def i32_div_def i32_of_def
        copy_to_ring_def u32_mod_def mem_read_def mem_write_def)
qed

text \<open>The default configuration with another target latency and number of channels.\<close>

definition latency_config :: "u32 \<Rightarrow> u32 \<Rightarrow> JitterBufferConfig" where
  "latency_config ms channels =
     default_JitterBufferConfig\<lparr>jc_target_latency_ms := ms, jc_num_channels := channels\<rparr>"

lemma latency_config_fits:
  "unat ms \<le> 200 \<Longrightarrow> 0 < unat c \<Longrightarrow> unat c \<le> 1000 \<Longrightarrow> jitter_config_fits (latency_config ms c)"
  by (simp add: jitter_config_fits_def latency_config_def default_JitterBufferConfig_def)

lemma new_fields:
  assumes "unat ms \<le> 200" and "0 < unat c" and "unat c \<le> 1000"
  defines "b \<equiv> new_JitterBuffer (latency_config ms c)"
  shows "unat (jb_capacity b) = 48000 * unat c" and "jb_target_centre b = 48 * int (unat ms)"
    and "jb_num_channels b = c" and "jb_state b = Filling" and "jb_inv b"
proof -
  note fields = new_JitterBuffer_fields [OF latency_config_fits [OF assms(1-3)], folded b_def]
  show "unat (jb_capacity b) = 48000 * unat c" and "jb_target_centre b = 48 * int (unat ms)"
    and "jb_num_channels b = c" and "jb_state b = Filling" and "jb_inv b"
    using fields(1,2,5-7) by (simp_all add: latency_config_def default_JitterBufferConfig_def)
qed

lemma read_spec_bounded:
  assumes "jb_config_ok b" and "read_spec b k = (True, out, rest, st, cnt)"
  shows "int (length rest div unat (jb_num_channels b)) \<le> jb_max_samples b"
proof -
  let ?nc = "unat (jb_num_channels b)"
  define xs where "xs = (if jb_overflow_flag b then last_n (snap_len b) (jb_content b) else jb_content b)"
  define ys where "ys = (if int (length xs div ?nc) > jb_max_samples b then last_n (snap_len b) xs else xs)"
  have "length (last_n (snap_len b) xs) div ?nc \<le> snap_len b div ?nc"
    by (intro div_le_mono) simp
  moreover have "snap_len b div ?nc = nat (jb_target_centre b)"
    using assms(1) by (simp add: snap_len_def jb_config_ok_def)
  ultimately have "int (length ys div ?nc) \<le> jb_max_samples b"
    using assms(1) by (auto simp: ys_def jb_config_ok_def)
  moreover have "length rest \<le> length ys"
    using assms(2) unfolding read_spec_def xs_def [symmetric] Let_def ys_def [symmetric]
    by (auto simp: play_spec_def Let_def split: if_splits prod.splits)
  then have "length rest div ?nc \<le> length ys div ?nc"
    by (rule div_le_mono)
  ultimately show ?thesis by linarith
qed

section \<open>Properties\<close>

text \<open>C24: a write leaves the newest samples that fit, the block appended to what was buffered, whether or not
  it overflows the ring: after an overflow the reader's position is stale, but the ring holds a full
  capacity of the newest samples before the write position.\<close>

theorem jitter_write_keeps_newest:
  assumes "jb_ok b" and "unat n \<le> length src"
  shows "\<exists>b'. jb_write src n b = Done b' \<and> jb_ok b' \<and> jb_config b' = jb_config b \<and> jb_state b' = jb_state b
     \<and> jb_content b' = last_n (unat (jb_capacity b)) (jb_content b @ take (unat n) src)"
  by (rule jb_write_spec [OF assms])

theorem jitter_write_keeps_newest_witness:
  "\<exists>b'. jb_write [1, 2, 3] 2 (new_JitterBuffer (latency_config 60 1)) = Done b' \<and> jb_content b' = [1, 2]"
proof -
  let ?b = "new_JitterBuffer (latency_config 60 1)"
  have "jb_ok ?b"
    using new_fields(5) [of 60 1] by (simp add: jb_inv_def)
  moreover have "jb_content ?b = []"
    by (simp add: jb_content_def new_JitterBuffer_def Let_def)
  moreover have "unat (jb_capacity ?b) = 48000"
    using new_fields(1) [of 60 1] by simp
  ultimately show ?thesis
    using jitter_write_keeps_newest [of ?b 2 "[1, 2, 3]"] by auto
qed

text \<open>C23: a read does exactly what the specification on the list of buffered samples says, on every branch:
  filling, overflow snap, overrun snap, underrun, a frame dropped, a frame repeated, zero padding. It
  fills the first \<open>n\<close> elements of the destination and leaves the rest of it alone.\<close>

theorem jitter_read_refines:
  assumes "jb_ok b" and "jb_config_ok b" and "0 < unat n" and "unat (jb_num_channels b) \<le> unat n"
    and "unat n + unat (jb_num_channels b) < 2147483648" and "unat n \<le> length dst"
    and "read_spec b (unat n) = (res, out, rest, st, cnt)"
  shows "\<exists>b'. jb_read dst n b = Done (res, out @ drop (unat n) dst, b') \<and> jb_ok b' \<and> \<not> jb_overflow_flag b'
     \<and> jb_config b' = jb_config b \<and> jb_content b' = rest \<and> jb_state b' = st \<and> jb_correction_counter b' = cnt"
  by (rule jb_read_refines [OF assms])

theorem jitter_read_refines_witness:
  "\<exists>b'. jb_read [7, 7, 7] 2 (new_JitterBuffer (latency_config 60 1)) = Done (False, [0, 0, 7], b')
     \<and> jb_state b' = Filling"
proof -
  let ?b = "new_JitterBuffer (latency_config 60 1)"
  have f: "jb_ok ?b" "jb_config_ok ?b" "jb_num_channels ?b = 1" "jb_state ?b = Filling"
    using new_fields(3,4,5) [of 60 1] by (simp_all add: jb_inv_def)
  have e: "jb_content ?b = []" "\<not> jb_overflow_flag ?b" "0 < jb_target_low ?b" "jb_correction_counter ?b = 0"
    by (simp_all add: jb_content_def new_JitterBuffer_def Let_def latency_config_def default_JitterBufferConfig_def
        unat_ms_to_samples i32_of_small)
  have two: "replicate 2 (0 :: sample) = [0, 0]"
    by (simp add: numeral_2_eq_2)
  have "read_spec ?b (unat (2 :: u32)) = (False, [0, 0], [], Filling, 0)"
    using f(4) e by (simp add: read_spec_def two)
  from jitter_read_refines [OF f(1,2) _ _ _ _ this, of "[7, 7, 7]"] show ?thesis
    using f(3) by auto
qed

text \<open>C25: a buffer built from a configuration that fits (at least one channel and one frame, fewer than
  \<open>2^31\<close> floats, a target latency within capacity and maximum, a minimum latency of at least a sample,
  products within 32 bits) survives every sequence of writes and reads whose memory arguments are large
  enough and whose reads ask for at least a frame: no access leaves the ring or the destination, nothing
  overflows, nothing divides by zero, and the capacity it was configured for is kept.\<close>

theorem jitter_never_faults:
  assumes "jitter_config_fits c" and "list_all (jb_op_ok (unat (jc_num_channels c))) ops"
  shows "\<exists>rs b'. jb_run ops (new_JitterBuffer c) = Done (rs, b') \<and> jb_inv b'
    \<and> unat (jb_capacity b') = unat (jc_capacity_ms c) * unat (jc_sample_rate c) div 1000 * unat (jc_num_channels c)"
proof -
  note fields = new_JitterBuffer_fields [OF assms(1)]
  obtain rs b' where "jb_run ops (new_JitterBuffer c) = Done (rs, b')" "jb_inv b'"
    "jb_config b' = jb_config (new_JitterBuffer c)"
    using jb_run_inv [OF fields(7), of ops] assms(2) fields(5) by auto
  with jb_config_eqD(1) [of b' "new_JitterBuffer c"] fields(1) show ?thesis by simp
qed

theorem jitter_never_faults_witness:
  "\<exists>rs b'. jb_run [JWrite [1, 2] 2, JRead [0, 0] 2] (new_JitterBuffer
       \<lparr>jc_sample_rate = 44100, jc_num_channels = 2, jc_target_latency_ms = 250, jc_target_window_ms = 20,
        jc_min_latency_ms = 20, jc_max_latency_ms = 400, jc_capacity_ms = 500, jc_correction_interval = 8\<rparr>) = Done (rs, b')
     \<and> unat (jb_capacity b') = 44100"
proof -
  let ?c = "\<lparr>jc_sample_rate = 44100, jc_num_channels = 2, jc_target_latency_ms = 250, jc_target_window_ms = 20,
    jc_min_latency_ms = 20, jc_max_latency_ms = 400, jc_capacity_ms = 500, jc_correction_interval = 8 :: u32\<rparr>"
  have "jitter_config_fits ?c"
    by (simp add: jitter_config_fits_def)
  moreover have "list_all (jb_op_ok (unat (jc_num_channels ?c))) [JWrite [1, 2] 2, JRead [0, 0] 2]"
    by (simp add: jb_op_ok_def)
  ultimately show ?thesis
    using jitter_never_faults [of ?c "[JWrite [1, 2] 2, JRead [0, 0] 2]"] by fastforce
qed

text \<open>Playback latency is bounded: after a read that produced audio, no more than the configured maximum
  of samples per channel is left in the buffer.\<close>

theorem jitter_latency_bounded:
  assumes "jb_ok b" and "jb_config_ok b" and "0 < unat n" and "unat (jb_num_channels b) \<le> unat n"
    and "unat n + unat (jb_num_channels b) < 2147483648" and "unat n \<le> length dst"
    and "jb_read dst n b = Done (True, dst', b')"
  shows "int (length (jb_content b') div unat (jb_num_channels b)) \<le> jb_max_samples b"
proof -
  obtain res out rest st cnt where spec: "read_spec b (unat n) = (res, out, rest, st, cnt)"
    by (metis prod_cases5)
  from jb_read_refines [OF assms(1-6) spec] assms(7) have "res" and "jb_content b' = rest"
    by auto
  then show ?thesis
    using read_spec_bounded [OF assms(2), of "unat n" out rest st cnt] spec by simp
qed

text \<open>A small buffer that is playing: eight floats, mono, three of them buffered.\<close>

definition small_playing :: JitterBuffer where
  "small_playing =
     (new_JitterBuffer \<lparr>jc_sample_rate = 1000, jc_num_channels = 1, jc_target_latency_ms = 4, jc_target_window_ms = 2,
        jc_min_latency_ms = 1, jc_max_latency_ms = 6, jc_capacity_ms = 8, jc_correction_interval = 16\<rparr>)
     \<lparr>jb_data := [1, 2, 3, 0, 0, 0, 0, 0], jb_write_pos := 3, jb_buffered := 3, jb_state := Playing\<rparr>"

lemma small_playing_ok: "jb_ok small_playing" "jb_config_ok small_playing" "jb_num_channels small_playing = 1"
  "jb_max_samples small_playing = 6"
  by (simp_all add: small_playing_def new_JitterBuffer_def Let_def ms_to_samples_def i32_of_def jb_ok_def jb_config_ok_def
      snap_len_def)

lemma small_playing_read:
  "jb_read [0, 0] 2 small_playing
     = Done (True, [1, 2], small_playing \<lparr>jb_read_pos := 2, jb_buffered := 1, jb_correction_counter := 1\<rparr>)"
  by code_simp

theorem jitter_latency_bounded_witness:
  "length (jb_content (small_playing \<lparr>jb_read_pos := 2, jb_buffered := 1, jb_correction_counter := 1\<rparr>)) \<le> 6"
  using jitter_latency_bounded [OF small_playing_ok(1,2) _ _ _ _ small_playing_read] small_playing_ok(3,4) by simp

text \<open>With the default window and a target latency below 10 ms the lower bound of the window wraps around
  as an unsigned number, and the buffer never produces anything but silence, whatever is written.\<close>

theorem jitter_short_latency_never_plays:
  assumes "unat ms < 10" and "0 < unat c" and "unat c \<le> 80" and "list_all (jb_op_ok (unat c)) ops"
  shows "\<exists>rs b'. jb_run ops (new_JitterBuffer (latency_config ms c)) = Done (rs, b')
     \<and> list_all (\<lambda>(ok, out). \<not> ok) rs"
proof -
  let ?b = "new_JitterBuffer (latency_config ms c)"
  have f: "unat (jb_capacity ?b) = 48000 * unat c" "jb_num_channels ?b = c" "jb_state ?b = Filling" "jb_inv ?b"
    using new_fields(1,3,4,5) [of ms c] assms(1-3) by simp_all
  have "ms \<in> {0, 1, 2, 3, 4, 5, 6, 7, 8, 9}"
    using assms(1) by (auto simp: word_unat_eq_iff)
  then have "4294487 \<le> jb_target_low ?b"
    by (auto simp: new_JitterBuffer_def Let_def latency_config_def default_JitterBufferConfig_def ms_to_samples_def
        i32_of_def)
  then have "int (unat (jb_capacity ?b)) < jb_target_low ?b"
    using assms(3) unfolding f(1) by linarith
  from starving_run [OF f(4,3) this, of ops] f(2) assms(4) show ?thesis
    by simp
qed

theorem jitter_short_latency_never_plays_witness:
  "\<exists>rs b'. jb_run [JWrite [1, 2] 2, JRead [0, 0] 2] (new_JitterBuffer (latency_config 9 2)) = Done (rs, b')
     \<and> list_all (\<lambda>(ok, out). \<not> ok) rs"
proof -
  have "list_all (jb_op_ok (unat (2 :: u32))) [JWrite [1, 2] 2, JRead [0, 0] 2]"
    by (simp add: jb_op_ok_def)
  then show ?thesis
    using jitter_short_latency_never_plays [of 9 2] by fastforce
qed

end
