(* ===== verification/JitterThreads.thy ===== *)
theory JitterThreads
  imports JitterBuffer
begin

text \<open>
  \<open>JitterBuffer\<close> with its two threads: \<open>write\<close> of \<open>jitter_buffer.cpp\<close> as a sequence of steps, one per access to
  an atomic member and one per float copied (each access takes effect at once), and reads, each taken
  whole, between any two of them. Lemmas: the steps alone are \<open>jb_write\<close>, and a read that sees no overflow
  flag does not look at the write position. Properties: what a read gets in the middle of a write.
\<close>

section \<open>The writer\<close>

datatype jitter_writer =
    JW_idle
  | JW_load_buffered
  | JW_set_flag
  | JW_store_buffered
  | JW_add_buffered
  | JW_load_write_pos
  | JW_copy u32 nat
  | JW_store_write_pos u32

text \<open>The buffer, the writer's place and its \<open>src\<close> and \<open>n\<close>, and what the reads have returned so far.\<close>

record JitterThreads =
  jt_buffer :: JitterBuffer
  jt_writer :: jitter_writer
  jt_src :: "sample list"
  jt_n :: u32
  jt_reads :: "(bool \<times> sample list) list"

definition new_JitterThreads :: "JitterBuffer \<Rightarrow> JitterThreads" where
  "new_JitterThreads b = \<lparr>jt_buffer = b, jt_writer = JW_idle, jt_src = [], jt_n = 0, jt_reads = []\<rparr>"

definition jitter_call_write :: "sample list \<Rightarrow> u32 \<Rightarrow> JitterThreads \<Rightarrow> JitterThreads" where
  "jitter_call_write src float_count s =
     (if float_count = 0 then s
      else
        let capacity = jb_capacity (jt_buffer s);
            (src, n) = (if float_count > capacity then (drop (unat (float_count - capacity)) src, capacity)
                        else (src, float_count)) in
        s\<lparr>jt_writer := JW_load_buffered, jt_src := src, jt_n := n\<rparr>)"

definition jitter_writer_step :: "JitterThreads \<Rightarrow> JitterThreads outcome" where
  "jitter_writer_step s =
     (let b = jt_buffer s; n = jt_n s in
      case jt_writer s of
        JW_idle \<Rightarrow> Done s
      | JW_load_buffered \<Rightarrow>
          Done (s\<lparr>jt_writer := if (word_of_int (jb_buffered b) :: u32) + n > jb_capacity b then JW_set_flag
                              else JW_add_buffered\<rparr>)
      | JW_set_flag \<Rightarrow> Done (s\<lparr>jt_buffer := b\<lparr>jb_overflow_flag := True\<rparr>, jt_writer := JW_store_buffered\<rparr>)
      | JW_store_buffered \<Rightarrow>
          Done (s\<lparr>jt_buffer := b\<lparr>jb_buffered := i32_of (jb_capacity b)\<rparr>, jt_writer := JW_load_write_pos\<rparr>)
      | JW_add_buffered \<Rightarrow>
          Done (s\<lparr>jt_buffer := b\<lparr>jb_buffered := i32_wrap (jb_buffered b + i32_of n)\<rparr>, jt_writer := JW_load_write_pos\<rparr>)
      | JW_load_write_pos \<Rightarrow> Done (s\<lparr>jt_writer := JW_copy (jb_write_pos b) 0\<rparr>)
      | JW_copy wp i \<Rightarrow>
          if i < unat n then
            and_then (elem_at (jt_src s) i) (\<lambda>x.
            and_then (mem_write (jb_data b) (ring_index (jb_capacity b) wp i) [x]) (\<lambda>data.
              Done (s\<lparr>jt_buffer := b\<lparr>jb_data := data\<rparr>, jt_writer := JW_copy wp (i + 1)\<rparr>)))
          else Done (s\<lparr>jt_writer := JW_store_write_pos wp\<rparr>)
      | JW_store_write_pos wp \<Rightarrow>
          and_then (u32_mod (wp + n) (jb_capacity b)) (\<lambda>wp.
            Done (s\<lparr>jt_buffer := b\<lparr>jb_write_pos := wp\<rparr>, jt_writer := JW_idle\<rparr>)))"

section \<open>Interleavings\<close>

datatype jitter_action = WriteCall "sample list" u32 | WriteStep | ReadWhole "sample list" u32

definition jitter_action :: "jitter_action \<Rightarrow> JitterThreads \<Rightarrow> JitterThreads outcome" where
  "jitter_action a s =
     (case a of
        WriteCall src n \<Rightarrow> Done (if jt_writer s = JW_idle then jitter_call_write src n s else s)
      | WriteStep \<Rightarrow> jitter_writer_step s
      | ReadWhole dst n \<Rightarrow>
          and_then (jb_read dst n (jt_buffer s)) (\<lambda>(ok, dst, b).
            Done (s\<lparr>jt_buffer := b, jt_reads := jt_reads s @ [(ok, dst)]\<rparr>)))"

fun run_jitter :: "jitter_action list \<Rightarrow> JitterThreads \<Rightarrow> JitterThreads outcome" where
  "run_jitter [] s = Done s"
| "run_jitter (a # as) s = and_then (jitter_action a s) (run_jitter as)"

lemma run_jitter_Nil: "run_jitter [] = Done"
  by (rule ext) simp

lemma run_jitter_append: "run_jitter (as @ bs) s = and_then (run_jitter as s) (run_jitter bs)"
proof (induction as arbitrary: s)
  case (Cons a as)
  then show ?case
    by (cases "jitter_action a s") simp_all
qed simp

lemma and_then_return [simp]: "and_then m Done = m"
  by (cases m) simp_all

lemma run_jitter_single: "run_jitter [a] = jitter_action a"
  by (rule ext) (simp add: run_jitter_Nil)

lemma run_jitter_Suc: "run_jitter (replicate (Suc i) a) s = and_then (run_jitter (replicate i a) s) (jitter_action a)"
proof -
  have "replicate (Suc i) a = replicate i a @ [a]"
    by (simp add: replicate_append_same)
  then show ?thesis
    by (simp add: run_jitter_append run_jitter_single del: replicate_Suc)
qed

section \<open>Steps of a write\<close>

lemma jitter_copies:
  assumes "jt_buffer s = b" and "jt_writer s = JW_copy wp 0" and "length (jb_data b) = unat (jb_capacity b)"
    and "unat wp < unat (jb_capacity b)" and "unat (jt_n s) \<le> unat (jb_capacity b)" and "unat (jt_n s) \<le> length (jt_src s)"
    and "i \<le> unat (jt_n s)"
  shows "run_jitter (replicate i WriteStep) s =
     Done (s\<lparr>jt_buffer := b\<lparr>jb_data := store_cells (unat wp) (jt_src s) i (jb_data b)\<rparr>, jt_writer := JW_copy wp i\<rparr>)"
  using assms(7)
proof (induction i)
  case 0
  then show ?case
    using assms(1,2) by (cases s, cases b) simp
next
  case (Suc i)
  let ?data = "store_cells (unat wp) (jt_src s) i (jb_data b)"
  have "ring_index (jb_capacity b) wp i = (unat wp + i) mod length ?data"
    using Suc.prems assms(3-5) by (simp add: ring_index_mod)
  moreover have "0 < length ?data"
    using assms(3,4) by (cases "jb_data b") auto
  ultimately have "jitter_action WriteStep (s\<lparr>jt_buffer := b\<lparr>jb_data := ?data\<rparr>, jt_writer := JW_copy wp i\<rparr>)
      = Done (s\<lparr>jt_buffer := b\<lparr>jb_data := store_cells (unat wp) (jt_src s) (Suc i) (jb_data b)\<rparr>, jt_writer := JW_copy wp (Suc i)\<rparr>)"
    using Suc.prems assms(6)
    by (simp add: jitter_action_def jitter_writer_step_def Let_def elem_at_Done mem_write_one)
  then show ?case
    using Suc by (simp only: run_jitter_Suc and_then.simps Suc_leD)
qed

text \<open>The state of the buffer while a write that fits is copying.\<close>

definition mid_write :: "sample list \<Rightarrow> u32 \<Rightarrow> nat \<Rightarrow> JitterBuffer \<Rightarrow> JitterBuffer" where
  "mid_write src n i b =
     b\<lparr>jb_buffered := i32_wrap (jb_buffered b + i32_of n), jb_data := store_cells (unat (jb_write_pos b)) src i (jb_data b)\<rparr>"

text \<open>A block that fits: it is neither cut down nor does it raise the flag.\<close>

definition fits :: "JitterBuffer \<Rightarrow> u32 \<Rightarrow> bool" where
  "fits b n \<longleftrightarrow> 0 < unat n \<and> nat (jb_buffered b) + unat n \<le> unat (jb_capacity b)"

lemma fits_word:
  assumes "jb_ok b" and "fits b n"
  shows "\<not> (word_of_int (jb_buffered b) :: u32) + n > jb_capacity b" and "\<not> n > jb_capacity b" and "n \<noteq> 0"
    and "unat n \<le> unat (jb_capacity b)"
proof -
  have b: "unat (word_of_int (jb_buffered b) :: u32) = nat (jb_buffered b)"
    using assms(1) jb_bounds [OF assms(1)] by (intro unat_word_of_int) (auto simp: jb_ok_def)
  have "unat ((word_of_int (jb_buffered b) :: u32) + n) = nat (jb_buffered b) + unat n"
    unfolding b [symmetric] using assms by (intro unat_plus_no_wrap) (simp add: b jb_ok_def fits_def)
  then show "\<not> (word_of_int (jb_buffered b) :: u32) + n > jb_capacity b"
    using assms(2) by (simp add: word_less_nat_alt fits_def)
  show "\<not> n > jb_capacity b" "n \<noteq> 0" "unat n \<le> unat (jb_capacity b)"
    using assms(2) by (auto simp: word_less_nat_alt fits_def)
qed

lemma run_to_mid_write:
  assumes "jb_ok b" and "fits b n" and "unat n \<le> length src" and "i \<le> unat n"
  shows "\<exists>s. run_jitter (WriteCall src n # replicate (3 + i) WriteStep) (new_JitterThreads b) = Done s
     \<and> jt_buffer s = mid_write src n i b \<and> jt_writer s = JW_copy (jb_write_pos b) i \<and> jt_reads s = []"
proof -
  note f = fits_word [OF assms(1,2)]
  let ?s = "(new_JitterThreads b)\<lparr>jt_buffer := b\<lparr>jb_buffered := i32_wrap (jb_buffered b + i32_of n)\<rparr>,
    jt_writer := JW_copy (jb_write_pos b) 0, jt_src := src, jt_n := n\<rparr>"
  have "run_jitter (WriteCall src n # replicate 3 WriteStep) (new_JitterThreads b) = Done ?s"
    using f(1-3) by (simp add: numeral_3_eq_3 jitter_action_def jitter_call_write_def jitter_writer_step_def new_JitterThreads_def Let_def)
  moreover have "run_jitter (replicate i WriteStep) ?s
      = Done (?s\<lparr>jt_buffer := mid_write src n i b, jt_writer := JW_copy (jb_write_pos b) i\<rparr>)"
    using assms f(4) jitter_copies [of ?s _ "jb_write_pos b" i, OF refl]
    by (simp add: jb_ok_def mid_write_def new_JitterThreads_def)
  moreover have "WriteCall src n # replicate (3 + i) WriteStep = (WriteCall src n # replicate 3 WriteStep) @ replicate i WriteStep"
    by (simp add: replicate_add)
  ultimately show ?thesis
    by (simp only: run_jitter_append and_then.simps) (simp add: new_JitterThreads_def)
qed

text \<open>A write of what the cells hold in place of what is not copied yet.\<close>

lemma stale_write:
  assumes "jb_ok b" and "fits b n" and "unat n \<le> length src" and "i \<le> unat n"
  shows "jb_write (take i src @ drop i (ring_seq (jb_data b) (unat (jb_write_pos b)) (unat n))) n b
     = Done ((mid_write src n i b)\<lparr>jb_write_pos := (jb_write_pos b + n) mod jb_capacity b\<rparr>)"
proof -
  let ?ys = "take i src @ drop i (ring_seq (jb_data b) (unat (jb_write_pos b)) (unat n))"
  note f = fits_word [OF assms(1,2)]
  have ok: "length (jb_data b) = unat (jb_capacity b)" "jb_write_pos b < jb_capacity b" "0 < unat (jb_capacity b)"
    using assms(1) by (simp_all add: jb_ok_def word_less_nat_alt)
  have "clip (jb_capacity b) ?ys n = (?ys, n)"
    using f(2) by (simp add: clip_def)
  moreover have "copy_to_ring (jb_capacity b) (jb_data b) (jb_write_pos b) ?ys n
      = Done (store_cells (unat (jb_write_pos b)) src i (jb_data b))"
    using assms(3,4) f(2,4) ok by (simp add: copy_to_ring_cells store_cells_stale)
  ultimately show ?thesis
    using jb_write_run [OF f(3) _ _ ok(3)] f(1) by (simp add: mid_write_def)
qed

section \<open>Reads and the write position\<close>

text \<open>Without an overflow flag a read neither uses nor changes the write position.\<close>

definition at_pos :: "u32 \<Rightarrow> bool \<times> sample list \<times> JitterBuffer \<Rightarrow> bool \<times> sample list \<times> JitterBuffer" where
  "at_pos wp r = (case r of (ok, dst, b) \<Rightarrow> (ok, dst, b\<lparr>jb_write_pos := wp\<rparr>))"

lemma write_pos_last:
  "b\<lparr>jb_write_pos := wp, jb_read_pos := rp\<rparr> = b\<lparr>jb_read_pos := rp, jb_write_pos := wp\<rparr>"
  "b\<lparr>jb_write_pos := wp, jb_buffered := k\<rparr> = b\<lparr>jb_buffered := k, jb_write_pos := wp\<rparr>"
  "b\<lparr>jb_write_pos := wp, jb_state := st\<rparr> = b\<lparr>jb_state := st, jb_write_pos := wp\<rparr>"
  "b\<lparr>jb_write_pos := wp, jb_correction_counter := n\<rparr> = b\<lparr>jb_correction_counter := n, jb_write_pos := wp\<rparr>"
  "b\<lparr>jb_write_pos := wp, jb_underrun_count := n\<rparr> = b\<lparr>jb_underrun_count := n, jb_write_pos := wp\<rparr>"
  "b\<lparr>jb_write_pos := wp, jb_overrun_count := n\<rparr> = b\<lparr>jb_overrun_count := n, jb_write_pos := wp\<rparr>"
  "b\<lparr>jb_write_pos := wp, jb_samples_dropped := n\<rparr> = b\<lparr>jb_samples_dropped := n, jb_write_pos := wp\<rparr>"
  "b\<lparr>jb_write_pos := wp, jb_samples_inserted := n\<rparr> = b\<lparr>jb_samples_inserted := n, jb_write_pos := wp\<rparr>"
  by (cases b; simp)+

lemma silence_at: "silence n dst (b\<lparr>jb_write_pos := wp\<rparr>) = and_then (silence n dst b) (\<lambda>r. Done (at_pos wp r))"
  by (cases "mem_write dst 0 (replicate (unat n) 0)") (simp_all add: silence_def at_pos_def)

lemma jb_take_at:
  "jb_take k c dst (b\<lparr>jb_write_pos := wp\<rparr>) = and_then (jb_take k c dst b) (\<lambda>(dst, b). Done (dst, b\<lparr>jb_write_pos := wp\<rparr>))"
  by (simp add: jb_take_def and_then_assoc write_pos_last)

lemma jb_play_at: "jb_play c n dst (b\<lparr>jb_write_pos := wp\<rparr>) = and_then (jb_play c n dst b) (\<lambda>r. Done (at_pos wp r))"
  by (simp add: jb_play_def jb_take_at and_then_assoc Let_def case_prod_unfold at_pos_def write_pos_last cong: if_cong)

lemma jb_correction_at:
  "jb_correction f (b\<lparr>jb_write_pos := wp\<rparr>) = (case jb_correction f b of (c, b) \<Rightarrow> (c, b\<lparr>jb_write_pos := wp\<rparr>))"
  by (simp add: jb_correction_def Let_def write_pos_last)

lemma jb_play_from_at:
  "jb_play_from (b\<lparr>jb_write_pos := wp\<rparr>) f dst n = and_then (jb_play_from b f dst n) (\<lambda>r. Done (at_pos wp r))"
  by (simp add: jb_play_from_def jb_correction_at case_prod_unfold jb_play_at write_pos_last silence_at Let_def)

lemma jb_overrun_snap_at:
  "jb_overrun_snap (b\<lparr>jb_write_pos := wp\<rparr>) = and_then (jb_overrun_snap b) (\<lambda>b. Done (b\<lparr>jb_write_pos := wp\<rparr>))"
  by (simp add: jb_overrun_snap_def Let_def and_then_assoc write_pos_last)

lemma and_then_if: "and_then (if c then m else m') f = (if c then and_then m f else and_then m' f)"
  by simp

lemma jb_read_at:
  assumes "\<not> jb_overflow_flag b"
  shows "jb_read dst n (b\<lparr>jb_write_pos := wp\<rparr>) = and_then (jb_read dst n b) (\<lambda>r. Done (at_pos wp r))"
  using assms
  by (simp add: jb_read_def jb_overflow_snap_def Let_def and_then_assoc silence_at jb_play_from_at jb_overrun_snap_at
      write_pos_last case_prod_unfold at_pos_def and_then_if cong: if_cong)

section \<open>The steps alone\<close>

lemma jitter_finishes:
  assumes "jt_buffer s = b" and "jt_writer s = JW_load_write_pos" and "length (jb_data b) = unat (jb_capacity b)"
    and "unat (jb_write_pos b) < unat (jb_capacity b)" and "unat (jt_n s) \<le> unat (jb_capacity b)"
    and "unat (jt_n s) \<le> length (jt_src s)"
  shows "\<exists>k. run_jitter (replicate k WriteStep) s = Done (s\<lparr>jt_buffer := b\<lparr>jb_data := store_cells (unat (jb_write_pos b)) (jt_src s)
     (unat (jt_n s)) (jb_data b), jb_write_pos := (jb_write_pos b + jt_n s) mod jb_capacity b\<rparr>, jt_writer := JW_idle\<rparr>)"
proof -
  let ?n = "unat (jt_n s)" and ?wp = "jb_write_pos b"
  let ?t = "s\<lparr>jt_writer := JW_copy ?wp 0\<rparr>"
  let ?c = "b\<lparr>jb_data := store_cells (unat ?wp) (jt_src s) ?n (jb_data b)\<rparr>"
  have "run_jitter (replicate 1 WriteStep) s = Done ?t"
    using assms(1,2) by (simp add: jitter_action_def jitter_writer_step_def)
  moreover have "run_jitter (replicate ?n WriteStep) ?t = Done (?t\<lparr>jt_buffer := ?c, jt_writer := JW_copy ?wp ?n\<rparr>)"
    using jitter_copies [of ?t b ?wp ?n] assms by simp
  moreover have "run_jitter (replicate 2 WriteStep) (?t\<lparr>jt_buffer := ?c, jt_writer := JW_copy ?wp ?n\<rparr>)
      = Done (s\<lparr>jt_buffer := ?c\<lparr>jb_write_pos := (?wp + jt_n s) mod jb_capacity b\<rparr>, jt_writer := JW_idle\<rparr>)"
    using assms(4) by (simp add: numeral_2_eq_2 jitter_action_def jitter_writer_step_def Let_def u32_mod_Done)
  ultimately have "run_jitter (replicate (1 + ?n + 2) WriteStep) s
      = Done (s\<lparr>jt_buffer := ?c\<lparr>jb_write_pos := (?wp + jt_n s) mod jb_capacity b\<rparr>, jt_writer := JW_idle\<rparr>)"
    by (simp only: replicate_add run_jitter_append and_then.simps)
  then show ?thesis
    by (rule exI [of _ "1 + ?n + 2", OF trans]) simp
qed

lemma jitter_write_alone:
  assumes "jb_ok b" and "unat n \<le> length src"
  shows "\<exists>k s. run_jitter (WriteCall src n # replicate k WriteStep) (new_JitterThreads b) = Done s \<and> jt_writer s = JW_idle
     \<and> jb_write src n b = Done (jt_buffer s)"
proof (cases "n = 0")
  case True
  then show ?thesis
    by (intro exI [of _ 0]) (simp add: jitter_action_def jitter_call_write_def jb_write_def new_JitterThreads_def)
next
  case False
  obtain xs m where clip: "clip (jb_capacity b) src n = (xs, m)"
    by fastforce
  have c: "unat m \<le> unat (jb_capacity b)" "unat m \<le> length xs"
    using clip_spec(1,2) [OF clip assms(2)] by simp_all
  have ok: "length (jb_data b) = unat (jb_capacity b)" "unat (jb_write_pos b) < unat (jb_capacity b)"
    using assms(1) by (simp_all add: jb_ok_def)
  define full where "full \<longleftrightarrow> (word_of_int (jb_buffered b) :: u32) + m > jb_capacity b"
  define b1 where "b1 = (if full then b\<lparr>jb_overflow_flag := True, jb_buffered := i32_of (jb_capacity b)\<rparr>
    else b\<lparr>jb_buffered := i32_wrap (jb_buffered b + i32_of m)\<rparr>)"
  have f: "jb_data b1 = jb_data b" "jb_capacity b1 = jb_capacity b" "jb_write_pos b1 = jb_write_pos b"
    by (simp_all add: b1_def)
  define s1 where "s1 = (new_JitterThreads b)\<lparr>jt_writer := JW_load_buffered, jt_src := xs, jt_n := m\<rparr>"
  have call: "jitter_action (WriteCall src n) (new_JitterThreads b) = Done s1"
    using False by (simp add: jitter_action_def jitter_call_write_def Let_def clip [unfolded clip_def] new_JitterThreads_def s1_def)
  have "run_jitter (replicate (if full then 3 else 2) WriteStep) s1 = Done (s1\<lparr>jt_buffer := b1, jt_writer := JW_load_write_pos\<rparr>)"
    by (simp add: full_def b1_def s1_def new_JitterThreads_def numeral_2_eq_2 numeral_3_eq_3 jitter_action_def
        jitter_writer_step_def Let_def)
  moreover obtain k s where "run_jitter (replicate k WriteStep) (s1\<lparr>jt_buffer := b1, jt_writer := JW_load_write_pos\<rparr>) = Done s"
    "jt_writer s = JW_idle" "jt_buffer s = b1\<lparr>jb_data := store_cells (unat (jb_write_pos b)) xs (unat m) (jb_data b),
      jb_write_pos := (jb_write_pos b + m) mod jb_capacity b\<rparr>"
    using jitter_finishes [of "s1\<lparr>jt_buffer := b1, jt_writer := JW_load_write_pos\<rparr>" b1] ok c f
    by (auto simp: s1_def)
  ultimately have "run_jitter (WriteCall src n # replicate ((if full then 3 else 2) + k) WriteStep) (new_JitterThreads b) = Done s"
    by (simp only: run_jitter.simps call and_then.simps replicate_add run_jitter_append)
  moreover have "jb_write src n b = Done (jt_buffer s)"
  proof -
    have "copy_to_ring (jb_capacity b) (jb_data b) (jb_write_pos b) xs m
        = Done (store_cells (unat (jb_write_pos b)) xs (unat m) (jb_data b))"
      using ok c by (intro copy_to_ring_cells) (simp_all add: word_less_nat_alt word_le_nat_alt)
    from jb_write_run [OF False clip this] ok(2) show ?thesis
      by (simp add: \<open>jt_buffer s = _\<close> b1_def full_def)
  qed
  ultimately show ?thesis
    using \<open>jt_writer s = JW_idle\<close> by blast
qed

section \<open>An overflow that a read interrupts\<close>

text \<open>A read changes neither the cells nor the write position.\<close>

lemma jb_take_keeps:
  "jb_take k c dst b = Done (dst', b') \<Longrightarrow> jb_data b' = jb_data b \<and> jb_write_pos b' = jb_write_pos b"
  by (auto simp: jb_take_def outcome_simps)

lemma jb_play_keeps:
  "jb_play c n dst b = Done (res, dst', b') \<Longrightarrow> jb_data b' = jb_data b \<and> jb_write_pos b' = jb_write_pos b"
  by (auto simp: jb_play_def outcome_simps Let_def split: if_splits dest!: jb_take_keeps)

lemma jb_play_from_keeps:
  assumes "jb_play_from b f dst n = Done (res, dst', b')"
  shows "jb_data b' = jb_data b \<and> jb_write_pos b' = jb_write_pos b"
proof -
  obtain c b1 where c: "jb_correction f b = (c, b1)" "jb_data b1 = jb_data b" "jb_write_pos b1 = jb_write_pos b"
    by (cases "jb_correction f b") (auto simp: jb_correction_def Let_def split: if_splits)
  with assms show ?thesis
    by (auto simp: jb_play_from_def silence_def outcome_simps split: if_splits dest!: jb_play_keeps)
qed

lemma jb_read_keeps:
  assumes "jb_read dst n b = Done (res, dst', b')"
  shows "jb_data b' = jb_data b \<and> jb_write_pos b' = jb_write_pos b"
proof -
  have "jb_data (jb_overflow_snap b) = jb_data b" "jb_write_pos (jb_overflow_snap b) = jb_write_pos b"
    by (simp_all add: jb_overflow_snap_def Let_def)
  moreover have "jb_data b2 = jb_data b1 \<and> jb_write_pos b2 = jb_write_pos b1" if "jb_overrun_snap b1 = Done b2" for b1 b2
    using that by (auto simp: jb_overrun_snap_def Let_def outcome_simps)
  ultimately show ?thesis
    using assms
    by (force simp: jb_read_def Let_def silence_def outcome_simps split: if_splits dest!: jb_play_from_keeps)
qed

text \<open>A read that sees the flag does not look at the fill level.\<close>

lemma jb_read_flagged:
  "n \<noteq> 0 \<Longrightarrow> jb_read dst n (b\<lparr>jb_overflow_flag := True\<rparr>) = jb_read dst n (b\<lparr>jb_overflow_flag := True, jb_buffered := f\<rparr>)"
proof -
  assume "n \<noteq> 0"
  moreover have "jb_overflow_snap (b\<lparr>jb_overflow_flag := True\<rparr>) = jb_overflow_snap (b\<lparr>jb_overflow_flag := True, jb_buffered := f\<rparr>)"
    by (cases b) (simp add: jb_overflow_snap_def Let_def)
  ultimately show ?thesis
    by (simp only: jb_read_def if_False)
qed

lemma flagged_full:
  "jb_ok b \<Longrightarrow> jb_ok (b\<lparr>jb_overflow_flag := True, jb_buffered := int (unat (jb_capacity b))\<rparr>)"
  "jb_config_ok (b\<lparr>jb_overflow_flag := True, jb_buffered := f\<rparr>) = jb_config_ok b"
  by (simp_all add: jb_ok_def jb_config_ok_def snap_len_def)

lemma read_spec_rest:
  assumes "read_spec b k = (res, out, rest, st, cnt)" and "jb_overflow_flag b"
  shows "length rest \<le> snap_len b"
proof -
  define xs where "xs = (if jb_overflow_flag b then last_n (snap_len b) (jb_content b) else jb_content b)"
  define ys where "ys = (if int (length xs div unat (jb_num_channels b)) > jb_max_samples b then last_n (snap_len b) xs else xs)"
  have "length xs \<le> snap_len b" and "length ys \<le> length xs"
    using assms(2) by (simp_all add: xs_def ys_def)
  moreover have "length rest \<le> length xs \<or> length rest \<le> length ys"
    using assms(1) unfolding read_spec_def xs_def [symmetric] Let_def ys_def [symmetric]
    by (auto simp: play_spec_def Let_def split: if_splits prod.splits)
  ultimately show ?thesis by linarith
qed

lemma run_to_flag:
  assumes "jb_ok b" and "0 < unat n" and "unat (jb_capacity b) < nat (jb_buffered b) + unat n" and "unat n \<le> unat (jb_capacity b)"
  shows "\<exists>s. run_jitter ([WriteCall src n] @ replicate 2 WriteStep) (new_JitterThreads b) = Done s
     \<and> jt_buffer s = b\<lparr>jb_overflow_flag := True\<rparr> \<and> jt_writer s = JW_store_buffered \<and> jt_src s = src \<and> jt_n s = n
     \<and> jt_reads s = []"
proof -
  have b: "unat (word_of_int (jb_buffered b) :: u32) = nat (jb_buffered b)"
    using assms(1) jb_bounds [OF assms(1)] by (intro unat_word_of_int) (auto simp: jb_ok_def)
  have "unat ((word_of_int (jb_buffered b) :: u32) + n) = nat (jb_buffered b) + unat n"
    unfolding b [symmetric] using assms jb_bounds [OF assms(1)] by (intro unat_plus_no_wrap) (simp add: b)
  then have "(word_of_int (jb_buffered b) :: u32) + n > jb_capacity b" and "\<not> n > jb_capacity b" and "n \<noteq> 0"
    using assms by (auto simp: word_less_nat_alt)
  then show ?thesis
    by (simp add: numeral_2_eq_2 jitter_action_def jitter_call_write_def jitter_writer_step_def new_JitterThreads_def Let_def)
qed

lemma store_buffered_finishes:
  assumes "jt_buffer s = b'" and "jb_ok b'" and "jb_config b' = jb_config b" and "jt_writer s = JW_store_buffered"
    and "unat (jt_n s) \<le> unat (jb_capacity b)" and "unat (jt_n s) \<le> length (jt_src s)"
  shows "\<exists>i s'. run_jitter (replicate i WriteStep) s = Done s' \<and> jt_writer s' = JW_idle \<and> jt_reads s' = jt_reads s
     \<and> jt_buffer s' = b'\<lparr>jb_buffered := int (unat (jb_capacity b)),
         jb_data := store_cells (unat (jb_write_pos b')) (jt_src s) (unat (jt_n s)) (jb_data b'),
         jb_write_pos := (jb_write_pos b' + jt_n s) mod jb_capacity b\<rparr>"
proof -
  note ok = assms(2) [unfolded jb_ok_def]
  have cap: "jb_capacity b' = jb_capacity b"
    using assms(3) by (rule jb_config_eqD)
  then have full: "i32_of (jb_capacity b') = int (unat (jb_capacity b))"
    using ok by (simp add: i32_of_small)
  let ?b1 = "b'\<lparr>jb_buffered := int (unat (jb_capacity b))\<rparr>"
  let ?s1 = "s\<lparr>jt_buffer := ?b1, jt_writer := JW_load_write_pos\<rparr>"
  have "run_jitter (replicate 1 WriteStep) s = Done ?s1"
    using assms(1,4) full by (simp add: jitter_action_def jitter_writer_step_def Let_def)
  moreover obtain i where "run_jitter (replicate i WriteStep) ?s1 = Done (?s1\<lparr>jt_buffer := ?b1\<lparr>
      jb_data := store_cells (unat (jb_write_pos ?b1)) (jt_src ?s1) (unat (jt_n ?s1)) (jb_data ?b1),
      jb_write_pos := (jb_write_pos ?b1 + jt_n ?s1) mod jb_capacity ?b1\<rparr>, jt_writer := JW_idle\<rparr>)"
    using jitter_finishes [of ?s1 ?b1] ok cap assms(5,6) by auto
  ultimately have "run_jitter (replicate (1 + i) WriteStep) s = Done (?s1\<lparr>jt_buffer := ?b1\<lparr>
      jb_data := store_cells (unat (jb_write_pos ?b1)) (jt_src ?s1) (unat (jt_n ?s1)) (jb_data ?b1),
      jb_write_pos := (jb_write_pos ?b1 + jt_n ?s1) mod jb_capacity ?b1\<rparr>, jt_writer := JW_idle\<rparr>)"
    by (simp only: replicate_add run_jitter_append and_then.simps)
  then show ?thesis
    by (intro exI [of _ "1 + i"] exI conjI) (assumption | simp add: cap)+
qed

text \<open>A lap of the ring from a position \<open>l\<close> cells before the one a block was stored at.\<close>

lemma ring_seq_stored:
  assumes "length data = cap" and "l + n \<le> cap" and "n \<le> length src" and "pos = (rp + l) mod cap"
  shows "ring_seq (store_cells pos src n data) rp cap
     = ring_seq data rp l @ take n src @ take (cap - l - n) (drop n (ring_seq data pos cap))"
proof (rule nth_equalityI)
  fix i
  assume "i < length (ring_seq (store_cells pos src n data) rp cap)"
  then have i: "i < cap" by simp
  define d where "d = (if i < l then cap - l + i else i - l)"
  have d: "d < cap"
    using i assms(2) by (auto simp: d_def)
  have "(pos + d) mod cap = (rp + l + d) mod cap"
    using assms(4) by (simp add: mod_add_left_eq)
  also have "\<dots> = (rp + i) mod cap"
  proof (cases "i < l")
    case True
    then have "rp + l + d = rp + i + cap"
      using assms(2) by (simp add: d_def)
    then show ?thesis
      by (simp only: mod_add_self2)
  qed (simp add: d_def)
  finally have at: "(pos + d) mod cap = (rp + i) mod cap" .
  have "store_cells pos src n data ! ((pos + d) mod cap) = (if d < n then src ! d else data ! ((pos + d) mod cap))"
    using nth_store_cells [of n data d pos src] assms(1,2) d by simp
  then have "ring_seq (store_cells pos src n data) rp cap ! i = (if d < n then src ! d else data ! ((rp + i) mod cap))"
    using i assms(1) at by simp
  moreover have "i < l \<Longrightarrow> \<not> d < n"
    using assms(2) by (simp add: d_def)
  ultimately show "ring_seq (store_cells pos src n data) rp cap ! i
      = (ring_seq data rp l @ take n src @ take (cap - l - n) (drop n (ring_seq data pos cap))) ! i"
    using i assms(1-3) at by (auto simp: nth_append d_def min_def)
qed (use assms in simp)

lemma undone_snap:
  assumes "jb_ok b" and "jb_ok b'" and "\<not> jb_overflow_flag b'" and "jb_config b' = jb_config b" and "jb_content b' = rest"
    and "jb_data b' = jb_data b" and "jb_write_pos b' = jb_write_pos b" and "length rest + unat n < unat (jb_capacity b)"
    and "0 < unat n" and "unat n \<le> length src"
  defines "c \<equiv> b'\<lparr>jb_buffered := int (unat (jb_capacity b)),
     jb_data := store_cells (unat (jb_write_pos b)) src (unat n) (jb_data b),
     jb_write_pos := (jb_write_pos b + n) mod jb_capacity b\<rparr>"
  shows "jb_content c = rest @ take (unat n) src @ take (unat (jb_capacity b) - length rest - unat n)
       (drop (unat n) (ring_seq (jb_data b) (unat (jb_write_pos b)) (unat (jb_capacity b))))"
    and "\<not> jb_ok c"
proof -
  let ?cap = "unat (jb_capacity b)" and ?rp = "unat (jb_read_pos b')"
  have cap: "jb_capacity b' = jb_capacity b"
    using assms(4) by (rule jb_config_eqD)
  have len: "length rest = nat (jb_buffered b')" "rest = ring_seq (jb_data b) ?rp (length rest)"
    using assms(2,3,5,6) length_jb_content [of b'] by (auto simp: jb_content_def)
  have wp: "unat (jb_write_pos b) = (?rp + length rest) mod ?cap"
    using assms(2,3,7) cap len(1) by (simp add: jb_ok_def)
  have data: "length (jb_data b) = ?cap" "?cap < 2147483648" "unat (jb_write_pos b) < ?cap"
    using assms(1) by (simp_all add: jb_ok_def)
  have "jb_content c = ring_seq (store_cells (unat (jb_write_pos b)) src (unat n) (jb_data b)) ?rp ?cap"
    using assms(3) by (simp add: jb_content_def c_def)
  with ring_seq_stored [OF data(1) _ assms(10) wp] assms(8) len(2)
  show "jb_content c = rest @ take (unat n) src @ take (?cap - length rest - unat n)
       (drop (unat n) (ring_seq (jb_data b) (unat (jb_write_pos b)) ?cap))"
    by simp
  show "\<not> jb_ok c"
  proof
    assume "jb_ok c"
    then have "unat (jb_write_pos c) = (?rp + ?cap) mod ?cap"
      using assms(3) cap by (simp add: jb_ok_def c_def)
    moreover have "unat (jb_write_pos c) = (unat (jb_write_pos b) + unat n) mod ?cap"
      using data assms(8) by (simp add: c_def unat_mod_word unat_plus_no_wrap)
    moreover have "\<dots> = (?rp + (length rest + unat n)) mod ?cap"
      by (simp add: wp mod_add_left_eq add.assoc)
    ultimately show False
      using mod_distinct [of ?rp "?rp + (length rest + unat n)" ?cap] assms(8,9) by simp
  qed
qed

section \<open>Properties\<close>

text \<open>C26: \<open>write\<close> counts a block as buffered before it copies it. A read that falls between the two, after the
  first \<open>i\<close> floats, returns and consumes exactly what it would after a finished write of those floats
  followed by whatever the remaining cells of the ring held before: old audio, which is played, while
  the floats copied over it afterwards are taken for played already.\<close>

theorem jitter_read_during_write:
  assumes "jb_ok b" and "\<not> jb_overflow_flag b" and "0 < unat n" and "nat (jb_buffered b) + unat n \<le> unat (jb_capacity b)"
    and "unat n \<le> length src" and "i \<le> unat n"
  shows "\<exists>s b'. run_jitter (WriteCall src n # replicate (3 + i) WriteStep) (new_JitterThreads b) = Done s
     \<and> jb_write (take i src @ drop i (ring_seq (jb_data b) (unat (jb_write_pos b)) (unat n))) n b = Done b'
     \<and> (\<forall>dst m. jb_read dst m (jt_buffer s)
          = and_then (jb_read dst m b') (\<lambda>(ok, dst, b''). Done (ok, dst, b''\<lparr>jb_write_pos := jb_write_pos b\<rparr>)))"
proof -
  have fits: "fits b n"
    using assms(3,4) by (simp add: fits_def)
  obtain s where s: "run_jitter (WriteCall src n # replicate (3 + i) WriteStep) (new_JitterThreads b) = Done s"
    "jt_buffer s = mid_write src n i b"
    using run_to_mid_write [OF assms(1) fits assms(5,6)] by blast
  define b' where "b' = (mid_write src n i b)\<lparr>jb_write_pos := (jb_write_pos b + n) mod jb_capacity b\<rparr>"
  have "jt_buffer s = b'\<lparr>jb_write_pos := jb_write_pos b\<rparr>" "\<not> jb_overflow_flag b'"
    using assms(2) by (simp_all add: s(2) b'_def mid_write_def)
  then show ?thesis
    using s(1) stale_write [OF assms(1) fits assms(5,6), folded b'_def] jb_read_at [of b']
    by (auto simp: at_pos_def case_prod_unfold)
qed

lemma small_playing_stale:
  "jb_write [0, 0] 2 small_playing = Done (small_playing\<lparr>jb_buffered := 5, jb_write_pos := 5\<rparr>)"
  "jb_read [9, 9, 9, 9, 9] 5 (small_playing\<lparr>jb_buffered := 5, jb_write_pos := 5\<rparr>)
     = Done (True, [1, 2, 3, 0, 0], small_playing\<lparr>jb_buffered := 0, jb_write_pos := 5, jb_read_pos := 5, jb_correction_counter := 1\<rparr>)"
  by code_simp+

theorem jitter_read_during_write_witness:
  "\<exists>s b. run_jitter (WriteCall [4, 5] 2 # replicate 3 WriteStep) (new_JitterThreads small_playing) = Done s
     \<and> jb_read [9, 9, 9, 9, 9] 5 (jt_buffer s) = Done (True, [1, 2, 3, 0, 0], b)"
proof -
  have f: "\<not> jb_overflow_flag small_playing" "jb_buffered small_playing = 3" "unat (jb_capacity small_playing) = 8"
    "ring_seq (jb_data small_playing) (unat (jb_write_pos small_playing)) 2 = [0, 0]"
    by (simp_all add: small_playing_def new_JitterBuffer_def Let_def ms_to_samples_def ring_seq_def upt_rec)
  show ?thesis
    using jitter_read_during_write [OF small_playing_ok(1) f(1), of 2 "[4, 5]" 0] f(2-4)
    by (auto simp: small_playing_stale)
qed

lemmas jitter_run_simps = replicate_steps jitter_action_def jitter_call_write_def jitter_writer_step_def
  ring_index_def new_JitterThreads_def small_playing_def new_JitterBuffer_def u32_mod_def elem_at_def mem_write_def
  mem_read_def Let_def jb_read_def jb_overflow_snap_def jb_overrun_snap_def jb_correction_def jb_play_from_def jb_play_def
  jb_take_def zero_fill_def silence_def copy_from_ring_def i32_add_def i32_div_def i32_of_def i32_wrap_def
  ms_to_samples_def jb_ok_def i32_max_def

text \<open>C28: a read that falls between the writer's raising of the overflow flag and its store of the fill level
  clears the flag and snaps to the target latency, and the writer then declares the ring full from there
  on. For every buffer in order, every block that overflows it and leaves room for the target latency, and
  every read: the flag is gone, the positions no longer fit the fill level, and what will be played is the
  rest of what the read saw, then the block, then old floats from behind the write position, up to a full
  ring.\<close>

theorem jitter_overflow_race:
  fixes b :: JitterBuffer
  defines "cap \<equiv> unat (jb_capacity b)"
  assumes "jb_ok b" and "jb_config_ok b" and "\<not> jb_overflow_flag b"
    and "0 < unat n" and "unat n \<le> length src" and "cap < nat (jb_buffered b) + unat n" and "snap_len b + unat n < cap"
    and "0 < unat m" and "unat (jb_num_channels b) \<le> unat m" and "unat m + unat (jb_num_channels b) < 2147483648"
    and "unat m \<le> length dst"
  shows "\<exists>i s res out rest st cnt.
     read_spec (b\<lparr>jb_overflow_flag := True, jb_buffered := int cap\<rparr>) (unat m) = (res, out, rest, st, cnt)
   \<and> run_jitter ([WriteCall src n] @ replicate 2 WriteStep @ [ReadWhole dst m] @ replicate i WriteStep)
       (new_JitterThreads b) = Done s
   \<and> jt_writer s = JW_idle \<and> jt_reads s = [(res, out @ drop (unat m) dst)] \<and> \<not> jb_overflow_flag (jt_buffer s)
   \<and> jb_content (jt_buffer s) = rest @ take (unat n) src
       @ take (cap - length rest - unat n) (drop (unat n) (ring_seq (jb_data b) (unat (jb_write_pos b)) cap))
   \<and> \<not> jb_ok (jt_buffer s)"
proof -
  let ?bf = "b\<lparr>jb_overflow_flag := True, jb_buffered := int cap\<rparr>"
  obtain res out rest st cnt where spec: "read_spec ?bf (unat m) = (res, out, rest, st, cnt)"
    by (metis prod_cases5)
  have short: "length rest + unat n < cap"
    using read_spec_rest [OF spec] assms(8) by (simp add: snap_len_def)
  obtain b' where b': "jb_read dst m ?bf = Done (res, out @ drop (unat m) dst, b')" "jb_ok b'"
    "\<not> jb_overflow_flag b'" "jb_config b' = jb_config b" "jb_content b' = rest"
    using jb_read_refines [OF flagged_full(1) [OF assms(2), folded cap_def] _ _ _ _ _ spec] assms(3,9-12) flagged_full(2)
    by (auto simp: cap_def jb_config_def)
  have same: "jb_data b' = jb_data b" "jb_write_pos b' = jb_write_pos b"
    using jb_read_keeps [OF b'(1)] by simp_all
  obtain s1 where s1: "run_jitter ([WriteCall src n] @ replicate 2 WriteStep) (new_JitterThreads b) = Done s1"
    "jt_buffer s1 = b\<lparr>jb_overflow_flag := True\<rparr>" "jt_writer s1 = JW_store_buffered" "jt_src s1 = src" "jt_n s1 = n"
    "jt_reads s1 = []"
    using run_to_flag [OF assms(2), of n src] assms(5,7,8) by (auto simp: cap_def)
  have "m \<noteq> 0"
    using assms(9) by auto
  note flagged = jb_read_flagged [OF this, where b = b and f = "int cap"]
  have read: "run_jitter [ReadWhole dst m] s1
      = Done (s1\<lparr>jt_buffer := b', jt_reads := [(res, out @ drop (unat m) dst)]\<rparr>)"
    using b'(1) s1(2,6) by (simp add: jitter_action_def flagged)
  let ?s2 = "s1\<lparr>jt_buffer := b', jt_reads := [(res, out @ drop (unat m) dst)]\<rparr>"
  obtain i s where s: "run_jitter (replicate i WriteStep) ?s2 = Done s" "jt_writer s = JW_idle" "jt_reads s = jt_reads ?s2"
    "jt_buffer s = b'\<lparr>jb_buffered := int cap, jb_data := store_cells (unat (jb_write_pos b)) src (unat n) (jb_data b),
       jb_write_pos := (jb_write_pos b + n) mod jb_capacity b\<rparr>"
    using store_buffered_finishes [of ?s2 b' b] b'(2,4) s1(3-5) assms(2,6,8) same by (auto simp: cap_def)
  have "run_jitter ([WriteCall src n] @ replicate 2 WriteStep @ [ReadWhole dst m] @ replicate i WriteStep)
       (new_JitterThreads b) = Done s"
    using s1(1) read s(1) by (simp only: append_assoc [symmetric] run_jitter_append and_then.simps)
  moreover have "jb_content (jt_buffer s) = rest @ take (unat n) src
       @ take (cap - length rest - unat n) (drop (unat n) (ring_seq (jb_data b) (unat (jb_write_pos b)) cap))"
    and "\<not> jb_ok (jt_buffer s)"
    using undone_snap [OF assms(2) b'(2-5) same short [unfolded cap_def]] assms(5,6) by (simp_all add: s(4) cap_def)
  ultimately show ?thesis
    using spec s(2,3,4) b'(3) by (intro exI conjI) (assumption | simp)+
qed

text \<open>
  A mono ring of eight that holds 1 to 7, with a target latency of four: 8 and 9 overflow it. The reader gets
  4 and 5, and after 6 to 9 it will get 2 to 5, which are older.
\<close>

definition seven_playing :: JitterBuffer where
  "seven_playing = small_playing\<lparr>jb_data := [1, 2, 3, 4, 5, 6, 7, 0], jb_write_pos := 7, jb_buffered := 7\<rparr>"

theorem jitter_overflow_race_witness:
  "\<exists>i s. run_jitter ([WriteCall [8, 9] 2] @ replicate 2 WriteStep @ [ReadWhole [0, 0] 2] @ replicate i WriteStep)
       (new_JitterThreads seven_playing) = Done s
     \<and> jt_reads s = [(True, [4, 5])] \<and> jb_content (jt_buffer s) = [6, 7, 8, 9, 2, 3, 4, 5] \<and> \<not> jb_ok (jt_buffer s)"
proof -
  have f: "unat (jb_capacity seven_playing) = 8" "jb_buffered seven_playing = 7" "snap_len seven_playing = 4"
    "unat (jb_num_channels seven_playing) = 1" "\<not> jb_overflow_flag seven_playing" "jb_ok seven_playing"
    "jb_config_ok seven_playing"
    "ring_seq (jb_data seven_playing) (unat (jb_write_pos seven_playing)) 8 = [0, 1, 2, 3, 4, 5, 6, 7]"
    by (simp_all add: seven_playing_def small_playing_def new_JitterBuffer_def Let_def ms_to_samples_def i32_of_def
        snap_len_def jb_ok_def jb_config_ok_def ring_seq_def upt_rec)
  have spec: "read_spec (seven_playing\<lparr>jb_overflow_flag := True, jb_buffered := int 8\<rparr>) (unat (2 :: u32))
      = (True, [4, 5], [6, 7], Playing, 1)"
    by (simp add: read_spec_def play_spec_def jb_content_def last_n_def seven_playing_def small_playing_def
        new_JitterBuffer_def Let_def ms_to_samples_def i32_of_def snap_len_def ring_seq_def upt_rec)
  show ?thesis
    using jitter_overflow_race [of seven_playing 2 "[8, 9]" 2 "[0, 0]", unfolded f spec] f(5-7)
    by (simp del: run_jitter.simps append.simps replicate.simps) (elim exE conjE, intro exI conjI, assumption+, simp+)
qed

text \<open>
  The host's view of a longer run: the reader gets 13, a float of the first block, after 20, and the positions
  still do not fit the fill level.
\<close>

lemma jitter_overflow_run:
  "case run_jitter
      ([WriteCall [11, 12, 13, 14, 15, 16] 6] @ replicate 2 WriteStep @ [ReadWhole [0, 0, 0] 3] @ replicate 10 WriteStep
       @ [ReadWhole [0, 0] 2, WriteCall [17, 18] 2] @ replicate 7 WriteStep
       @ [ReadWhole [0, 0] 2, WriteCall [19, 20] 2] @ replicate 7 WriteStep @ [ReadWhole [0, 0] 2, ReadWhole [0, 0] 2])
      (new_JitterThreads small_playing) of
     Done s \<Rightarrow> jt_writer s = JW_idle \<and> \<not> jb_overflow_flag (jt_buffer s) \<and> \<not> jb_ok (jt_buffer s)
       \<and> jt_reads s = [(True, [0, 1, 2]), (True, [14, 15]), (True, [16, 17]), (True, [18, 19]), (True, [20, 13])]
   | _ \<Rightarrow> False"
  by (simp add: jitter_run_simps word_le_nat_alt)

end
