(* ===== verification/Codec.thy ===== *)
theory Codec
  imports Ring
begin

text \<open>
  \<open>opus_codec.h\<close> and \<open>opus_codec.cpp\<close>: the Opus encoder and decoder wrappers and the PCM framing.
  libopus is a parameter, the record \<open>opus_lib\<close> of the functions the wrappers call; a codec state of the
  library is a value of an unspecified type. Lemmas: which calls leave a wrapper usable, what is passed
  to the library, that nothing is accessed out of bounds, and the round trip of the PCM framing.
\<close>

unbundle bit_operations_syntax

section \<open>The Opus library\<close>

datatype opus_ctl = SET_BITRATE int | SET_VBR int | SET_DTX int | SET_COMPLEXITY int | SET_SIGNAL_VOICE

text \<open>
  The functions with \<open>ms\<close> in their name are the multistream interface; the constant arguments (the VOIP
  application, mapping family 2, no forward error correction) are left out.
  Creation returns a pointer that may be null and an error code. \<open>oe_encode\<close> maps the state, the
  samples, the frame count and the room in the output to the new state, the bytes stored and the
  returned count; \<open>od_decode\<close> likewise, \<open>None\<close> for the null packet of loss concealment.
\<close>

record 'h opus_lib =
  oe_create :: "int \<Rightarrow> int \<Rightarrow> 'h option \<times> int"
  oe_ms_create :: "int \<Rightarrow> int \<Rightarrow> 'h option \<times> int"
  oe_ctl :: "opus_ctl \<Rightarrow> 'h \<Rightarrow> 'h"
  oe_ms_ctl :: "opus_ctl \<Rightarrow> 'h \<Rightarrow> 'h"
  oe_encode :: "'h \<Rightarrow> sample list \<Rightarrow> int \<Rightarrow> int \<Rightarrow> 'h \<times> bytes \<times> int"
  oe_ms_encode :: "'h \<Rightarrow> sample list \<Rightarrow> int \<Rightarrow> int \<Rightarrow> 'h \<times> bytes \<times> int"
  od_create :: "int \<Rightarrow> int \<Rightarrow> 'h option \<times> int"
  od_ms_create :: "int \<Rightarrow> int \<Rightarrow> int \<Rightarrow> int \<Rightarrow> bytes \<Rightarrow> 'h option \<times> int"
  od_decode :: "'h \<Rightarrow> bytes option \<Rightarrow> int \<Rightarrow> int \<Rightarrow> 'h \<times> sample list \<times> int"
  od_ms_decode :: "'h \<Rightarrow> bytes option \<Rightarrow> int \<Rightarrow> int \<Rightarrow> 'h \<times> sample list \<times> int"

section \<open>The encoder wrapper\<close>

record OpusEncoderConfig =
  ec_sample_rate :: u32
  ec_channels :: u32
  ec_bitrate :: u32
  ec_frame_size_ms :: u32
  ec_complexity :: u32
  ec_dtx :: bool
  ec_vbr :: bool

definition default_OpusEncoderConfig :: OpusEncoderConfig where
  "default_OpusEncoderConfig =
     \<lparr>ec_sample_rate = 48000, ec_channels = 1, ec_bitrate = 64000, ec_frame_size_ms = 5, ec_complexity = 5,
      ec_dtx = True, ec_vbr = True\<rparr>"

record 'h OpusEncoderWrapper =
  oe_encoder :: "'h option"
  oe_ms_encoder :: "'h option"
  oe_sample_rate :: u32
  oe_channels :: u32
  oe_frame_size_samples :: u32

definition new_OpusEncoderWrapper :: "'h OpusEncoderWrapper" where
  "new_OpusEncoderWrapper =
     \<lparr>oe_encoder = None, oe_ms_encoder = None, oe_sample_rate = 48000, oe_channels = 1, oe_frame_size_samples = 240\<rparr>"

definition encoder_destroy :: "'h OpusEncoderWrapper \<Rightarrow> 'h OpusEncoderWrapper" where
  "encoder_destroy w = w\<lparr>oe_encoder := None, oe_ms_encoder := None\<rparr>"

text \<open>Move construction and move assignment (not to itself): the new object and the one moved from.\<close>

definition encoder_move :: "'h OpusEncoderWrapper \<Rightarrow> 'h OpusEncoderWrapper \<times> 'h OpusEncoderWrapper" where
  "encoder_move other = (other, other\<lparr>oe_encoder := None, oe_ms_encoder := None\<rparr>)"

definition encoder_move_assign ::
    "'h OpusEncoderWrapper \<Rightarrow> 'h OpusEncoderWrapper \<Rightarrow> 'h OpusEncoderWrapper \<times> 'h OpusEncoderWrapper" where
  "encoder_move_assign this other =
     (let this = encoder_destroy this in
      (this\<lparr>oe_encoder := oe_encoder other, oe_ms_encoder := oe_ms_encoder other,
            oe_sample_rate := oe_sample_rate other, oe_channels := oe_channels other,
            oe_frame_size_samples := oe_frame_size_samples other\<rparr>,
       other\<lparr>oe_encoder := None, oe_ms_encoder := None\<rparr>))"

text \<open>The five controls, in the order of the calls; \<open>static_cast<opus_int32>\<close> is \<open>sint\<close>.\<close>

definition encoder_controls :: "OpusEncoderConfig \<Rightarrow> opus_ctl list" where
  "encoder_controls config =
     [SET_BITRATE (sint (ec_bitrate config)), SET_VBR (if ec_vbr config then 1 else 0),
      SET_DTX (if ec_dtx config then 1 else 0), SET_COMPLEXITY (sint (ec_complexity config)), SET_SIGNAL_VOICE]"

definition valid_frame_size :: "u32 \<Rightarrow> bool" where
  "valid_frame_size ms \<longleftrightarrow> ms = 5 \<or> ms = 10 \<or> ms = 20 \<or> ms = 40 \<or> ms = 60"

definition encoder_init ::
    "'h opus_lib \<Rightarrow> OpusEncoderConfig \<Rightarrow> 'h OpusEncoderWrapper \<Rightarrow> bool \<times> 'h OpusEncoderWrapper" where
  "encoder_init L config w =
     (let w = encoder_destroy w in
      if \<not> valid_frame_size (ec_frame_size_ms config) then (False, w)
      else if ec_channels config = 0 then (False, w)
      else
        let w = w\<lparr>oe_sample_rate := ec_sample_rate config, oe_channels := ec_channels config,
                  oe_frame_size_samples := ec_sample_rate config * ec_frame_size_ms config div 1000\<rparr> in
        if oe_channels w \<le> 2 then
          (case oe_create L (sint (oe_sample_rate w)) (sint (oe_channels w)) of
             (Some h, err) \<Rightarrow>
               if err \<noteq> 0 then (False, w\<lparr>oe_encoder := None\<rparr>)
               else (True, w\<lparr>oe_encoder := Some (fold (oe_ctl L) (encoder_controls config) h)\<rparr>)
           | (None, err) \<Rightarrow> (False, w\<lparr>oe_encoder := None\<rparr>))
        else
          (case oe_ms_create L (sint (oe_sample_rate w)) (sint (oe_channels w)) of
             (Some h, err) \<Rightarrow>
               if err \<noteq> 0 then (False, w\<lparr>oe_ms_encoder := None\<rparr>)
               else (True, w\<lparr>oe_ms_encoder := Some (fold (oe_ms_ctl L) (encoder_controls config) h)\<rparr>)
           | (None, err) \<Rightarrow> (False, w\<lparr>oe_ms_encoder := None\<rparr>)))"

definition encoder_initialized :: "'h OpusEncoderWrapper \<Rightarrow> bool" where
  "encoder_initialized w \<longleftrightarrow> oe_encoder w \<noteq> None \<or> oe_ms_encoder w \<noteq> None"

text \<open>
  The library reads \<open>frame_count * channels\<close> samples and stores the bytes it reports at the start of
  the output. The returned count, the output and the wrapper.
\<close>

definition encoder_encode ::
    "'h opus_lib \<Rightarrow> sample list \<Rightarrow> u32 \<Rightarrow> bytes \<Rightarrow> u32 \<Rightarrow> 'h OpusEncoderWrapper
      \<Rightarrow> (int \<times> bytes \<times> 'h OpusEncoderWrapper) outcome" where
  "encoder_encode L pcm frame_count output max_output_size w =
     (if \<not> encoder_initialized w then Done (- 1, output, w)
      else if frame_count \<noteq> oe_frame_size_samples w then Done (- 1, output, w)
      else
        and_then (mem_read pcm 0 (unat frame_count * unat (oe_channels w))) (\<lambda>xs.
        case oe_encoder w of
          Some h \<Rightarrow>
            (let (h, bs, n) = oe_encode L h xs (sint frame_count) (sint max_output_size) in
             and_then (mem_write output 0 bs) (\<lambda>output. Done (n, output, w\<lparr>oe_encoder := Some h\<rparr>)))
        | None \<Rightarrow>
            (case oe_ms_encoder w of
               Some h \<Rightarrow>
                 (let (h, bs, n) = oe_ms_encode L h xs (sint frame_count) (sint max_output_size) in
                  and_then (mem_write output 0 bs) (\<lambda>output. Done (n, output, w\<lparr>oe_ms_encoder := Some h\<rparr>)))
             | None \<Rightarrow> Done (- 1, output, w))))"

section \<open>The decoder wrapper\<close>

record OpusDecoderConfig =
  dc_sample_rate :: u32
  dc_channels :: u32

record 'h OpusDecoderWrapper =
  od_decoder :: "'h option"
  od_ms_decoder :: "'h option"
  od_sample_rate :: u32
  od_channels :: u32

definition new_OpusDecoderWrapper :: "'h OpusDecoderWrapper" where
  "new_OpusDecoderWrapper = \<lparr>od_decoder = None, od_ms_decoder = None, od_sample_rate = 48000, od_channels = 1\<rparr>"

definition decoder_destroy :: "'h OpusDecoderWrapper \<Rightarrow> 'h OpusDecoderWrapper" where
  "decoder_destroy w = w\<lparr>od_decoder := None, od_ms_decoder := None\<rparr>"

definition decoder_move :: "'h OpusDecoderWrapper \<Rightarrow> 'h OpusDecoderWrapper \<times> 'h OpusDecoderWrapper" where
  "decoder_move other = (other, other\<lparr>od_decoder := None, od_ms_decoder := None\<rparr>)"

definition decoder_move_assign ::
    "'h OpusDecoderWrapper \<Rightarrow> 'h OpusDecoderWrapper \<Rightarrow> 'h OpusDecoderWrapper \<times> 'h OpusDecoderWrapper" where
  "decoder_move_assign this other =
     (let this = decoder_destroy this in
      (this\<lparr>od_decoder := od_decoder other, od_ms_decoder := od_ms_decoder other,
            od_sample_rate := od_sample_rate other, od_channels := od_channels other\<rparr>,
       other\<lparr>od_decoder := None, od_ms_decoder := None\<rparr>))"

text \<open>The loop that fills the identity mapping, \<open>n\<close> rounds from index \<open>i\<close> on.\<close>

fun fill_mapping :: "nat \<Rightarrow> nat \<Rightarrow> bytes \<Rightarrow> bytes outcome" where
  "fill_mapping 0 i mapping = Done mapping"
| "fill_mapping (Suc n) i mapping = and_then (mem_write mapping i [of_nat i]) (fill_mapping n (i + 1))"

definition decoder_init ::
    "'h opus_lib \<Rightarrow> OpusDecoderConfig \<Rightarrow> 'h OpusDecoderWrapper \<Rightarrow> (bool \<times> 'h OpusDecoderWrapper) outcome" where
  "decoder_init L config w =
     (let w = decoder_destroy w in
      if dc_channels config = 0 then Done (False, w)
      else
        let w = w\<lparr>od_sample_rate := dc_sample_rate config, od_channels := dc_channels config\<rparr> in
        if od_channels w \<le> 2 then
          (case od_create L (sint (od_sample_rate w)) (sint (od_channels w)) of
             (h, err) \<Rightarrow>
               if err \<noteq> 0 \<or> h = None then Done (False, w\<lparr>od_decoder := None\<rparr>)
               else Done (True, w\<lparr>od_decoder := h\<rparr>))
        else
          let streams = sint (od_channels w) in
          and_then (fill_mapping (nat streams) 0 (replicate 255 0)) (\<lambda>mapping.
          case od_ms_create L (sint (od_sample_rate w)) (sint (od_channels w)) streams 0 mapping of
            (h, err) \<Rightarrow>
              if err \<noteq> 0 \<or> h = None then Done (False, w\<lparr>od_ms_decoder := None\<rparr>)
              else Done (True, w\<lparr>od_ms_decoder := h\<rparr>)))"

definition decoder_initialized :: "'h OpusDecoderWrapper \<Rightarrow> bool" where
  "decoder_initialized w \<longleftrightarrow> od_decoder w \<noteq> None \<or> od_ms_decoder w \<noteq> None"

text \<open>The call that both \<open>decode\<close> and \<open>decode_plc\<close> end with, with the packet \<open>None\<close> for the latter.\<close>

definition decoder_run ::
    "'h opus_lib \<Rightarrow> bytes option \<Rightarrow> int \<Rightarrow> sample list \<Rightarrow> u32 \<Rightarrow> 'h OpusDecoderWrapper
      \<Rightarrow> (int \<times> sample list \<times> 'h OpusDecoderWrapper) outcome" where
  "decoder_run L packet packet_len pcm frames w =
     (case od_decoder w of
        Some h \<Rightarrow>
          (let (h, xs, n) = od_decode L h packet packet_len (sint frames) in
           and_then (mem_write pcm 0 xs) (\<lambda>pcm. Done (n, pcm, w\<lparr>od_decoder := Some h\<rparr>)))
      | None \<Rightarrow>
          (case od_ms_decoder w of
             Some h \<Rightarrow>
               (let (h, xs, n) = od_ms_decode L h packet packet_len (sint frames) in
                and_then (mem_write pcm 0 xs) (\<lambda>pcm. Done (n, pcm, w\<lparr>od_ms_decoder := Some h\<rparr>)))
           | None \<Rightarrow> Done (- 1, pcm, w)))"

definition decoder_decode ::
    "'h opus_lib \<Rightarrow> bytes \<Rightarrow> u32 \<Rightarrow> sample list \<Rightarrow> u32 \<Rightarrow> 'h OpusDecoderWrapper
      \<Rightarrow> (int \<times> sample list \<times> 'h OpusDecoderWrapper) outcome" where
  "decoder_decode L data data_len pcm max_frame_count w =
     (if \<not> decoder_initialized w then Done (- 1, pcm, w)
      else and_then (mem_read data 0 (unat data_len)) (\<lambda>packet.
        decoder_run L (Some packet) (sint data_len) pcm max_frame_count w))"

definition decoder_decode_plc ::
    "'h opus_lib \<Rightarrow> sample list \<Rightarrow> u32 \<Rightarrow> 'h OpusDecoderWrapper
      \<Rightarrow> (int \<times> sample list \<times> 'h OpusDecoderWrapper) outcome" where
  "decoder_decode_plc L pcm frame_count w =
     (if \<not> decoder_initialized w then Done (- 1, pcm, w) else decoder_run L None 0 pcm frame_count w)"

section \<open>PCM framing\<close>

text \<open>The bytes of a float in memory, least significant first, and the floats a byte block holds.\<close>

definition le4 :: "sample \<Rightarrow> bytes" where
  "le4 x = rev (be_bytes 4 x)"

fun floats_of :: "bytes \<Rightarrow> sample list" where
  "floats_of (a # b # c # d # bs) = be_value 0 [d, c, b, a] # floats_of bs"
| "floats_of _ = []"

definition pcm_frame :: "sample list \<Rightarrow> u32 \<Rightarrow> u32 \<Rightarrow> bytes \<Rightarrow> (u32 \<times> bytes) outcome" where
  "pcm_frame pcm frame_count channels output =
     (let total_samples = frame_count * channels;
          byte_count = total_samples * 4 in
      and_then (mem_read (concat (map le4 pcm)) 0 (unat byte_count)) (\<lambda>bs.
      and_then (mem_write output 0 bs) (\<lambda>output. Done (byte_count, output))))"

definition pcm_unframe :: "bytes \<Rightarrow> u32 \<Rightarrow> sample list \<Rightarrow> u32 \<Rightarrow> (u32 \<times> sample list) outcome" where
  "pcm_unframe data data_len pcm channels =
     (if channels = 0 then Done (0, pcm)
      else
        let sample_bytes = channels * 4 in
        and_then (u32_mod data_len sample_bytes) (\<lambda>r.
        if r \<noteq> 0 then Done (0, pcm)
        else
          let total_samples = data_len div 4 in
          and_then (mem_read data 0 (unat data_len)) (\<lambda>bs.
          and_then (mem_write pcm 0 (floats_of bs)) (\<lambda>pcm.
          and_then (u32_div total_samples channels) (\<lambda>frames. Done (frames, pcm))))))"

section \<open>Wrappers\<close>

text \<open>What \<open>init\<close> leaves behind: at most one codec, and a usable wrapper exactly when it reports success.\<close>

definition encoder_single :: "'h OpusEncoderWrapper \<Rightarrow> bool" where
  "encoder_single w \<longleftrightarrow> \<not> (oe_encoder w \<noteq> None \<and> oe_ms_encoder w \<noteq> None)"

lemma encoder_init_usable:
  "encoder_init L config w = (ok, w') \<Longrightarrow> encoder_initialized w' = ok \<and> encoder_single w'"
  by (auto simp: encoder_init_def encoder_destroy_def encoder_initialized_def encoder_single_def Let_def
      split: if_splits option.splits prod.splits)

lemma encoder_init_ok:
  "encoder_init L config w = (True, w') \<Longrightarrow>
     valid_frame_size (ec_frame_size_ms config) \<and> ec_channels config \<noteq> 0 \<and> oe_channels w' = ec_channels config \<and>
     oe_frame_size_samples w' = ec_sample_rate config * ec_frame_size_ms config div 1000"
  by (auto simp: encoder_init_def encoder_destroy_def Let_def split: if_splits option.splits prod.splits)

lemma encoder_init_bad_frame_size:
  "\<not> valid_frame_size (ec_frame_size_ms config) \<Longrightarrow> encoder_init L config w = (False, encoder_destroy w)"
  by (simp add: encoder_init_def Let_def)

lemma encoder_destroy_new [simp]: "encoder_destroy new_OpusEncoderWrapper = new_OpusEncoderWrapper"
  by (simp add: encoder_destroy_def new_OpusEncoderWrapper_def)

lemma encoder_move_leaves_nothing:
  "\<not> encoder_initialized (snd (encoder_move_assign this other))
     \<and> encoder_initialized (fst (encoder_move_assign this other)) = encoder_initialized other"
  by (simp add: encoder_move_assign_def encoder_initialized_def Let_def)

lemma fill_mapping_eq:
  "fill_mapping n i mapping =
     (if n = 0 \<or> i + n \<le> length mapping
      then Done (take i mapping @ map of_nat [i..<i + n] @ drop (i + n) mapping) else Crash OutOfBounds)"
proof (induction n arbitrary: i mapping)
  case 0
  then show ?case by simp
next
  case (Suc n)
  show ?case
  proof (cases "i < length mapping")
    case True
    define m where "m = mapping[i := of_nat i]"
    have "mem_write mapping i [of_nat i] = Done m"
      using True by (simp add: m_def mem_write_def upd_conv_take_nth_drop)
    moreover have "take (Suc i) m = take i mapping @ [of_nat i]" and "length m = length mapping"
      "drop (Suc i + n) m = drop (Suc i + n) mapping"
      using True by (simp_all add: m_def take_Suc_conv_app_nth)
    moreover have "m = take i mapping @ of_nat i # drop (Suc i) mapping"
      using True by (simp add: m_def upd_conv_take_nth_drop)
    ultimately show ?thesis
      using True by (cases "n = 0") (simp_all add: Suc upt_conv_Cons)
  next
    case False
    then show ?thesis by (simp add: mem_write_def)
  qed
qed

section \<open>PCM framing\<close>

lemma length_le4 [simp]: "length (le4 x) = 4"
  by (simp add: le4_def)

lemma length_le4s: "length (concat (map le4 xs)) = 4 * length xs"
  by (induction xs) simp_all

lemma le4_cases: obtains a b c d where "le4 x = [a, b, c, d]" and "be_value 0 [d, c, b, a] = x"
proof -
  obtain a b c d where r: "le4 x = [a, b, c, d]"
    by (simp add: le4_def eval_nat_numeral)
  have "be_value 0 (rev (le4 x)) = take_bit 32 x"
    by (simp add: le4_def be_value_be_bytes)
  also have "take_bit 32 x = x"
    by (rule bit_word_eqI) (auto simp: bit_simps)
  finally have "be_value 0 (rev (le4 x)) = x" .
  then have "be_value 0 [d, c, b, a] = x"
    by (simp add: r del: be_value.simps)
  with r show ?thesis
    by (rule that)
qed

lemma floats_of_le4s: "floats_of (concat (map le4 xs)) = xs"
proof (induction xs)
  case Nil
  then show ?case by simp
next
  case (Cons x xs)
  obtain a b c d where "le4 x = [a, b, c, d]" and "be_value 0 [d, c, b, a] = x"
    by (rule le4_cases)
  with Cons show ?case
    by (simp del: be_value.simps)
qed

lemma take_le4s: "take (4 * n) (concat (map le4 xs)) = concat (map le4 (take n xs))"
proof (induction xs arbitrary: n)
  case Nil
  then show ?case by simp
next
  case (Cons x xs)
  then show ?case by (cases n) simp_all
qed

text \<open>What the two PCM functions do when nothing wraps and every block is large enough.\<close>

lemma pcm_frame_Done:
  assumes "4 * (unat n * unat channels) < 4294967296" and "unat n * unat channels \<le> length pcm"
    and "4 * (unat n * unat channels) \<le> length output"
  shows "\<exists>k. unat k = 4 * (unat n * unat channels) \<and> pcm_frame pcm n channels output
    = Done (k, concat (map le4 (take (unat n * unat channels) pcm)) @ drop (unat k) output)"
proof -
  define m where "m = unat n * unat channels"
  have t: "unat (n * channels) = m"
    using assms(1) unfolding m_def by (intro unat_mult_no_wrap) linarith
  have k: "unat (n * channels * 4) = 4 * m"
    using assms(1) t by (subst unat_mult_no_wrap) (simp_all add: m_def [symmetric])
  have bs: "length (concat (map le4 (take m pcm))) = 4 * m"
    using assms(2) by (simp only: length_le4s length_take m_def [symmetric])
  have "mem_read (concat (map le4 pcm)) 0 (4 * m) = Done (concat (map le4 (take m pcm)))"
    using assms(2) length_le4s [of pcm] by (simp add: mem_read_def take_le4s m_def)
  then show ?thesis
    using assms(3) by (intro exI [of _ "n * channels * 4"])
      (simp add: pcm_frame_def Let_def k mem_write_def bs m_def [symmetric])
qed

lemma pcm_unframe_Done:
  assumes "0 < unat channels" and "0 < unat n" and "length xs = unat n * unat channels"
    and "unat k = 4 * length xs" and "length xs \<le> length dst"
  shows "pcm_unframe (concat (map le4 xs) @ rest) k dst channels = Done (n, xs @ drop (length xs) dst)"
proof -
  have small: "4 * length xs < 4294967296"
    using assms(4) unsigned_less [of k, where 'a = nat] by simp
  have "unat channels * 4 \<le> 4 * length xs"
    using assms(2,3) by simp
  then have ch: "unat (channels * 4) = 4 * unat channels"
    using small by (subst unat_mult_no_wrap) simp_all
  have "u32_mod k (channels * 4) = Done 0"
    using assms(1) by (subst u32_mod_Done) (simp_all add: ch word_unat_eq_iff unat_mod_word assms(3,4))
  moreover have "unat (k div 4) = length xs"
    by (simp add: unat_div_distrib assms(4))
  then have "k div 4 div channels = n"
    using assms(1) by (simp add: word_unat_eq_iff unat_div_distrib assms(3))
  then have "u32_div (k div 4) channels = Done n"
    using assms(1) by (subst u32_div_Done) simp_all
  moreover have "channels \<noteq> 0"
    using assms(1) by auto
  ultimately show ?thesis
    using assms(4,5) length_le4s [of xs] by (simp add: pcm_unframe_def mem_read_def mem_write_def floats_of_le4s)
qed

section \<open>Properties\<close>

text \<open>C33: what \<open>pcm_frame\<close> writes for a block of frames, \<open>pcm_unframe\<close> turns back into the same samples and
  the same frame count, and both leave the rest of their destination alone.\<close>

theorem pcm_round_trip:
  assumes "0 < unat channels" and "0 < unat n" and "4 * (unat n * unat channels) < 4294967296"
    and "unat n * unat channels \<le> length pcm" and "unat n * unat channels \<le> length dst"
    and "4 * (unat n * unat channels) \<le> length output"
  shows "\<exists>k out. pcm_frame pcm n channels output = Done (k, out) \<and> unat k = 4 * (unat n * unat channels)
     \<and> drop (unat k) out = drop (unat k) output
     \<and> pcm_unframe out k dst channels
         = Done (n, take (unat n * unat channels) pcm @ drop (unat n * unat channels) dst)"
proof -
  let ?m = "unat n * unat channels"
  let ?bs = "concat (map le4 (take ?m pcm))"
  obtain k where k: "unat k = 4 * ?m" "pcm_frame pcm n channels output = Done (k, ?bs @ drop (unat k) output)"
    using pcm_frame_Done [OF assms(3,4,6)] by blast
  have xs: "length (take ?m pcm) = ?m"
    using assms(4) by simp
  have "pcm_unframe (?bs @ drop (unat k) output) k dst channels = Done (n, take ?m pcm @ drop ?m dst)"
    using pcm_unframe_Done [OF assms(1,2) xs, of k dst] assms(5) k(1) unfolding xs by simp
  moreover have "length ?bs = unat k"
    using length_le4s [of "take ?m pcm"] k(1) unfolding xs by simp
  ultimately show ?thesis
    using k by simp
qed

theorem pcm_round_trip_witness:
  "\<exists>k out. pcm_frame [7, 8, 9] 1 2 (replicate 8 0) = Done (k, out)
     \<and> pcm_unframe out k [0, 0, 0] 2 = Done (1, [7, 8, 0])"
  using pcm_round_trip [of 2 1 "[7, 8, 9]" "[0, 0, 0]" "replicate 8 0"]
  by auto

text \<open>A decoder for three or more channels is handed the identity mapping of its channels, but the mapping
  array has 255 entries: a configuration with more channels than that writes past its end.\<close>

theorem decoder_channel_limit:
  assumes "2 < unat (dc_channels config)" and "unat (dc_channels config) < 2147483648"
  shows "decoder_init L config w =
    (if unat (dc_channels config) \<le> 255 then
       (let c = unat (dc_channels config);
            w = decoder_destroy w \<lparr>od_sample_rate := dc_sample_rate config, od_channels := dc_channels config\<rparr>;
            (h, err) = od_ms_create L (sint (dc_sample_rate config)) (int c) (int c) 0
              (map of_nat [0..<c] @ replicate (255 - c) 0) in
        Done (err = 0 \<and> h \<noteq> None, w\<lparr>od_ms_decoder := if err = 0 then h else None\<rparr>))
     else Crash OutOfBounds)"
proof -
  define c where "c = unat (dc_channels config)"
  have c: "sint (dc_channels config) = int c" and "2 < c"
    using assms sint_u32_small [of "dc_channels config"] by (simp_all only: c_def)
  then have "fill_mapping c 0 (replicate 255 0)
      = (if c \<le> 255 then Done (map of_nat [0..<c] @ replicate (255 - c) 0) else Crash OutOfBounds)"
    by (simp add: fill_mapping_eq)
  moreover have "dc_channels config \<noteq> 0" "\<not> dc_channels config \<le> 2"
    using assms(1) by (auto simp: word_le_nat_alt)
  ultimately show ?thesis
    unfolding c_def [symmetric]
    by (auto simp: decoder_init_def Let_def c decoder_destroy_def split: prod.split)
qed

text \<open>A library that accepts everything: its codec state counts the calls.\<close>

definition counting_opus :: "nat opus_lib" where
  "counting_opus =
     \<lparr>oe_create = (\<lambda>_ _. (Some 0, 0)), oe_ms_create = (\<lambda>_ _. (Some 0, 0)), oe_ctl = (\<lambda>_ h. h), oe_ms_ctl = (\<lambda>_ h. h),
      oe_encode = (\<lambda>h xs n room. (h + 1, [0xFC], 1)), oe_ms_encode = (\<lambda>h xs n room. (h + 1, [0xFC], 1)),
      od_create = (\<lambda>_ _. (Some 0, 0)), od_ms_create = (\<lambda>_ _ _ _ _. (Some 0, 0)),
      od_decode = (\<lambda>h p n room. (h + 1, [0], 1)), od_ms_decode = (\<lambda>h p n room. (h + 1, [0], 1))\<rparr>"

theorem decoder_channel_limit_witness:
  "decoder_init counting_opus \<lparr>dc_sample_rate = 48000, dc_channels = 256\<rparr> new_OpusDecoderWrapper = Crash OutOfBounds"
  using decoder_channel_limit [of "\<lparr>dc_sample_rate = 48000, dc_channels = 256\<rparr>" counting_opus new_OpusDecoderWrapper]
  by simp

end
