(* ===== verification/Transport.thy ===== *)
theory Transport
  imports Messages Datagram
begin

text \<open>
  \<open>MoqTransport\<close> of \<open>moq_transport.h\<close> and \<open>moq_transport.cpp\<close>: the QUIC connection life cycle, the control
  stream with its reassembly buffer, the datagrams, and the memory handed to msquic. msquic and
  \<open>malloc\<close> are a parameter that says which calls succeed, given the calls made before. The callbacks
  are a parameter too: a function from the event and the whole state (which a client extends, so that
  a callback may change the client and use the transport) to the state after the callback.
  Definitions only: theory \<open>TransportSafety\<close> proves the handle and memory discipline, theory
  \<open>Reassembly\<close> that what is delivered does not depend on how the stream is cut into chunks.
\<close>

unbundle bit_operations_syntax

section \<open>State\<close>

datatype TransportState = TS_Disconnected | TS_Connecting | TS_Connected | TS_Ready | TS_Failed

text \<open>The enumeration is ordered by declaration; the code compares states with \<open><\<close>.\<close>

fun state_rank :: "TransportState \<Rightarrow> nat" where
  "state_rank TS_Disconnected = 0"
| "state_rank TS_Connecting = 1"
| "state_rank TS_Connected = 2"
| "state_rank TS_Ready = 3"
| "state_rank TS_Failed = 4"

instantiation TransportState :: linorder
begin

definition less_eq_TransportState :: "TransportState \<Rightarrow> TransportState \<Rightarrow> bool" where
  "less_eq_TransportState s t \<longleftrightarrow> state_rank s \<le> state_rank t"

definition less_TransportState :: "TransportState \<Rightarrow> TransportState \<Rightarrow> bool" where
  "less_TransportState s t \<longleftrightarrow> state_rank s < state_rank t"

instance
proof
  fix s t :: TransportState
  assume "s \<le> t" and "t \<le> s"
  then show "s = t"
    by (cases s; cases t) (simp_all add: less_eq_TransportState_def)
qed (auto simp: less_eq_TransportState_def less_TransportState_def)

end

record TransportConfig =
  tc_host :: bytes
  tc_port :: u16
  tc_skip_cert_validation :: bool
  tc_idle_timeout_ms :: u32

text \<open>Which of the four callbacks are set.\<close>

record TransportCallbacks =
  cb_on_state_changed :: bool
  cb_on_control_message :: bool
  cb_on_datagram :: bool
  cb_on_datagram_state_changed :: bool

definition no_callbacks :: TransportCallbacks where
  "no_callbacks = \<lparr>cb_on_state_changed = False, cb_on_control_message = False, cb_on_datagram = False,
                   cb_on_datagram_state_changed = False\<rparr>"

datatype transport_event =
    StateChanged TransportState string
  | ControlMessage u64 bytes
  | DatagramObject ObjectDatagram
  | DatagramStateChanged u32

text \<open>Memory blocks are numbered; a \<open>SendContext\<close> holds two of them and lies in a third.\<close>

record SendContext =
  sc_data_buf :: nat
  sc_quic_buf :: nat

datatype sys_call =
    MsQuicOpen2 | RegistrationOpen | ConfigurationOpen bytes u32 | ConfigurationLoadCredential bool
  | ConnectionOpen | ConnectionStart bytes u16 | StreamOpen | StreamStart
  | StreamSend nat SendContext bytes | DatagramSend nat bytes | SetCallbackHandler
  | StreamClose | ConnectionShutdown | ConnectionClose | ConfigurationClose | RegistrationClose | MsQuicClose
  | Malloc nat

text \<open>
  The handles are recorded as set or null. The last four fields are bookkeeping the code does not have:
  the calls made with their outcome, the callbacks made, the blocks allocated, and the sends msquic
  has accepted and not yet completed.
\<close>

record Transport =
  tr_msquic :: bool
  tr_registration :: bool
  tr_configuration :: bool
  tr_connection :: bool
  tr_control_stream :: bool
  tr_current_state :: TransportState
  tr_max_dgram_size :: u32
  tr_callbacks :: TransportCallbacks
  tr_pending_control_data :: "bytes list"
  tr_pending_connected :: bool
  tr_pending_transport_shutdown :: bool
  tr_pending_peer_shutdown :: bool
  tr_recv_buffer :: bytes
  tr_disconnecting :: bool
  tr_calls :: "(sys_call \<times> bool) list"
  tr_events :: "transport_event list"
  tr_live :: "nat list"
  tr_next_block :: nat
  tr_stream_sends :: "(nat \<times> SendContext) list"
  tr_datagram_sends :: "nat list"

definition new_MoqTransport :: Transport where
  "new_MoqTransport =
     \<lparr>tr_msquic = False, tr_registration = False, tr_configuration = False, tr_connection = False,
      tr_control_stream = False, tr_current_state = TS_Disconnected, tr_max_dgram_size = 0,
      tr_callbacks = no_callbacks, tr_pending_control_data = [], tr_pending_connected = False,
      tr_pending_transport_shutdown = False, tr_pending_peer_shutdown = False, tr_recv_buffer = [],
      tr_disconnecting = False, tr_calls = [], tr_events = [], tr_live = [], tr_next_block = 0,
      tr_stream_sends = [], tr_datagram_sends = []\<rparr>"

type_synonym environment = "(sys_call \<times> bool) list \<Rightarrow> sys_call \<Rightarrow> bool"
type_synonym 's handler = "transport_event \<Rightarrow> 's \<Rightarrow> 's outcome"

section \<open>Calls and callbacks\<close>

definition sys :: "environment \<Rightarrow> sys_call \<Rightarrow> 'z Transport_scheme \<Rightarrow> bool \<times> 'z Transport_scheme" where
  "sys Q c t = (let ok = Q (tr_calls t) c in (ok, t\<lparr>tr_calls := tr_calls t @ [(c, ok)]\<rparr>))"

definition malloc :: "environment \<Rightarrow> nat \<Rightarrow> 'z Transport_scheme \<Rightarrow> nat option \<times> 'z Transport_scheme" where
  "malloc Q n t =
     (let (ok, t) = sys Q (Malloc n) t in
      if ok then (Some (tr_next_block t),
                  t\<lparr>tr_live := tr_next_block t # tr_live t, tr_next_block := tr_next_block t + 1\<rparr>)
      else (None, t))"

definition free_block :: "nat \<Rightarrow> 'z Transport_scheme \<Rightarrow> 'z Transport_scheme outcome" where
  "free_block p t =
     (if p \<in> set (tr_live t) then Done (t\<lparr>tr_live := remove1 p (tr_live t)\<rparr>) else Crash BadFree)"

text \<open>A callback that is set is recorded and run.\<close>

definition fire :: "'z Transport_scheme handler \<Rightarrow> bool \<Rightarrow> transport_event \<Rightarrow> 'z Transport_scheme
    \<Rightarrow> 'z Transport_scheme outcome" where
  "fire H callback ev t = (if callback then H ev (t\<lparr>tr_events := tr_events t @ [ev]\<rparr>) else Done t)"

definition set_state :: "'z Transport_scheme handler \<Rightarrow> TransportState \<Rightarrow> string \<Rightarrow> 'z Transport_scheme
    \<Rightarrow> 'z Transport_scheme outcome" where
  "set_state H new_state message t =
     (let t = t\<lparr>tr_current_state := new_state\<rparr> in
      fire H (cb_on_state_changed (tr_callbacks t)) (StateChanged new_state message) t)"

section \<open>Life cycle\<close>

text \<open>\<open>"moqt-16"\<close>\<close>

definition kMoqAlpn :: bytes where
  "kMoqAlpn = [0x6D, 0x6F, 0x71, 0x74, 0x2D, 0x31, 0x36]"

definition init_quic :: "environment \<Rightarrow> TransportConfig \<Rightarrow> 'z Transport_scheme \<Rightarrow> bool \<times> 'z Transport_scheme" where
  "init_quic Q config t =
     (let (ok, t) = sys Q MsQuicOpen2 t in
      if \<not> ok then (False, t)
      else
        let (ok, t) = sys Q RegistrationOpen (t\<lparr>tr_msquic := True\<rparr>) in
        if \<not> ok then (False, t)
        else
          let (ok, t) = sys Q (ConfigurationOpen kMoqAlpn (tc_idle_timeout_ms config)) (t\<lparr>tr_registration := True\<rparr>) in
          if \<not> ok then (False, t)
          else
            let (ok, t) = sys Q (ConfigurationLoadCredential (tc_skip_cert_validation config))
                            (t\<lparr>tr_configuration := True\<rparr>) in
            (ok, t))"

text \<open>\<open>cleanup_quic\<close>: the handles in reverse order, then the flags and buffers.\<close>

definition close_stream :: "environment \<Rightarrow> 'z Transport_scheme \<Rightarrow> 'z Transport_scheme" where
  "close_stream Q t =
     (if tr_control_stream t \<and> tr_msquic t then (snd (sys Q StreamClose t))\<lparr>tr_control_stream := False\<rparr> else t)"

definition close_connection :: "environment \<Rightarrow> 'z Transport_scheme \<Rightarrow> 'z Transport_scheme" where
  "close_connection Q t =
     (if tr_connection t \<and> tr_msquic t
      then (snd (sys Q ConnectionClose (snd (sys Q ConnectionShutdown t))))\<lparr>tr_connection := False\<rparr> else t)"

definition close_configuration :: "environment \<Rightarrow> 'z Transport_scheme \<Rightarrow> 'z Transport_scheme" where
  "close_configuration Q t =
     (if tr_configuration t \<and> tr_msquic t
      then (snd (sys Q ConfigurationClose t))\<lparr>tr_configuration := False\<rparr> else t)"

definition close_registration :: "environment \<Rightarrow> 'z Transport_scheme \<Rightarrow> 'z Transport_scheme" where
  "close_registration Q t =
     (if tr_registration t \<and> tr_msquic t
      then (snd (sys Q RegistrationClose t))\<lparr>tr_registration := False\<rparr> else t)"

definition close_api :: "environment \<Rightarrow> 'z Transport_scheme \<Rightarrow> 'z Transport_scheme" where
  "close_api Q t = (if tr_msquic t then (snd (sys Q MsQuicClose t))\<lparr>tr_msquic := False\<rparr> else t)"

definition reset_transport_state :: "'z Transport_scheme \<Rightarrow> 'z Transport_scheme" where
  "reset_transport_state t =
     t\<lparr>tr_max_dgram_size := 0, tr_pending_connected := False, tr_pending_transport_shutdown := False,
       tr_pending_peer_shutdown := False, tr_recv_buffer := [], tr_pending_control_data := []\<rparr>"

definition cleanup_quic :: "environment \<Rightarrow> 'z Transport_scheme \<Rightarrow> 'z Transport_scheme" where
  "cleanup_quic Q t =
     reset_transport_state (close_api Q (close_registration Q (close_configuration Q
       (close_connection Q (close_stream Q t)))))"

definition start_connection :: "environment \<Rightarrow> TransportConfig \<Rightarrow> 'z Transport_scheme
    \<Rightarrow> (bool \<times> 'z Transport_scheme) outcome" where
  "start_connection Q config t =
     (if \<not> tr_msquic t then Crash NullPointer
      else
        let (ok, t) = sys Q ConnectionOpen t in
        if \<not> ok then Done (False, t)
        else Done (sys Q (ConnectionStart (tc_host config) (tc_port config)) (t\<lparr>tr_connection := True\<rparr>)))"

section \<open>Sending\<close>

text \<open>The sizes of \<open>QUIC_BUFFER\<close> and \<open>SendContext\<close>: a length and a pointer, and two pointers.\<close>

definition sizeof_QUIC_BUFFER :: nat where "sizeof_QUIC_BUFFER = 16"
definition sizeof_SendContext :: nat where "sizeof_SendContext = 16"

definition send_on_control_stream :: "environment \<Rightarrow> bytes \<Rightarrow> u32 \<Rightarrow> 'z Transport_scheme
    \<Rightarrow> (bool \<times> 'z Transport_scheme) outcome" where
  "send_on_control_stream Q data len t =
     (if \<not> tr_control_stream t \<or> \<not> tr_msquic t then Done (False, t)
      else
        let (data_buf, t) = malloc Q (unat len) t in
        case data_buf of None \<Rightarrow> Done (False, t) | Some data_buf \<Rightarrow>
        and_then (mem_read data 0 (unat len)) (\<lambda>contents.
        let (quic_buf, t) = malloc Q sizeof_QUIC_BUFFER t in
        case quic_buf of None \<Rightarrow> and_then (free_block data_buf t) (\<lambda>t. Done (False, t)) | Some quic_buf \<Rightarrow>
        let (ctx, t) = malloc Q sizeof_SendContext t in
        case ctx of
          None \<Rightarrow> and_then (free_block data_buf t) (\<lambda>t. and_then (free_block quic_buf t) (\<lambda>t. Done (False, t)))
        | Some ctx \<Rightarrow>
        let c = \<lparr>sc_data_buf = data_buf, sc_quic_buf = quic_buf\<rparr>;
            (ok, t) = sys Q (StreamSend ctx c contents) t in
        if \<not> ok then
          and_then (free_block data_buf t) (\<lambda>t. and_then (free_block quic_buf t) (\<lambda>t.
          and_then (free_block ctx t) (\<lambda>t. Done (False, t))))
        else Done (True, t\<lparr>tr_stream_sends := (ctx, c) # tr_stream_sends t\<rparr>)))"

definition send_datagram_impl :: "environment \<Rightarrow> bytes \<Rightarrow> u32 \<Rightarrow> 'z Transport_scheme
    \<Rightarrow> (bool \<times> 'z Transport_scheme) outcome" where
  "send_datagram_impl Q data len t =
     (if \<not> tr_msquic t \<or> \<not> tr_connection t \<or> len = 0 then Done (False, t)
      else
        let (block, t) = malloc Q (sizeof_QUIC_BUFFER + unat len) t in
        case block of None \<Rightarrow> Done (False, t) | Some block \<Rightarrow>
        and_then (mem_read data 0 (unat len)) (\<lambda>contents.
        let (ok, t) = sys Q (DatagramSend block contents) t in
        if \<not> ok then and_then (free_block block t) (\<lambda>t. Done (False, t))
        else Done (True, t\<lparr>tr_datagram_sends := block # tr_datagram_sends t\<rparr>)))"

definition default_client_setup :: bytes where
  "default_client_setup = build_client_setup default_ClientSetupConfig"

definition start_moq_session :: "environment \<Rightarrow> 'z Transport_scheme handler \<Rightarrow> 'z Transport_scheme
    \<Rightarrow> 'z Transport_scheme outcome" where
  "start_moq_session Q H t =
     (if \<not> tr_msquic t then Crash NullPointer
      else
        let (ok, t) = sys Q StreamOpen t in
        if \<not> ok then set_state H TS_Failed ''Failed to open control stream'' t
        else
          let (ok, t) = sys Q StreamStart (t\<lparr>tr_control_stream := True\<rparr>) in
          if \<not> ok then set_state H TS_Failed ''Failed to start control stream'' t
          else and_then (send_on_control_stream Q default_client_setup (of_nat (length default_client_setup)) t)
                 (\<lambda>(sent, t). Done t))"

section \<open>Events from msquic\<close>

datatype datagram_send_state =
    QD_Unknown | QD_Sent | QD_LostSuspect | QD_LostDiscarded | QD_Acknowledged | QD_AcknowledgedSpurious | QD_Canceled

datatype connection_event =
    CE_Connected
  | CE_ShutdownByTransport u64
  | CE_ShutdownByPeer u64
  | CE_ShutdownComplete
  | CE_PeerStreamStarted
  | CE_DatagramStateChanged bool u32
  | CE_DatagramReceived bytes
  | CE_DatagramSendStateChanged "nat option" datagram_send_state
  | CE_Other

text \<open>
  The bookkeeping of accepted sends: the block of a datagram leaves it when it is freed.
\<close>

definition on_connection_event :: "environment \<Rightarrow> 'z Transport_scheme handler \<Rightarrow> connection_event
    \<Rightarrow> 'z Transport_scheme \<Rightarrow> 'z Transport_scheme outcome" where
  "on_connection_event Q H event t =
     (case event of
        CE_Connected \<Rightarrow> Done (t\<lparr>tr_pending_connected := True\<rparr>)
      | CE_ShutdownByTransport status \<Rightarrow> Done (t\<lparr>tr_pending_transport_shutdown := True\<rparr>)
      | CE_ShutdownByPeer error_code \<Rightarrow> Done (t\<lparr>tr_pending_peer_shutdown := True\<rparr>)
      | CE_ShutdownComplete \<Rightarrow> Done t
      | CE_PeerStreamStarted \<Rightarrow>
          if tr_msquic t then Done (snd (sys Q SetCallbackHandler t)) else Crash NullPointer
      | CE_DatagramStateChanged send_enabled max_send_length \<Rightarrow>
          (let t = (if send_enabled then t\<lparr>tr_max_dgram_size := max_send_length\<rparr> else t) in
           fire H (cb_on_datagram_state_changed (tr_callbacks t)) (DatagramStateChanged max_send_length) t)
      | CE_DatagramReceived raw \<Rightarrow>
          if cb_on_datagram (tr_callbacks t) then
            (case parse_object_datagram raw of
               Done dg \<Rightarrow> fire H True (DatagramObject dg) t
             | Reject \<Rightarrow> Done t
             | Crash e \<Rightarrow> Crash e)
          else Done t
      | CE_DatagramSendStateChanged raw_ctx dg_state \<Rightarrow>
          (case raw_ctx of
             None \<Rightarrow> Done t
           | Some block \<Rightarrow>
               if dg_state \<noteq> QD_Unknown \<and> dg_state \<noteq> QD_Sent \<and> dg_state \<noteq> QD_LostSuspect
               then free_block block (t\<lparr>tr_datagram_sends := remove1 block (tr_datagram_sends t)\<rparr>)
               else Done t)
      | CE_Other \<Rightarrow> Done t)"

datatype stream_event =
    SE_Receive "bytes list"
  | SE_SendComplete "(nat \<times> SendContext) option"
  | SE_PeerSendShutdown
  | SE_ShutdownComplete
  | SE_Other

definition on_stream_event :: "stream_event \<Rightarrow> 'z Transport_scheme \<Rightarrow> 'z Transport_scheme outcome" where
  "on_stream_event event t =
     (case event of
        SE_Receive buffers \<Rightarrow> Done (t\<lparr>tr_pending_control_data := tr_pending_control_data t @ buffers\<rparr>)
      | SE_SendComplete None \<Rightarrow> Done t
      | SE_SendComplete (Some (ctx, c)) \<Rightarrow>
          and_then (free_block (sc_data_buf c) (t\<lparr>tr_stream_sends := remove1 (ctx, c) (tr_stream_sends t)\<rparr>)) (\<lambda>t.
          and_then (free_block (sc_quic_buf c) t) (\<lambda>t. free_block ctx t))
      | SE_PeerSendShutdown \<Rightarrow> Done t
      | SE_ShutdownComplete \<Rightarrow> Done t
      | SE_Other \<Rightarrow> Done t)"

section \<open>Processing what has arrived\<close>

text \<open>The three event flags, each read and cleared before the state change.\<close>

definition take_connected :: "environment \<Rightarrow> 'z Transport_scheme handler \<Rightarrow> 'z Transport_scheme
    \<Rightarrow> 'z Transport_scheme outcome" where
  "take_connected Q H t =
     (if tr_pending_connected t then
        and_then (set_state H TS_Connected ''QUIC connected'' (t\<lparr>tr_pending_connected := False\<rparr>)) (start_moq_session Q H)
      else Done t)"

definition take_transport_shutdown :: "'z Transport_scheme handler \<Rightarrow> 'z Transport_scheme \<Rightarrow> 'z Transport_scheme outcome" where
  "take_transport_shutdown H t =
     (if tr_pending_transport_shutdown t then
        let t = t\<lparr>tr_pending_transport_shutdown := False\<rparr> in
        if \<not> tr_disconnecting t then set_state H TS_Failed ''Transport shutdown'' t else Done t
      else Done t)"

definition take_peer_shutdown :: "'z Transport_scheme handler \<Rightarrow> 'z Transport_scheme \<Rightarrow> 'z Transport_scheme outcome" where
  "take_peer_shutdown H t =
     (if tr_pending_peer_shutdown t then
        let t = t\<lparr>tr_pending_peer_shutdown := False\<rparr> in
        if \<not> tr_disconnecting t then set_state H TS_Failed ''Peer shutdown'' t else Done t
      else Done t)"

definition take_chunks :: "'z Transport_scheme \<Rightarrow> 'z Transport_scheme" where
  "take_chunks t =
     t\<lparr>tr_recv_buffer := tr_recv_buffer t @ concat (tr_pending_control_data t), tr_pending_control_data := []\<rparr>"

text \<open>One complete message: the transition to Ready, then the callback.\<close>

definition handle_message :: "'z Transport_scheme handler \<Rightarrow> MessageType \<Rightarrow> bytes \<Rightarrow> 'z Transport_scheme
    \<Rightarrow> 'z Transport_scheme outcome" where
  "handle_message H type content t =
     and_then
       (if type = MT_ServerSetup then
          (case parse_server_setup content of
             Done result \<Rightarrow> set_state H TS_Ready ''MOQ session ready'' t
           | Reject \<Rightarrow> Done t
           | Crash e \<Rightarrow> Crash e)
        else Done t)
       (\<lambda>t. fire H (cb_on_control_message (tr_callbacks t)) (ControlMessage (type_code type) content) t)"

text \<open>
  The parse loop from an offset on; the buffer is read again in every round, as the code reads it
  through \<open>recv_buffer.data()\<close>, while \<open>buffer_len\<close> is the length found before the loop.
\<close>

function parse_loop :: "'z Transport_scheme handler \<Rightarrow> int \<Rightarrow> nat \<Rightarrow> 'z Transport_scheme
    \<Rightarrow> (nat \<times> 'z Transport_scheme) outcome" where
  "parse_loop H buffer_len offset t =
     (if int offset < buffer_len then
        and_then (mem_read (tr_recv_buffer t) offset (nat buffer_len - offset)) (\<lambda>buf.
        case parse_control_message buf of
          Done (type, content, consumed) \<Rightarrow>
            and_then (handle_message H type content t) (parse_loop H buffer_len (offset + consumed))
        | Reject \<Rightarrow> Done (offset, t)
        | Crash e \<Rightarrow> Crash e)
      else Done (offset, t))"
  by pat_completeness auto
termination
  by (relation "measure (\<lambda>(H, buffer_len, offset, t). nat buffer_len - offset)")
    (auto dest!: parse_control_message_consumed(1))

declare parse_loop.simps [simp del]

definition parse_received :: "'z Transport_scheme handler \<Rightarrow> 'z Transport_scheme \<Rightarrow> 'z Transport_scheme outcome" where
  "parse_received H t =
     (if tr_recv_buffer t = [] then Done t
      else
        and_then (parse_loop H (as_i32 (of_nat (length (tr_recv_buffer t)))) 0 t) (\<lambda>(offset, t).
        if offset > 0 then
          if offset \<le> length (tr_recv_buffer t)
          then Done (t\<lparr>tr_recv_buffer := drop offset (tr_recv_buffer t)\<rparr>)
          else Crash OutOfBounds
        else Done t))"

definition drain_and_parse :: "environment \<Rightarrow> 'z Transport_scheme handler \<Rightarrow> 'z Transport_scheme
    \<Rightarrow> 'z Transport_scheme outcome" where
  "drain_and_parse Q H t =
     and_then (take_connected Q H t) (\<lambda>t.
     and_then (take_transport_shutdown H t) (\<lambda>t.
     and_then (take_peer_shutdown H t) (\<lambda>t. parse_received H (take_chunks t))))"

section \<open>The public interface\<close>

text \<open>A failed step of \<open>connect\<close>: the state change comes before the handles are closed.\<close>

definition connect_failed :: "environment \<Rightarrow> 'z Transport_scheme handler \<Rightarrow> string \<Rightarrow> 'z Transport_scheme
    \<Rightarrow> (bool \<times> 'z Transport_scheme) outcome" where
  "connect_failed Q H message t = and_then (set_state H TS_Failed message t) (\<lambda>t. Done (False, cleanup_quic Q t))"

definition open_connection :: "environment \<Rightarrow> 'z Transport_scheme handler \<Rightarrow> TransportConfig \<Rightarrow> 'z Transport_scheme
    \<Rightarrow> (bool \<times> 'z Transport_scheme) outcome" where
  "open_connection Q H config t =
     (let (ok, t) = init_quic Q config t in
      if \<not> ok then connect_failed Q H ''Failed to initialize QUIC'' t
      else
        and_then (start_connection Q config t) (\<lambda>(ok, t).
        if \<not> ok then connect_failed Q H ''Failed to start QUIC connection'' t else Done (True, t)))"

definition transport_connect :: "environment \<Rightarrow> 'z Transport_scheme handler \<Rightarrow> TransportConfig \<Rightarrow> TransportCallbacks
    \<Rightarrow> 'z Transport_scheme \<Rightarrow> (bool \<times> 'z Transport_scheme) outcome" where
  "transport_connect Q H config callbacks t =
     (if tr_current_state t \<noteq> TS_Disconnected then Done (False, t)
      else
        and_then (set_state H TS_Connecting ''Connecting'' (t\<lparr>tr_disconnecting := False, tr_callbacks := callbacks\<rparr>))
          (open_connection Q H config))"

definition transport_disconnect :: "environment \<Rightarrow> 'z Transport_scheme handler \<Rightarrow> 'z Transport_scheme
    \<Rightarrow> 'z Transport_scheme outcome" where
  "transport_disconnect Q H t =
     set_state H TS_Disconnected ''Disconnected'' (cleanup_quic Q (t\<lparr>tr_disconnecting := True\<rparr>))"

definition send_control :: "environment \<Rightarrow> bytes \<Rightarrow> u32 \<Rightarrow> 'z Transport_scheme \<Rightarrow> (bool \<times> 'z Transport_scheme) outcome" where
  "send_control Q data len t =
     (if tr_current_state t < TS_Connected then Done (False, t) else send_on_control_stream Q data len t)"

definition send_datagram :: "environment \<Rightarrow> bytes \<Rightarrow> u32 \<Rightarrow> 'z Transport_scheme \<Rightarrow> (bool \<times> 'z Transport_scheme) outcome" where
  "send_datagram Q data len t =
     (if tr_current_state t < TS_Connected then Done (False, t) else send_datagram_impl Q data len t)"

definition process_incoming :: "environment \<Rightarrow> 'z Transport_scheme handler \<Rightarrow> 'z Transport_scheme
    \<Rightarrow> 'z Transport_scheme outcome" where
  "process_incoming Q H t = drain_and_parse Q H t"

end
