(* ===== verification/TransportSafety.thy ===== *)
theory TransportSafety
  imports Transport "HOL-Library.Multiset"
begin

text \<open>
  What \<open>MoqTransport\<close> does with the library: every call is made on a handle that is open, handles are
  closed in the reverse order of their opening and each once, and every block it allocates belongs to
  exactly one send that msquic has accepted and is freed when that send completes. The client's
  callbacks appear as a locale: whatever they do within its contract, the invariant holds.
\<close>

section \<open>The protocol of the library and the memory\<close>

text \<open>
  The handles msquic has open, the last one opened first. A call is admissible when the handle it works
  on is open; a handle is opened under its parent and closed only when nothing opened under it is left.
\<close>

datatype handle = HApi | HRegistration | HConfiguration | HConnection | HStream

fun call_step :: "sys_call \<times> bool \<Rightarrow> handle list \<Rightarrow> handle list option" where
  "call_step (MsQuicOpen2, ok) hs = (if hs = [] then Some (if ok then [HApi] else []) else None)"
| "call_step (RegistrationOpen, ok) hs =
     (if hs = [HApi] then Some (if ok then HRegistration # hs else hs) else None)"
| "call_step (ConfigurationOpen alpn idle, ok) hs =
     (if hs = [HRegistration, HApi] then Some (if ok then HConfiguration # hs else hs) else None)"
| "call_step (ConfigurationLoadCredential skip, ok) hs =
     (if hs \<noteq> [] \<and> hd hs = HConfiguration then Some hs else None)"
| "call_step (ConnectionOpen, ok) hs =
     (if hs \<noteq> [] \<and> hd hs = HConfiguration then Some (if ok then HConnection # hs else hs) else None)"
| "call_step (ConnectionStart host port, ok) hs = (if hs \<noteq> [] \<and> hd hs = HConnection then Some hs else None)"
| "call_step (StreamOpen, ok) hs =
     (if hs \<noteq> [] \<and> hd hs = HConnection then Some (if ok then HStream # hs else hs) else None)"
| "call_step (StreamStart, ok) hs = (if hs \<noteq> [] \<and> hd hs = HStream then Some hs else None)"
| "call_step (StreamSend ctx c data, ok) hs = (if HStream \<in> set hs then Some hs else None)"
| "call_step (DatagramSend block data, ok) hs = (if HConnection \<in> set hs then Some hs else None)"
| "call_step (SetCallbackHandler, ok) hs = (if HApi \<in> set hs then Some hs else None)"
| "call_step (StreamClose, ok) hs = (if hs \<noteq> [] \<and> hd hs = HStream then Some (tl hs) else None)"
| "call_step (ConnectionShutdown, ok) hs = (if hs \<noteq> [] \<and> hd hs = HConnection then Some hs else None)"
| "call_step (ConnectionClose, ok) hs = (if hs \<noteq> [] \<and> hd hs = HConnection then Some (tl hs) else None)"
| "call_step (ConfigurationClose, ok) hs = (if hs \<noteq> [] \<and> hd hs = HConfiguration then Some (tl hs) else None)"
| "call_step (RegistrationClose, ok) hs = (if hs \<noteq> [] \<and> hd hs = HRegistration then Some (tl hs) else None)"
| "call_step (MsQuicClose, ok) hs = (if hs = [HApi] then Some [] else None)"
| "call_step (Malloc n, ok) hs = Some hs"

fun replay :: "(sys_call \<times> bool) list \<Rightarrow> handle list \<Rightarrow> handle list option" where
  "replay [] hs = Some hs"
| "replay (c # cs) hs = (case call_step c hs of None \<Rightarrow> None | Some hs \<Rightarrow> replay cs hs)"

lemma replay_append:
  "replay (cs @ ds) hs = (case replay cs hs of None \<Rightarrow> None | Some hs \<Rightarrow> replay ds hs)"
  by (induction cs arbitrary: hs) (simp_all split: option.split)

text \<open>The handles the object holds, and the order in which they depend on each other.\<close>

definition handles_of :: "'z Transport_scheme \<Rightarrow> handle list" where
  "handles_of t =
     (if tr_control_stream t then [HStream] else []) @ (if tr_connection t then [HConnection] else []) @
     (if tr_configuration t then [HConfiguration] else []) @ (if tr_registration t then [HRegistration] else []) @
     (if tr_msquic t then [HApi] else [])"

definition nested :: "'z Transport_scheme \<Rightarrow> bool" where
  "nested t \<longleftrightarrow>
     (tr_control_stream t \<longrightarrow> tr_connection t) \<and> (tr_connection t \<longrightarrow> tr_configuration t) \<and>
     (tr_configuration t \<longrightarrow> tr_registration t) \<and> (tr_registration t \<longrightarrow> tr_msquic t)"

text \<open>
  Every allocated block belongs to exactly one send that msquic has accepted, or is one of the blocks
  \<open>xs\<close> the function at work holds.
\<close>

definition send_blocks :: "nat \<times> SendContext \<Rightarrow> nat list" where
  "send_blocks s = [sc_data_buf (snd s), sc_quic_buf (snd s), fst s]"

definition mem_with :: "nat list \<Rightarrow> 'z Transport_scheme \<Rightarrow> bool" where
  "mem_with xs t \<longleftrightarrow>
     distinct (tr_live t) \<and> (\<forall>p\<in>set (tr_live t). p < tr_next_block t) \<and>
     mset (tr_live t) = mset xs + mset (concat (map send_blocks (tr_stream_sends t))) + mset (tr_datagram_sends t)"

abbreviation mem_ok :: "'z Transport_scheme \<Rightarrow> bool" where
  "mem_ok t \<equiv> mem_with [] t"

text \<open>
  What a send, or a callback that only sends, keeps: handles, state and the receive side; its calls are
  admissible.
\<close>

definition frame_kept :: "'z Transport_scheme \<Rightarrow> 'z Transport_scheme \<Rightarrow> bool" where
  "frame_kept t t' \<longleftrightarrow>
     tr_msquic t' = tr_msquic t \<and> tr_registration t' = tr_registration t \<and>
     tr_configuration t' = tr_configuration t \<and> tr_connection t' = tr_connection t \<and>
     tr_control_stream t' = tr_control_stream t \<and> tr_current_state t' = tr_current_state t \<and>
     tr_callbacks t' = tr_callbacks t \<and> tr_pending_control_data t' = tr_pending_control_data t \<and>
     tr_pending_connected t' = tr_pending_connected t \<and>
     tr_pending_transport_shutdown t' = tr_pending_transport_shutdown t \<and>
     tr_pending_peer_shutdown t' = tr_pending_peer_shutdown t \<and>
     tr_recv_buffer t' = tr_recv_buffer t \<and> tr_disconnecting t' = tr_disconnecting t \<and>
     tr_max_dgram_size t' = tr_max_dgram_size t \<and>
     (\<exists>cs. tr_calls t' = tr_calls t @ cs \<and> (nested t \<longrightarrow> replay cs (handles_of t) = Some (handles_of t)))"

lemma frame_kept_fields:
  assumes "frame_kept t t'"
  shows "tr_current_state t' = tr_current_state t"
    "tr_callbacks t' = tr_callbacks t" "tr_recv_buffer t' = tr_recv_buffer t"
    "tr_pending_control_data t' = tr_pending_control_data t" "tr_max_dgram_size t' = tr_max_dgram_size t"
    "tr_msquic t' = tr_msquic t" "tr_registration t' = tr_registration t" "tr_configuration t' = tr_configuration t"
    "tr_connection t' = tr_connection t" "tr_control_stream t' = tr_control_stream t"
    "tr_pending_connected t' = tr_pending_connected t" "tr_disconnecting t' = tr_disconnecting t"
    "tr_pending_transport_shutdown t' = tr_pending_transport_shutdown t"
    "tr_pending_peer_shutdown t' = tr_pending_peer_shutdown t"
  using assms by (simp_all only: frame_kept_def)

lemma frame_kept_handles:
  assumes "frame_kept t t'"
  shows "handles_of t' = handles_of t" "nested t' = nested t"
  unfolding handles_of_def nested_def frame_kept_fields [OF assms] by (rule refl)+

lemmas frame_keptD = frame_kept_fields frame_kept_handles

lemma frame_kept_refl [simp]: "frame_kept t t"
  by (auto simp: frame_kept_def intro: exI [of _ "[]"])

lemma frame_kept_calls:
  assumes "frame_kept t t'"
  obtains cs where "tr_calls t' = tr_calls t @ cs" "nested t \<Longrightarrow> replay cs (handles_of t) = Some (handles_of t)"
  using assms unfolding frame_kept_def by blast

lemma frame_kept_trans:
  assumes "frame_kept t u" and "frame_kept u v"
  shows "frame_kept t v"
proof -
  obtain cs where cs: "tr_calls u = tr_calls t @ cs" "nested t \<Longrightarrow> replay cs (handles_of t) = Some (handles_of t)"
    using frame_kept_calls [OF assms(1)] by blast
  obtain ds where ds: "tr_calls v = tr_calls u @ ds" "nested u \<Longrightarrow> replay ds (handles_of u) = Some (handles_of u)"
    using frame_kept_calls [OF assms(2)] by blast
  have "nested t \<longrightarrow> replay (cs @ ds) (handles_of t) = Some (handles_of t)"
    using cs(2) ds(2) by (simp add: replay_append frame_kept_handles [OF assms(1)])
  with cs(1) ds(1) have calls:
      "\<exists>es. tr_calls v = tr_calls t @ es \<and> (nested t \<longrightarrow> replay es (handles_of t) = Some (handles_of t))"
    by (intro exI [of _ "cs @ ds"]) simp
  show ?thesis
    unfolding frame_kept_def frame_kept_fields [OF assms(2)] frame_kept_fields [OF assms(1)]
    using calls by (intro conjI refl)
qed

text \<open>What the sends themselves guarantee on top: no callback is made and the client is untouched.\<close>

definition sent :: "'z Transport_scheme \<Rightarrow> 'z Transport_scheme \<Rightarrow> bool" where
  "sent t t' \<longleftrightarrow> frame_kept t t' \<and> tr_events t' = tr_events t \<and> Transport.more t' = Transport.more t"

lemma sent_refl [simp]: "sent t t"
  by (simp add: sent_def)

lemma sent_trans: "sent t u \<Longrightarrow> sent u v \<Longrightarrow> sent t v"
  by (auto simp: sent_def intro: frame_kept_trans)

section \<open>Sends\<close>

lemma malloc_some:
  assumes "malloc Q n t = (Some p, t')"
  shows "sent t t'" and "mem_with xs t \<Longrightarrow> mem_with (p # xs) t'"
  using assms
  by (auto simp: malloc_def sys_def Let_def sent_def frame_kept_def mem_with_def less_Suc_eq split: if_splits)

lemma malloc_none:
  assumes "malloc Q n t = (None, t')"
  shows "sent t t'" and "mem_with xs t \<Longrightarrow> mem_with xs t'"
  using assms by (auto simp: malloc_def sys_def Let_def sent_def frame_kept_def mem_with_def split: if_splits)

lemma free_block_yields:
  assumes "mem_with xs t" and "mset xs = add_mset p (mset ys)"
    and "\<And>t'. sent t t' \<Longrightarrow> mem_with ys t' \<Longrightarrow> yields (f t') P"
  shows "yields (and_then (free_block p t) f) P"
proof -
  have "p \<in># mset (tr_live t)"
    using assms(1,2) by (simp add: mem_with_def)
  then have "p \<in> set (tr_live t)"
    by simp
  then show ?thesis
    using assms(1,2) by (auto simp: free_block_def intro!: assms(3))
      (auto simp: sent_def frame_kept_def mem_with_def dest: notin_set_remove1 intro: exI [of _ "[]"])
qed

lemma sys_frame:
  assumes "nested t \<Longrightarrow> \<forall>ok. call_step (c, ok) (handles_of t) = Some (handles_of t)" and "sys Q c t = (ok, t')"
  shows "sent t t'" and "mem_with xs t' = mem_with xs t" and "tr_stream_sends t' = tr_stream_sends t"
    and "tr_datagram_sends t' = tr_datagram_sends t"
  using assms by (auto simp: sys_def Let_def sent_def frame_kept_def mem_with_def)

lemma handles_of_members:
  "HStream \<in> set (handles_of t) \<longleftrightarrow> tr_control_stream t" "HConnection \<in> set (handles_of t) \<longleftrightarrow> tr_connection t"
  "HApi \<in> set (handles_of t) \<longleftrightarrow> tr_msquic t"
  by (auto simp: handles_of_def)

lemma mem_with_accept_stream:
  "mem_with [ctx, sc_quic_buf c, sc_data_buf c] t \<Longrightarrow> mem_ok (t\<lparr>tr_stream_sends := (ctx, c) # tr_stream_sends t\<rparr>)"
  by (simp add: mem_with_def send_blocks_def add.commute add_mset_commute)

lemma mem_with_accept_datagram:
  "mem_with [block] t \<Longrightarrow> mem_ok (t\<lparr>tr_datagram_sends := block # tr_datagram_sends t\<rparr>)"
  by (simp add: mem_with_def)

lemma sent_bookkeeping [simp]:
  "sent t (t'\<lparr>tr_stream_sends := x\<rparr>) = sent t t'" "sent t (t'\<lparr>tr_datagram_sends := y\<rparr>) = sent t t'"
  by (simp_all add: sent_def frame_kept_def)

text \<open>A send returns, whatever fails, and leaks nothing.\<close>

lemma send_on_control_stream_yields:
  assumes "mem_ok t" and "unat len \<le> length data"
  shows "yields (send_on_control_stream Q data len t) (\<lambda>(ok, t'). sent t t' \<and> mem_ok t')"
proof (cases "tr_control_stream t \<and> tr_msquic t")
  case False
  then show ?thesis using assms(1) by (auto simp: send_on_control_stream_def)
next
  case True
  note def = send_on_control_stream_def Let_def mem_read_Done [of 0 "unat len" data, simplified, OF assms(2)]
  obtain r1 t1 where m1: "malloc Q (unat len) t = (r1, t1)" by fastforce
  show ?thesis
  proof (cases r1)
    case None
    then show ?thesis
      using True m1 malloc_none [of Q _ t t1] assms(1) by (simp add: def)
  next
    case r1: (Some p1)
    note t1 = malloc_some(1) [OF m1 [unfolded r1]] malloc_some(2) [OF m1 [unfolded r1] assms(1)]
    obtain r2 t2 where m2: "malloc Q sizeof_QUIC_BUFFER t1 = (r2, t2)" by fastforce
    show ?thesis
    proof (cases r2)
      case None
      note t2 = malloc_none(1) [OF m2 [unfolded None]] malloc_none(2) [OF m2 [unfolded None] t1(2)]
      have "yields (and_then (free_block p1 t2) (\<lambda>t'. Done (False, t'))) (\<lambda>(ok, t'). sent t t' \<and> mem_ok t')"
        by (rule free_block_yields [OF t2(2)]) (auto intro: sent_trans [OF t1(1)] sent_trans [OF t2(1)])
      then show ?thesis
        using True m1 m2 r1 None by (simp add: def)
    next
      case r2: (Some p2)
      note t2 = malloc_some(1) [OF m2 [unfolded r2]] malloc_some(2) [OF m2 [unfolded r2] t1(2)]
      note s2 = sent_trans [OF t1(1) t2(1)]
      obtain r3 t3 where m3: "malloc Q sizeof_SendContext t2 = (r3, t3)" by fastforce
      show ?thesis
      proof (cases r3)
        case None
        note t3 = malloc_none(1) [OF m3 [unfolded None]] malloc_none(2) [OF m3 [unfolded None] t2(2)]
        have "yields (and_then (free_block p1 t3) (\<lambda>t. and_then (free_block p2 t) (\<lambda>t. Done (False, t))))
           (\<lambda>(ok, t'). sent t t' \<and> mem_ok t')"
          by (rule free_block_yields [OF t3(2), where ys = "[p2]"], simp, rule free_block_yields, assumption)
            (auto intro: sent_trans [OF s2] sent_trans [OF t3(1)] sent_trans)
        then show ?thesis
          using True m1 m2 m3 r1 r2 None by (simp add: def)
      next
        case r3: (Some p3)
        note t3 = malloc_some(1) [OF m3 [unfolded r3]] malloc_some(2) [OF m3 [unfolded r3] t2(2)]
        note s3 = sent_trans [OF s2 t3(1)]
        let ?c = "\<lparr>sc_data_buf = p1, sc_quic_buf = p2\<rparr>"
        obtain ok t4 where q: "sys Q (StreamSend p3 ?c (take (unat len) data)) t3 = (ok, t4)" by fastforce
        have "HStream \<in> set (handles_of t3)"
          using True s3 frame_kept_fields(10) [of t t3] by (simp add: handles_of_members sent_def)
        then have t4: "sent t3 t4" "mem_with [p3, p2, p1] t4"
          using sys_frame(1,2) [OF _ q] t3(2) by simp_all
        have "yields (and_then (free_block p1 t4) (\<lambda>t. and_then (free_block p2 t) (\<lambda>t. and_then (free_block p3 t)
            (\<lambda>t. Done (False, t))))) (\<lambda>(ok, t'). sent t t' \<and> mem_ok t')"
          by (rule free_block_yields [OF t4(2), where ys = "[p3, p2]"], simp,
              rule free_block_yields [where ys = "[p3]"], assumption, simp, rule free_block_yields, assumption)
            (auto intro: sent_trans [OF s3] sent_trans [OF t4(1)] sent_trans)
        moreover have "sent t t4"
          using s3 t4(1) by (rule sent_trans)
        ultimately show ?thesis
          using True m1 m2 m3 r1 r2 r3 q mem_with_accept_stream [of p3 ?c t4] t4(2) by (simp add: def)
      qed
    qed
  qed
qed

lemma send_datagram_impl_yields:
  assumes "mem_ok t" and "unat len \<le> length data"
  shows "yields (send_datagram_impl Q data len t) (\<lambda>(ok, t'). sent t t' \<and> mem_ok t')"
proof (cases "tr_msquic t \<and> tr_connection t \<and> len \<noteq> 0")
  case False
  then show ?thesis using assms(1) by (auto simp: send_datagram_impl_def)
next
  case True
  note def = send_datagram_impl_def Let_def mem_read_Done [of 0 "unat len" data, simplified, OF assms(2)]
  obtain r1 t1 where m1: "malloc Q (sizeof_QUIC_BUFFER + unat len) t = (r1, t1)" by fastforce
  show ?thesis
  proof (cases r1)
    case None
    then show ?thesis
      using True m1 malloc_none [of Q _ t t1] assms(1) by (simp add: def)
  next
    case r1: (Some p1)
    note t1 = malloc_some(1) [OF m1 [unfolded r1]] malloc_some(2) [OF m1 [unfolded r1] assms(1)]
    obtain ok t2 where q: "sys Q (DatagramSend p1 (take (unat len) data)) t1 = (ok, t2)" by fastforce
    have "HConnection \<in> set (handles_of t1)"
      using True t1(1) frame_kept_fields(9) [of t t1] by (simp add: handles_of_members sent_def)
    then have t2: "sent t1 t2" "mem_with [p1] t2"
      using sys_frame(1,2) [OF _ q] t1(2) by simp_all
    have "yields (and_then (free_block p1 t2) (\<lambda>t. Done (False, t))) (\<lambda>(ok, t'). sent t t' \<and> mem_ok t')"
      by (rule free_block_yields [OF t2(2)]) (auto intro: sent_trans [OF t1(1)] sent_trans [OF t2(1)])
    moreover have "sent t t2"
      using t1(1) t2(1) by (rule sent_trans)
    ultimately show ?thesis
      using True m1 r1 q mem_with_accept_datagram [of p1 t2] t2(2) by (simp add: def)
  qed
qed

section \<open>Invariant\<close>

text \<open>
  The calls made so far were admissible and leave open exactly the handles the object holds; a pending
  connection event finds a connection without a stream; no handle is held while disconnected.
\<close>

definition handles_inv :: "'z Transport_scheme \<Rightarrow> bool" where
  "handles_inv t \<longleftrightarrow>
     replay (tr_calls t) [] = Some (handles_of t) \<and> nested t \<and> mem_ok t \<and>
     (tr_pending_connected t \<longrightarrow> tr_connection t \<and> \<not> tr_control_stream t)"

definition transport_inv :: "'z Transport_scheme \<Rightarrow> bool" where
  "transport_inv t \<longleftrightarrow> handles_inv t \<and> (tr_current_state t = TS_Disconnected \<longrightarrow> \<not> tr_msquic t)"

lemma nested_no_api: "nested t \<Longrightarrow> \<not> tr_msquic t \<Longrightarrow> handles_of t = []"
  by (auto simp: nested_def handles_of_def)

lemma handles_of_Nil: "handles_of t = [] \<longleftrightarrow> \<not> tr_control_stream t \<and> \<not> tr_connection t \<and> \<not> tr_configuration t \<and>
    \<not> tr_registration t \<and> \<not> tr_msquic t"
  by (simp add: handles_of_def)

lemma handles_inv_frame:
  assumes "handles_inv t" and "frame_kept t t'" and "mem_ok t'"
  shows "handles_inv t'"
proof -
  obtain cs where "tr_calls t' = tr_calls t @ cs" "nested t \<Longrightarrow> replay cs (handles_of t) = Some (handles_of t)"
    using frame_kept_calls [OF assms(2)] by blast
  then show ?thesis
    using assms(1,3) by (simp add: handles_inv_def replay_append frame_keptD [OF assms(2)])
qed

lemma transport_inv_frame:
  "transport_inv t \<Longrightarrow> frame_kept t t' \<Longrightarrow> mem_ok t' \<Longrightarrow> transport_inv t'"
  unfolding transport_inv_def using handles_inv_frame frame_kept_fields(1,6) by metis

lemma handles_inv_fields [simp]:
  "handles_inv (t\<lparr>tr_current_state := s\<rparr>) = handles_inv t"
  "handles_inv (t\<lparr>tr_events := es\<rparr>) = handles_inv t"
  "handles_inv (t\<lparr>tr_callbacks := cb\<rparr>) = handles_inv t"
  "handles_inv (t\<lparr>tr_disconnecting := d\<rparr>) = handles_inv t"
  "handles_inv (t\<lparr>tr_recv_buffer := r\<rparr>) = handles_inv t"
  "handles_inv (t\<lparr>tr_pending_control_data := q\<rparr>) = handles_inv t"
  "handles_inv (t\<lparr>tr_pending_transport_shutdown := b\<rparr>) = handles_inv t"
  "handles_inv (t\<lparr>tr_pending_peer_shutdown := b\<rparr>) = handles_inv t"
  "handles_inv (t\<lparr>tr_max_dgram_size := m\<rparr>) = handles_inv t"
  by (simp_all add: handles_inv_def handles_of_def nested_def mem_with_def)

lemma handles_inv_connected_taken: "handles_inv t \<Longrightarrow> handles_inv (t\<lparr>tr_pending_connected := False\<rparr>)"
  by (simp add: handles_inv_def handles_of_def nested_def mem_with_def)

lemma handles_inv_mem: "handles_inv t \<Longrightarrow> mem_ok t"
  by (simp add: handles_inv_def)

section \<open>Opening and closing\<close>

lemma init_quic_inv:
  assumes "handles_inv t" and "\<not> tr_msquic t" and "init_quic Q config t = (ok, t')"
  shows "handles_inv t' \<and> tr_current_state t' = tr_current_state t \<and> (ok \<longrightarrow> tr_configuration t' \<and> \<not> tr_connection t')"
proof -
  have h: "replay (tr_calls t) [] = Some []" "handles_of t = []" "mem_ok t" "\<not> tr_pending_connected t"
    using assms(1,2) nested_no_api [of t] by (auto simp: handles_inv_def handles_of_Nil)
  then have c: "\<not> tr_control_stream t" "\<not> tr_connection t" "\<not> tr_configuration t" "\<not> tr_registration t" "\<not> tr_msquic t"
    by (simp_all add: handles_of_Nil)
  show ?thesis
    using assms(3) h(1,3,4) c
    by (simp add: init_quic_def sys_def Let_def handles_inv_def handles_of_def nested_def mem_with_def replay_append
        split: if_splits; elim conjE; hypsubst; simp add: replay_append)
qed

lemma start_connection_inv:
  assumes "handles_inv t" and "tr_configuration t" and "\<not> tr_connection t" and "start_connection Q config t = Done (ok, t')"
  shows "handles_inv t' \<and> tr_current_state t' = tr_current_state t"
  using assms by (auto simp: start_connection_def sys_def Let_def handles_inv_def handles_of_def nested_def mem_with_def
      replay_append split: if_splits)

text \<open>Closing one handle after the other, each when nothing is open under it any more.\<close>

definition calls_inv :: "'z Transport_scheme \<Rightarrow> bool" where
  "calls_inv t \<longleftrightarrow> replay (tr_calls t) [] = Some (handles_of t) \<and> nested t \<and> mem_ok t"

lemmas closing = sys_def Let_def calls_inv_def handles_of_def nested_def mem_with_def replay_append

lemma close_stream_inv: "calls_inv t \<Longrightarrow> calls_inv (close_stream Q t) \<and> \<not> tr_control_stream (close_stream Q t)"
  by (auto simp: close_stream_def closing)

lemma close_connection_inv:
  "calls_inv t \<Longrightarrow> \<not> tr_control_stream t \<Longrightarrow>
     calls_inv (close_connection Q t) \<and> \<not> tr_control_stream (close_connection Q t) \<and> \<not> tr_connection (close_connection Q t)"
  by (auto simp: close_connection_def closing)

lemma close_configuration_inv:
  "calls_inv t \<Longrightarrow> \<not> tr_connection t \<Longrightarrow>
     calls_inv (close_configuration Q t) \<and> \<not> tr_connection (close_configuration Q t)
       \<and> \<not> tr_configuration (close_configuration Q t)"
  by (auto simp: close_configuration_def closing)

lemma close_registration_inv:
  "calls_inv t \<Longrightarrow> \<not> tr_configuration t \<Longrightarrow>
     calls_inv (close_registration Q t) \<and> \<not> tr_configuration (close_registration Q t)
       \<and> \<not> tr_registration (close_registration Q t)"
  by (auto simp: close_registration_def closing)

lemma close_api_inv:
  "calls_inv t \<Longrightarrow> \<not> tr_registration t \<Longrightarrow> calls_inv (close_api Q t) \<and> \<not> tr_msquic (close_api Q t)"
  by (auto simp: close_api_def closing)

lemma reset_transport_state_inv:
  "calls_inv t \<Longrightarrow> handles_inv (reset_transport_state t)" "tr_msquic (reset_transport_state t) = tr_msquic t"
  by (simp_all add: reset_transport_state_def calls_inv_def handles_inv_def handles_of_def nested_def mem_with_def)

lemma cleanup_quic_inv:
  assumes "handles_inv t"
  shows "handles_inv (cleanup_quic Q t)" and "handles_of (cleanup_quic Q t) = []"
proof -
  have "calls_inv t"
    using assms by (simp add: handles_inv_def calls_inv_def)
  note 1 = close_stream_inv [OF this, of Q]
  note 2 = close_connection_inv [OF 1 [THEN conjunct1] 1 [THEN conjunct2], of Q]
  note 3 = close_configuration_inv [OF 2 [THEN conjunct1] 2 [THEN conjunct2, THEN conjunct2], of Q]
  note 4 = close_registration_inv [OF 3 [THEN conjunct1] 3 [THEN conjunct2, THEN conjunct2], of Q]
  note 5 = close_api_inv [OF 4 [THEN conjunct1] 4 [THEN conjunct2, THEN conjunct2], of Q]
  show "handles_inv (cleanup_quic Q t)"
    unfolding cleanup_quic_def by (rule reset_transport_state_inv(1) [OF 5 [THEN conjunct1]])
  then have "nested (cleanup_quic Q t)"
    by (simp only: handles_inv_def)
  moreover have "\<not> tr_msquic (cleanup_quic Q t)"
    unfolding cleanup_quic_def reset_transport_state_inv(2) by (rule 5 [THEN conjunct2])
  ultimately show "handles_of (cleanup_quic Q t) = []"
    by (rule nested_no_api)
qed

lemma cleanup_quic_keeps [simp]:
  "tr_current_state (cleanup_quic Q t) = tr_current_state t" "tr_callbacks (cleanup_quic Q t) = tr_callbacks t"
  "tr_disconnecting (cleanup_quic Q t) = tr_disconnecting t" "tr_events (cleanup_quic Q t) = tr_events t"
  "Transport.more (cleanup_quic Q t) = Transport.more t" "tr_recv_buffer (cleanup_quic Q t) = []"
  by (simp_all add: cleanup_quic_def reset_transport_state_def close_stream_def close_connection_def
      close_configuration_def close_registration_def close_api_def sys_def Let_def)

section \<open>Clients\<close>

text \<open>
  The contract of a client that uses the transport from its callbacks: it may send, but it opens and
  closes nothing and leaves the receive side alone. Under it every operation keeps the invariant.
\<close>

definition keeps_frame :: "'z Transport_scheme \<Rightarrow> 'z Transport_scheme \<Rightarrow> bool" where
  "keeps_frame t t' \<longleftrightarrow> frame_kept t t' \<and> mem_ok t'"

locale transport_client =
  fixes H :: "'z Transport_scheme handler"
  assumes handler_keeps: "mem_ok t \<Longrightarrow> H ev t = Done t' \<Longrightarrow> frame_kept t t' \<and> mem_ok t' \<and> tr_events t' = tr_events t"
begin

lemma fire_keeps:
  assumes "handles_inv t"
  shows "allows (fire H b ev t) (\<lambda>t'. handles_inv t' \<and> frame_kept t t')"
proof (cases b)
  case True
  let ?t = "t\<lparr>tr_events := tr_events t @ [ev]\<rparr>"
  have f: "frame_kept t ?t"
    by (simp add: frame_kept_def)
  have inv: "handles_inv ?t"
    using assms by simp
  show ?thesis
  proof (rule allowsI)
    fix t'
    assume "fire H b ev t = Done t'"
    then have "H ev ?t = Done t'"
      using True by (simp add: fire_def)
    then have k: "frame_kept ?t t'" "mem_ok t'"
      using handler_keeps [OF handles_inv_mem [OF inv]] by blast+
    show "handles_inv t' \<and> frame_kept t t'"
      using handles_inv_frame [OF inv k] frame_kept_trans [OF f k(1)] by blast
  qed
next
  case False
  then show ?thesis using assms by (simp add: fire_def)
qed

lemma set_state_keeps:
  assumes "handles_inv t"
  shows "allows (set_state H s m t) (\<lambda>t'. handles_inv t' \<and> frame_kept (t\<lparr>tr_current_state := s\<rparr>) t')"
  using fire_keeps [of "t\<lparr>tr_current_state := s\<rparr>"] assms by (simp add: set_state_def Let_def)

lemma start_moq_session_keeps:
  assumes "handles_inv t" and "tr_connection t" and "\<not> tr_control_stream t" and "\<not> tr_pending_connected t"
    and "tr_current_state t \<noteq> TS_Disconnected"
  shows "allows (start_moq_session Q H t) (\<lambda>t'. handles_inv t' \<and> tr_current_state t' \<noteq> TS_Disconnected)"
proof -
  obtain ok t1 where o: "sys Q StreamOpen t = (ok, t1)" by fastforce
  show ?thesis
  proof (cases ok)
    case False
    then have "handles_inv t1"
      using assms(1,2,3) o by (auto simp: sys_def Let_def handles_inv_def handles_of_def nested_def mem_with_def replay_append)
    then show ?thesis
      using o False by (auto simp: start_moq_session_def dest: frame_kept_fields intro!: allows_mono [OF set_state_keeps])
  next
    case True
    let ?t1 = "t1\<lparr>tr_control_stream := True\<rparr>"
    have t1: "handles_inv ?t1" "tr_current_state ?t1 = tr_current_state t"
      using assms(1-4) o True
      by (auto simp: sys_def Let_def handles_inv_def handles_of_def nested_def mem_with_def replay_append)
    obtain ok2 t2 where q: "sys Q StreamStart ?t1 = (ok2, t2)" by fastforce
    have f: "sent ?t1 t2" "mem_ok t2"
      using sys_frame(1,2) [OF _ q] handles_inv_mem [OF t1(1)] by (simp_all add: handles_of_def)
    then have t2: "handles_inv t2" "tr_current_state t2 = tr_current_state t"
      using handles_inv_frame [OF t1(1)] t1(2) frame_kept_fields(1) [of ?t1 t2] by (simp_all add: sent_def)
    show ?thesis
    proof (cases ok2)
      case False
      then show ?thesis
        using o True q t2(1)
        by (auto simp: start_moq_session_def dest: frame_kept_fields intro!: allows_mono [OF set_state_keeps])
    next
      case ok2: True
      have "unat (of_nat (length default_client_setup) :: u32) \<le> length default_client_setup"
        by (simp add: unat_of_nat)
      then have y: "yields (send_on_control_stream Q default_client_setup (of_nat (length default_client_setup)) t2)
          (\<lambda>(ok, t'). sent t2 t' \<and> mem_ok t')"
        by (rule send_on_control_stream_yields [OF handles_inv_mem [OF t2(1)]])
      have "start_moq_session Q H t
          = and_then (send_on_control_stream Q default_client_setup (of_nat (length default_client_setup)) t2)
              (\<lambda>(sent, t). Done t)" if "tr_msquic t"
        using o True q ok2 that by (simp add: start_moq_session_def)
      moreover have "handles_inv t' \<and> tr_current_state t' \<noteq> TS_Disconnected" if "sent t2 t'" "mem_ok t'" for t'
      proof -
        have k: "frame_kept t2 t'"
          using that(1) by (simp only: sent_def)
        show ?thesis
          using handles_inv_frame [OF t2(1) k that(2)] frame_kept_fields(1) [OF k] t2(2) assms(5) by simp
      qed
      ultimately show ?thesis
        using y by (cases "tr_msquic t") (auto simp: start_moq_session_def yields_def split: outcome.splits)
    qed
  qed
qed

text \<open>An operation keeps the invariant; while one is at work the object is not in the state Disconnected.\<close>

definition busy_inv :: "'z Transport_scheme \<Rightarrow> bool" where
  "busy_inv t \<longleftrightarrow> handles_inv t \<and> tr_current_state t \<noteq> TS_Disconnected"

lemma set_state_busy:
  assumes "handles_inv t" and "s \<noteq> TS_Disconnected"
  shows "allows (set_state H s m t) busy_inv"
  by (rule allows_mono [OF set_state_keeps [OF assms(1)]])
    (use assms(2) frame_kept_fields(1) in \<open>force simp: busy_inv_def\<close>)

lemma transport_inv_of_busy: "busy_inv t \<Longrightarrow> transport_inv t"
  by (simp add: busy_inv_def transport_inv_def)

lemma take_connected_keeps:
  assumes "transport_inv t"
  shows "allows (take_connected Q H t) transport_inv"
proof (cases "tr_pending_connected t")
  case True
  let ?t = "t\<lparr>tr_pending_connected := False\<rparr>"
  have t: "handles_inv t"
    using assms by (simp only: transport_inv_def)
  have inv: "handles_inv ?t" and c: "tr_connection t" "\<not> tr_control_stream t"
    using handles_inv_connected_taken [OF t] t True by (auto simp: handles_inv_def [of t])
  have "allows (start_moq_session Q H t') transport_inv" if "set_state H TS_Connected ''QUIC connected'' ?t = Done t'" for t'
  proof -
    have k: "handles_inv t'" "frame_kept (?t\<lparr>tr_current_state := TS_Connected\<rparr>) t'"
      using allowsD [OF set_state_keeps [OF inv] that] by blast+
    show ?thesis
      by (rule allows_mono [OF start_moq_session_keeps [OF k(1)]])
        (use c frame_kept_fields [OF k(2)] in \<open>auto simp: transport_inv_def\<close>)
  qed
  then show ?thesis
    using True by (simp add: take_connected_def allowsI)
next
  case False
  then show ?thesis using assms by (simp add: take_connected_def)
qed

lemma take_shutdown_keeps:
  assumes "transport_inv t"
  shows "allows (take_transport_shutdown H t) transport_inv" and "allows (take_peer_shutdown H t) transport_inv"
proof -
  have "allows (set_state H TS_Failed m t') transport_inv" if "handles_inv t'" for m t'
    by (rule allows_mono [OF set_state_busy [OF that]]) (simp_all add: transport_inv_of_busy)
  then show "allows (take_transport_shutdown H t) transport_inv" and "allows (take_peer_shutdown H t) transport_inv"
    using assms by (auto simp: take_transport_shutdown_def take_peer_shutdown_def transport_inv_def Let_def)
qed

lemma fire_transport_inv: "transport_inv t \<Longrightarrow> allows (fire H b ev t) transport_inv"
  by (rule allows_mono [OF fire_keeps]) (auto simp: transport_inv_def dest: frame_kept_fields)

lemma handle_message_keeps:
  assumes "transport_inv t"
  shows "allows (handle_message H type content t) transport_inv"
proof -
  have "allows (set_state H TS_Ready m t) transport_inv" for m
    by (rule allows_mono [OF set_state_busy])
      (use assms transport_inv_of_busy in \<open>auto simp only: transport_inv_def\<close>)
  then have "allows (if type = MT_ServerSetup then
          (case parse_server_setup content of
             Done result \<Rightarrow> set_state H TS_Ready ''MOQ session ready'' t | Reject \<Rightarrow> Done t | Crash e \<Rightarrow> Crash e)
        else Done t) transport_inv"
    using assms by (simp split: outcome.split)
  then show ?thesis
    unfolding handle_message_def allows_simps by (rule allows_mono) (rule fire_transport_inv)
qed

lemma parse_loop_keeps:
  "transport_inv t \<Longrightarrow> allows (parse_loop H buffer_len offset t) (\<lambda>(n, t'). transport_inv t')"
proof (induction "nat buffer_len - offset" arbitrary: offset t rule: less_induct)
  case less
  have step: "allows (parse_loop H buffer_len (offset + consumed) t') (\<lambda>(n, t'). transport_inv t')"
    if "int offset < buffer_len" "parse_control_message buf = Done (type, content, consumed)" "transport_inv t'"
    for buf type content consumed t'
    using parse_control_message_consumed(1) [OF that(2)] that(1,3) by (intro less.hyps) simp_all
  show ?case
  proof (cases "int offset < buffer_len")
    case True
    show ?thesis
    proof (cases "mem_read (tr_recv_buffer t) offset (nat buffer_len - offset)")
      case (Done buf)
      show ?thesis
      proof (cases "parse_control_message buf")
        case (Done r)
        obtain type content consumed where r: "r = (type, content, consumed)" by (cases r)
        have "allows (handle_message H type content t)
            (\<lambda>t'. allows (parse_loop H buffer_len (offset + consumed) t') (\<lambda>(n, t'). transport_inv t'))"
          by (rule allows_mono [OF handle_message_keeps [OF less.prems]]) (rule step [OF True Done [unfolded r]])
        then show ?thesis
          using True \<open>mem_read _ _ _ = Done buf\<close> Done r by (subst parse_loop.simps) simp
      qed (use True Done less.prems in \<open>(subst parse_loop.simps, simp)+\<close>)
    qed (use True in \<open>(subst parse_loop.simps, simp)+\<close>)
  next
    case False
    then show ?thesis
      using less.prems by (subst parse_loop.simps) simp
  qed
qed

lemma transport_inv_fields:
  "transport_inv (t\<lparr>tr_recv_buffer := r\<rparr>) = transport_inv t"
  "transport_inv (t\<lparr>tr_pending_control_data := q\<rparr>) = transport_inv t"
  "transport_inv (t\<lparr>tr_max_dgram_size := m\<rparr>) = transport_inv t"
  by (simp_all add: transport_inv_def)

lemma drain_and_parse_keeps:
  assumes "transport_inv t"
  shows "allows (drain_and_parse Q H t) transport_inv"
proof -
  have parse: "allows (parse_received H (take_chunks t')) transport_inv" if "transport_inv t'" for t' :: "'z Transport_scheme"
  proof -
    have "transport_inv (take_chunks t')"
      using that by (simp add: take_chunks_def transport_inv_fields)
    then show ?thesis
      by (auto simp: parse_received_def transport_inv_fields intro!: allows_mono [OF parse_loop_keeps] split: prod.split)
  qed
  show ?thesis
    unfolding drain_and_parse_def allows_simps
    by (intro allows_mono [OF take_connected_keeps [OF assms]] allows_mono [OF take_shutdown_keeps(1)]
        allows_mono [OF take_shutdown_keeps(2)] parse)
qed

lemma transport_disconnect_keeps:
  assumes "transport_inv t"
  shows "allows (transport_disconnect Q H t)
    (\<lambda>t'. transport_inv t' \<and> tr_current_state t' = TS_Disconnected \<and> handles_of t' = [])"
proof -
  have "handles_inv (t\<lparr>tr_disconnecting := True\<rparr>)"
    using assms by (simp add: transport_inv_def)
  note c = cleanup_quic_inv [OF this, of Q]
  show ?thesis
    unfolding transport_disconnect_def
  proof (rule allows_mono [OF set_state_keeps [OF c(1)]])
    let ?c = "cleanup_quic Q (t\<lparr>tr_disconnecting := True\<rparr>)\<lparr>tr_current_state := TS_Disconnected\<rparr>"
    fix t'
    assume k: "handles_inv t' \<and> frame_kept ?c t'"
    have "handles_of ?c = []"
      using c(2) by (simp add: handles_of_def)
    then have h: "handles_of t' = []"
      using frame_kept_handles(1) [of ?c t'] k by simp
    then show "transport_inv t' \<and> tr_current_state t' = TS_Disconnected \<and> handles_of t' = []"
      using k frame_kept_fields(1) [of ?c t'] by (simp add: transport_inv_def handles_of_Nil)
  qed
qed

lemma connect_failed_keeps:
  assumes "handles_inv t"
  shows "allows (connect_failed Q H m t) (\<lambda>(ok, t'). transport_inv t')"
proof -
  have "transport_inv (cleanup_quic Q t')" if "busy_inv t'" for t' :: "'z Transport_scheme"
    using that cleanup_quic_inv(1) [of t' Q] by (simp add: busy_inv_def transport_inv_def)
  then show ?thesis
    by (auto simp: connect_failed_def intro: allows_mono [OF set_state_busy [OF assms]])
qed

lemma open_connection_keeps:
  assumes "handles_inv t" and "\<not> tr_msquic t" and "tr_current_state t = TS_Connecting"
  shows "allows (open_connection Q H config t) (\<lambda>(ok, t'). transport_inv t')"
proof -
  obtain ok t2 where i: "init_quic Q config t = (ok, t2)" by fastforce
  note t2 = init_quic_inv [OF assms(1,2) i]
  show ?thesis
  proof (cases ok)
    case False
    then show ?thesis
      using i connect_failed_keeps t2 by (simp add: open_connection_def)
  next
    case True
    have "allows (start_connection Q config t2) (\<lambda>(ok, t'). handles_inv t' \<and> tr_current_state t' = TS_Connecting)"
      using start_connection_inv t2 True assms(3) by (intro allowsI) fastforce
    then show ?thesis
      using i True connect_failed_keeps
      by (auto simp: open_connection_def transport_inv_def split: prod.split intro: allows_mono)
  qed
qed

lemma transport_connect_keeps:
  assumes "transport_inv t"
  shows "allows (transport_connect Q H config callbacks t) (\<lambda>(ok, t'). transport_inv t')"
proof (cases "tr_current_state t = TS_Disconnected")
  case False
  then show ?thesis using assms by (simp add: transport_connect_def)
next
  case True
  let ?t = "t\<lparr>tr_disconnecting := False, tr_callbacks := callbacks\<rparr>"
  have t: "handles_inv ?t" "\<not> tr_msquic t"
    using assms True by (auto simp: transport_inv_def)
  have "allows (open_connection Q H config t') (\<lambda>(ok, t'). transport_inv t')"
    if k: "handles_inv t'" "frame_kept (?t\<lparr>tr_current_state := TS_Connecting\<rparr>) t'" for t'
    using t(2) frame_kept_fields(1,6) [OF k(2)] by (intro open_connection_keeps [OF k(1)]) simp_all
  then show ?thesis
    using True by (auto simp: transport_connect_def intro!: allows_mono [OF set_state_keeps [OF t(1)]])
qed

end

section \<open>Reachable transports\<close>

text \<open>
  What msquic may report: the completion of a send it has accepted, the connection once per connection,
  the final state of a datagram it holds.
\<close>

definition stream_event_possible :: "stream_event \<Rightarrow> 'z Transport_scheme \<Rightarrow> bool" where
  "stream_event_possible ev t \<longleftrightarrow> (case ev of SE_SendComplete (Some s) \<Rightarrow> s \<in> set (tr_stream_sends t) | _ \<Rightarrow> True)"

definition connection_event_possible :: "connection_event \<Rightarrow> 'z Transport_scheme \<Rightarrow> bool" where
  "connection_event_possible ev t \<longleftrightarrow>
     (case ev of
        CE_Connected \<Rightarrow> tr_connection t \<and> \<not> tr_control_stream t
      | CE_PeerStreamStarted \<Rightarrow> tr_msquic t
      | CE_DatagramSendStateChanged (Some block) _ \<Rightarrow> block \<in> set (tr_datagram_sends t)
      | _ \<Rightarrow> True)"

definition fresh_transport :: "'z Transport_scheme \<Rightarrow> bool" where
  "fresh_transport t \<longleftrightarrow> Transport.truncate t = new_MoqTransport"

inductive transport_reach :: "environment \<Rightarrow> 'z Transport_scheme handler \<Rightarrow> 'z Transport_scheme \<Rightarrow> bool"
  for Q :: environment and H :: "'z Transport_scheme handler" where
  reach_new: "fresh_transport t \<Longrightarrow> transport_reach Q H t"
| reach_connect: "transport_reach Q H t \<Longrightarrow> transport_connect Q H config callbacks t = Done (ok, t')
    \<Longrightarrow> transport_reach Q H t'"
| reach_disconnect: "transport_reach Q H t \<Longrightarrow> transport_disconnect Q H t = Done t' \<Longrightarrow> transport_reach Q H t'"
| reach_send_control: "transport_reach Q H t \<Longrightarrow> unat len \<le> length data \<Longrightarrow> send_control Q data len t = Done (ok, t')
    \<Longrightarrow> transport_reach Q H t'"
| reach_send_datagram: "transport_reach Q H t \<Longrightarrow> unat len \<le> length data \<Longrightarrow> send_datagram Q data len t = Done (ok, t')
    \<Longrightarrow> transport_reach Q H t'"
| reach_process: "transport_reach Q H t \<Longrightarrow> process_incoming Q H t = Done t' \<Longrightarrow> transport_reach Q H t'"
| reach_stream_event: "transport_reach Q H t \<Longrightarrow> stream_event_possible ev t \<Longrightarrow> on_stream_event ev t = Done t'
    \<Longrightarrow> transport_reach Q H t'"
| reach_connection_event: "transport_reach Q H t \<Longrightarrow> connection_event_possible ev t
    \<Longrightarrow> on_connection_event Q H ev t = Done t' \<Longrightarrow> transport_reach Q H t'"
| reach_client: "transport_reach Q H t \<Longrightarrow> Transport.truncate t' = Transport.truncate t \<Longrightarrow> transport_reach Q H t'"

lemma truncate_eqD:
  assumes "Transport.truncate t' = Transport.truncate t"
  shows "frame_kept t t'" and "mem_ok t' = mem_ok t" and "tr_events t' = tr_events t"
  using assms by (auto simp: Transport.truncate_def frame_kept_def mem_with_def)

lemma fresh_transport_inv: "fresh_transport t \<Longrightarrow> transport_inv t"
  by (auto simp: fresh_transport_def new_MoqTransport_def Transport.truncate_def transport_inv_def handles_inv_def
      handles_of_def nested_def mem_with_def)

lemma send_control_yields:
  "mem_ok t \<Longrightarrow> unat len \<le> length data \<Longrightarrow>
     yields (send_control Q data len t) (\<lambda>(ok, t'). sent t t' \<and> mem_ok t')"
  using send_on_control_stream_yields [of t len data Q] by (simp add: send_control_def)

lemma send_datagram_yields:
  "mem_ok t \<Longrightarrow> unat len \<le> length data \<Longrightarrow>
     yields (send_datagram Q data len t) (\<lambda>(ok, t'). sent t t' \<and> mem_ok t')"
  using send_datagram_impl_yields [of t len data Q] by (simp add: send_datagram_def)

text \<open>A completion releases the three blocks of its send, the end of a datagram its one block.\<close>

lemma mem_with_complete_stream:
  assumes "mem_ok t" and "(ctx, c) \<in> set (tr_stream_sends t)"
  shows "mem_with [sc_data_buf c, sc_quic_buf c, ctx] (t\<lparr>tr_stream_sends := remove1 (ctx, c) (tr_stream_sends t)\<rparr>)"
proof -
  obtain xs ys where S: "tr_stream_sends t = xs @ (ctx, c) # ys" "(ctx, c) \<notin> set xs"
    using split_list_first [OF assms(2)] by blast
  then have "remove1 (ctx, c) (tr_stream_sends t) = xs @ ys"
    by (simp add: remove1_append)
  with S show ?thesis
    using assms(1) by (simp add: mem_with_def send_blocks_def add.commute add.left_commute)
qed

lemma mem_with_complete_datagram:
  assumes "mem_ok t" and "block \<in> set (tr_datagram_sends t)"
  shows "mem_with [block] (t\<lparr>tr_datagram_sends := remove1 block (tr_datagram_sends t)\<rparr>)"
proof -
  have "mset (tr_datagram_sends t) = add_mset block (mset (remove1 block (tr_datagram_sends t)))"
    using assms(2) by simp
  then show ?thesis
    using assms(1) by (simp add: mem_with_def)
qed

lemma frame_kept_bookkeeping [simp]:
  "frame_kept t (t'\<lparr>tr_stream_sends := x\<rparr>) = frame_kept t t'" "frame_kept t (t'\<lparr>tr_datagram_sends := y\<rparr>) = frame_kept t t'"
  by (simp_all add: frame_kept_def)

lemma release_send:
  assumes "mem_ok t" and "(ctx, c) \<in> set (tr_stream_sends t)"
  shows "yields (on_stream_event (SE_SendComplete (Some (ctx, c))) t) (\<lambda>t'. frame_kept t t' \<and> mem_ok t')"
proof -
  let ?t = "t\<lparr>tr_stream_sends := remove1 (ctx, c) (tr_stream_sends t)\<rparr>"
  note m = mem_with_complete_stream [OF assms]
  have "yields (and_then (free_block (sc_data_buf c) ?t) (\<lambda>t. and_then (free_block (sc_quic_buf c) t)
      (\<lambda>t. and_then (free_block ctx t) Done))) (\<lambda>t'. sent ?t t' \<and> mem_ok t')"
    by (rule free_block_yields [OF m, where ys = "[sc_quic_buf c, ctx]"], simp,
        rule free_block_yields [where ys = "[ctx]"], assumption, simp, rule free_block_yields, assumption)
      (auto intro: sent_trans)
  moreover have "and_then m Done = m" for m :: "'z Transport_scheme outcome"
    by (cases m) simp_all
  ultimately show ?thesis
    by (auto simp: on_stream_event_def sent_def elim!: yields_mono intro: frame_kept_trans [of t ?t])
qed

lemma release_datagram:
  assumes "mem_ok t" and "block \<in> set (tr_datagram_sends t)"
  shows "yields (free_block block (t\<lparr>tr_datagram_sends := remove1 block (tr_datagram_sends t)\<rparr>))
    (\<lambda>t'. frame_kept t t' \<and> mem_ok t')"
proof -
  let ?t = "t\<lparr>tr_datagram_sends := remove1 block (tr_datagram_sends t)\<rparr>"
  have "yields (and_then (free_block block ?t) Done) (\<lambda>t'. sent ?t t' \<and> mem_ok t')"
    by (rule free_block_yields [OF mem_with_complete_datagram [OF assms]]) auto
  then show ?thesis
    by (auto simp: sent_def elim!: yields_mono intro: frame_kept_trans [of t ?t])
qed

lemma on_stream_event_keeps:
  assumes "transport_inv t" and "stream_event_possible ev t"
  shows "yields (on_stream_event ev t) transport_inv"
proof (cases "\<exists>s. ev = SE_SendComplete (Some s)")
  case True
  then obtain ctx c where ev: "ev = SE_SendComplete (Some (ctx, c))" "(ctx, c) \<in> set (tr_stream_sends t)"
    using assms(2) by (auto simp: stream_event_possible_def)
  have m: "mem_ok t"
    using assms(1) by (simp only: transport_inv_def handles_inv_def)
  show ?thesis
    unfolding ev(1)
    by (rule yields_mono [OF release_send [OF m ev(2)]]) (use transport_inv_frame [OF assms(1)] in blast)
next
  case False
  then show ?thesis
    using assms(1) by (auto simp: on_stream_event_def transport_inv_def split: stream_event.split option.split)
qed

context transport_client
begin

lemma on_connection_event_keeps:
  assumes "transport_inv t" and "connection_event_possible ev t"
  shows "allows (on_connection_event Q H ev t) transport_inv"
proof (cases ev)
  case CE_Connected
  then show ?thesis
    using assms by (auto simp: on_connection_event_def connection_event_possible_def transport_inv_def handles_inv_def
        handles_of_def nested_def mem_with_def)
next
  case CE_PeerStreamStarted
  have "sent t (snd (sys Q SetCallbackHandler t))" "mem_ok (snd (sys Q SetCallbackHandler t)) = mem_ok t" if "tr_msquic t"
    using that sys_frame(1,2) [of t SetCallbackHandler Q] by (cases "sys Q SetCallbackHandler t", simp add: handles_of_members)+
  then show ?thesis
    using assms(1) CE_PeerStreamStarted transport_inv_frame [OF assms(1)]
    by (auto simp: on_connection_event_def sent_def transport_inv_def handles_inv_def)
next
  case (CE_DatagramStateChanged enabled n)
  have "transport_inv (if enabled then t\<lparr>tr_max_dgram_size := n\<rparr> else t)"
    using assms(1) by (simp add: transport_inv_fields)
  then show ?thesis
    using CE_DatagramStateChanged by (simp add: on_connection_event_def Let_def fire_transport_inv del: if_split)
next
  case (CE_DatagramReceived raw)
  then show ?thesis
    using assms(1) fire_transport_inv by (auto simp: on_connection_event_def split: outcome.split)
next
  case (CE_DatagramSendStateChanged ctx st)
  show ?thesis
  proof (cases ctx)
    case None
    then show ?thesis using assms(1) CE_DatagramSendStateChanged by (simp add: on_connection_event_def)
  next
    case (Some block)
    then have b: "mem_ok t" "block \<in> set (tr_datagram_sends t)"
      using assms CE_DatagramSendStateChanged
      by (simp_all add: connection_event_possible_def transport_inv_def handles_inv_def)
    have "yields (free_block block (t\<lparr>tr_datagram_sends := remove1 block (tr_datagram_sends t)\<rparr>)) transport_inv"
      by (rule yields_mono [OF release_datagram [OF b]]) (use transport_inv_frame [OF assms(1)] in blast)
    then show ?thesis
      using assms(1) CE_DatagramSendStateChanged Some by (auto simp: on_connection_event_def dest: yields_allows)
  qed
qed (use assms(1) in \<open>simp_all add: on_connection_event_def transport_inv_def\<close>)

lemma reach_inv: "transport_reach Q H t \<Longrightarrow> transport_inv t"
proof (induction rule: transport_reach.induct)
  case (reach_new t)
  then show ?case by (rule fresh_transport_inv)
next
  case (reach_connect t config callbacks ok t')
  then show ?case using allowsD [OF transport_connect_keeps [OF reach_connect.IH]] by fastforce
next
  case (reach_disconnect t t')
  then show ?case using allowsD [OF transport_disconnect_keeps [OF reach_disconnect.IH]] by blast
next
  case (reach_send_control t len data ok t')
  then have "sent t t' \<and> mem_ok t'"
    using send_control_yields [of t len data Q] by (simp add: transport_inv_def handles_inv_def)
  then show ?case using transport_inv_frame [OF reach_send_control.IH] by (simp add: sent_def)
next
  case (reach_send_datagram t len data ok t')
  then have "sent t t' \<and> mem_ok t'"
    using send_datagram_yields [of t len data Q] by (simp add: transport_inv_def handles_inv_def)
  then show ?case using transport_inv_frame [OF reach_send_datagram.IH] by (simp add: sent_def)
next
  case (reach_process t t')
  then show ?case using allowsD [OF drain_and_parse_keeps [OF reach_process.IH]] by (simp add: process_incoming_def)
next
  case (reach_stream_event t ev t')
  then show ?case using on_stream_event_keeps [of t ev] by simp
next
  case (reach_connection_event t ev t')
  then show ?case using allowsD [OF on_connection_event_keeps] by blast
next
  case (reach_client t t')
  then show ?case
    using truncate_eqD [of t' t] transport_inv_frame [of t t'] by (simp add: transport_inv_def handles_inv_def)
qed

end

section \<open>Properties\<close>

text \<open>C15: in every state reachable under a client that only sends from its callbacks, the calls made to msquic
  were admissible one after the other (each on an open handle, children closed before parents) and
  leave open exactly the handles the object holds; none is held while the state is Disconnected.\<close>

theorem transport_calls_admissible:
  assumes "transport_client H" and "transport_reach Q H t"
  shows "replay (tr_calls t) [] = Some (handles_of t)
     \<and> (tr_current_state t = TS_Disconnected \<longrightarrow> handles_of t = [])"
  using transport_client.reach_inv [OF assms] nested_no_api [of t] by (simp add: transport_inv_def handles_inv_def)

text \<open>A client that does nothing, and an environment in which every call succeeds.\<close>

definition idle_client :: "Transport handler" where
  "idle_client = (\<lambda>ev t. Done t)"

lemma transport_client_idle: "transport_client idle_client"
  by unfold_locales (simp add: idle_client_def)

definition all_well :: environment where
  "all_well = (\<lambda>_ _. True)"

definition local_config :: TransportConfig where
  "local_config = \<lparr>tc_host = [0x6C], tc_port = 4433, tc_skip_cert_validation = True, tc_idle_timeout_ms = 30000\<rparr>"

lemma fresh_new: "fresh_transport new_MoqTransport"
  by (simp add: fresh_transport_def new_MoqTransport_def Transport.truncate_def)

lemmas connect_simps = transport_connect_def open_connection_def connect_failed_def init_quic_def start_connection_def
  set_state_def fire_def sys_def Let_def

lemma connect_local:
  obtains t where "transport_connect all_well idle_client local_config no_callbacks new_MoqTransport = Done (True, t)"
    "handles_of t = [HConnection, HConfiguration, HRegistration, HApi]" "tr_control_stream t = False"
    "tr_pending_connected t = False" "tr_current_state t = TS_Connecting"
  by (simp add: connect_simps new_MoqTransport_def all_well_def no_callbacks_def handles_of_def)

theorem transport_calls_admissible_witness:
  "\<exists>t. transport_connect all_well idle_client local_config no_callbacks new_MoqTransport = Done (True, t)
     \<and> replay (tr_calls t) [] = Some [HConnection, HConfiguration, HRegistration, HApi]"
proof (rule connect_local)
  fix t
  assume c: "transport_connect all_well idle_client local_config no_callbacks new_MoqTransport = Done (True, t)"
    "handles_of t = [HConnection, HConfiguration, HRegistration, HApi]"
  then have "transport_reach all_well idle_client t"
    using reach_connect [OF reach_new [OF fresh_new]] by blast
  from transport_calls_admissible [OF transport_client_idle this] c show ?thesis
    by simp
qed

text \<open>C16: the memory handed to msquic: every block allocated and not yet freed belongs to exactly one send that
  msquic has accepted and not completed, and completing any of them frees blocks that are allocated.\<close>

theorem transport_memory:
  assumes "transport_client H" and "transport_reach Q H t"
  shows "distinct (tr_live t)
     \<and> mset (tr_live t) = mset (concat (map send_blocks (tr_stream_sends t))) + mset (tr_datagram_sends t)
     \<and> (\<forall>s\<in>set (tr_stream_sends t). \<exists>t'. on_stream_event (SE_SendComplete (Some s)) t = Done t')
     \<and> (\<forall>b\<in>set (tr_datagram_sends t).
          \<exists>t'. on_connection_event Q H (CE_DatagramSendStateChanged (Some b) QD_Acknowledged) t = Done t')"
proof -
  have m: "mem_ok t"
    using transport_client.reach_inv [OF assms] by (simp only: transport_inv_def handles_inv_def)
  have "\<exists>t'. on_stream_event (SE_SendComplete (Some s)) t = Done t'" if "s \<in> set (tr_stream_sends t)" for s
    using release_send [OF m, of "fst s" "snd s"] that by (auto elim: yieldsE)
  moreover have "\<exists>t'. on_connection_event Q H (CE_DatagramSendStateChanged (Some b) QD_Acknowledged) t = Done t'"
    if "b \<in> set (tr_datagram_sends t)" for b
    using release_datagram [OF m that] by (auto simp: on_connection_event_def elim: yieldsE)
  ultimately show ?thesis
    using m by (simp add: mem_with_def)
qed

lemma length_default_client_setup: "length default_client_setup = 10"
  by code_simp

text \<open>The state after the connection is up: CLIENT_SETUP has been handed to msquic.\<close>

definition connected_local :: "Transport outcome" where
  "connected_local =
     and_then (transport_connect all_well idle_client local_config no_callbacks new_MoqTransport) (\<lambda>(ok, t).
     and_then (on_connection_event all_well idle_client CE_Connected t) (process_incoming all_well idle_client))"

lemma connected_local_Done:
  "\<exists>t. connected_local = Done t \<and> tr_stream_sends t = [(2, \<lparr>sc_data_buf = 0, sc_quic_buf = 1\<rparr>)]
     \<and> tr_datagram_sends t = []"
  by (simp add: connected_local_def connect_simps new_MoqTransport_def all_well_def no_callbacks_def
      on_connection_event_def process_incoming_def drain_and_parse_def take_connected_def start_moq_session_def
      send_on_control_stream_def malloc_def mem_read_def length_default_client_setup take_transport_shutdown_def
      take_peer_shutdown_def take_chunks_def parse_received_def)

lemma connected_local_reach:
  assumes "connected_local = Done t"
  shows "transport_reach all_well idle_client t"
proof (rule connect_local)
  fix t1
  assume c: "transport_connect all_well idle_client local_config no_callbacks new_MoqTransport = Done (True, t1)"
    "handles_of t1 = [HConnection, HConfiguration, HRegistration, HApi]" "tr_control_stream t1 = False"
  obtain t2 where t2: "on_connection_event all_well idle_client CE_Connected t1 = Done t2"
    "process_incoming all_well idle_client t2 = Done t"
    using assms c(1) by (auto simp: connected_local_def on_connection_event_def)
  have "tr_connection t1"
    using c(2) handles_of_members(2) [of t1] by simp
  then have "connection_event_possible CE_Connected t1"
    using c(3) by (simp add: connection_event_possible_def)
  with reach_connect [OF reach_new [OF fresh_new] c(1)] show ?thesis
    using t2 by (blast intro: reach_connection_event reach_process)
qed

theorem transport_memory_witness:
  "\<exists>t. connected_local = Done t \<and> mset (tr_live t) = {#0, 1, 2#}
     \<and> (\<exists>t'. on_stream_event (SE_SendComplete (Some (2, \<lparr>sc_data_buf = 0, sc_quic_buf = 1\<rparr>))) t = Done t')"
proof -
  obtain t where t: "connected_local = Done t" "tr_stream_sends t = [(2, \<lparr>sc_data_buf = 0, sc_quic_buf = 1\<rparr>)]"
    "tr_datagram_sends t = []"
    using connected_local_Done by blast
  from transport_memory [OF transport_client_idle connected_local_reach [OF t(1)]] t show ?thesis
    by (auto simp: send_blocks_def)
qed

end
