(* ===== verification/ClientState.thy ===== *)
theory ClientState
  imports Transport
begin

text \<open>
  The transport changes the state of its client only through the callbacks: a predicate on the client's
  part of the state that the callbacks keep is kept by every operation. The contract is the locale
  \<open>client_state\<close>.
\<close>

section \<open>Operations that leave the client alone\<close>

definition same_client :: "'z Transport_scheme \<Rightarrow> 'z Transport_scheme \<Rightarrow> bool" where
  "same_client t t' \<longleftrightarrow> Transport.more t' = Transport.more t"

lemma same_client_refl [simp]: "same_client t t"
  by (simp add: same_client_def)

lemma same_client_trans: "same_client t u \<Longrightarrow> same_client u v \<Longrightarrow> same_client t v"
  by (simp add: same_client_def)

lemma sys_same_client: "sys Q c t = (ok, t') \<Longrightarrow> same_client t t'"
  by (auto simp: sys_def Let_def same_client_def)

lemma malloc_same_client: "malloc Q n t = (r, t') \<Longrightarrow> same_client t t'"
  by (auto simp: malloc_def sys_def Let_def same_client_def split: if_splits)

lemma free_block_same_client: "allows (free_block p t) (same_client t)"
  by (simp add: free_block_def same_client_def)

lemma free_block_allows: "(\<And>u. same_client t u \<Longrightarrow> P u) \<Longrightarrow> allows (free_block p t) P"
  by (rule allows_mono [OF free_block_same_client])

lemma send_on_control_stream_same_client:
  "allows (send_on_control_stream Q data len t) (\<lambda>(ok, t'). same_client t t')"
  unfolding send_on_control_stream_def Let_def
  by (auto simp: same_client_def mem_read_def split: prod.split option.split intro!: free_block_allows
      dest!: malloc_same_client sys_same_client)

lemma send_datagram_impl_same_client:
  "allows (send_datagram_impl Q data len t) (\<lambda>(ok, t'). same_client t t')"
  unfolding send_datagram_impl_def Let_def
  by (auto simp: same_client_def mem_read_def split: prod.split option.split intro!: free_block_allows
      dest!: malloc_same_client sys_same_client)

lemma send_control_same_client: "allows (send_control Q data len t) (\<lambda>(ok, t'). same_client t t')"
  by (simp add: send_control_def send_on_control_stream_same_client)

lemma send_datagram_same_client: "allows (send_datagram Q data len t) (\<lambda>(ok, t'). same_client t t')"
  by (simp add: send_datagram_def send_datagram_impl_same_client)

lemma init_quic_same_client: "init_quic Q config t = (ok, t') \<Longrightarrow> same_client t t'"
  by (auto simp: init_quic_def sys_def Let_def same_client_def split: if_splits)

lemma start_connection_same_client: "allows (start_connection Q config t) (\<lambda>(ok, t'). same_client t t')"
  by (auto simp: start_connection_def sys_def Let_def same_client_def)

lemma cleanup_quic_same_client: "same_client t (cleanup_quic Q t)"
  by (simp add: cleanup_quic_def reset_transport_state_def close_stream_def close_connection_def
      close_configuration_def close_registration_def close_api_def sys_def Let_def same_client_def)

lemma take_chunks_same_client: "same_client t (take_chunks t)"
  by (simp add: take_chunks_def same_client_def)

lemma on_stream_event_same_client: "allows (on_stream_event ev t) (same_client t)"
  by (auto simp: on_stream_event_def same_client_def split: stream_event.split option.split intro!: free_block_allows)

section \<open>The contract\<close>

locale client_state =
  fixes H :: "'z Transport_scheme handler"
    and I :: "'z Transport_scheme \<Rightarrow> bool"
  assumes client_only: "same_client t t' \<Longrightarrow> I t \<Longrightarrow> I t'"
    and handler_inv: "I t \<Longrightarrow> H ev t = Done t' \<Longrightarrow> I t'"
begin

lemma fields:
  "I t \<Longrightarrow> I (t\<lparr>tr_events := a\<rparr>)" "I t \<Longrightarrow> I (t\<lparr>tr_current_state := b\<rparr>)" "I t \<Longrightarrow> I (t\<lparr>tr_pending_connected := c\<rparr>)"
  "I t \<Longrightarrow> I (t\<lparr>tr_pending_transport_shutdown := c\<rparr>)" "I t \<Longrightarrow> I (t\<lparr>tr_pending_peer_shutdown := c\<rparr>)"
  "I t \<Longrightarrow> I (t\<lparr>tr_control_stream := c\<rparr>)" "I t \<Longrightarrow> I (t\<lparr>tr_disconnecting := c\<rparr>)" "I t \<Longrightarrow> I (t\<lparr>tr_callbacks := d\<rparr>)"
  "I t \<Longrightarrow> I (t\<lparr>tr_recv_buffer := e\<rparr>)" "I t \<Longrightarrow> I (t\<lparr>tr_max_dgram_size := m\<rparr>)" "I t \<Longrightarrow> I (t\<lparr>tr_datagram_sends := xs\<rparr>)"
  by (erule client_only [rotated], simp add: same_client_def)+

lemma fire_inv: "I t \<Longrightarrow> allows (fire H b ev t) I"
  by (simp add: fire_def allowsI handler_inv [OF fields(1)])

lemma set_state_inv: "I t \<Longrightarrow> allows (set_state H s m t) I"
  by (simp add: set_state_def Let_def fire_inv fields)

lemma start_moq_session_inv:
  assumes "I t"
  shows "allows (start_moq_session Q H t) I"
proof -
  have step: "I u" if "same_client t u" for u
    using client_only [OF that assms] .
  have sendI: "allows (send_on_control_stream Q d n u) (\<lambda>(ok, u'). I u')" if "I u" for d n u
    by (rule allows_mono [OF send_on_control_stream_same_client]) (use that client_only in blast)
  obtain ok t1 where o: "sys Q StreamOpen t = (ok, t1)" by fastforce
  obtain ok2 t2 where q: "sys Q StreamStart (t1\<lparr>tr_control_stream := True\<rparr>) = (ok2, t2)" by fastforce
  have 1: "I t1"
    using step [OF sys_same_client [OF o]] .
  have 2: "I t2"
    using client_only [OF sys_same_client [OF q] fields(6) [OF 1]] .
  have "allows (and_then (send_on_control_stream Q default_client_setup (of_nat (length default_client_setup)) t2)
      (\<lambda>(sent, t). Done t)) I"
    unfolding allows_simps by (rule allows_mono [OF sendI [OF 2]]) auto
  then show ?thesis
    using 1 2 o q by (simp add: start_moq_session_def Let_def set_state_inv)
qed

lemma take_connected_inv: "I t \<Longrightarrow> allows (take_connected Q H t) I"
  by (auto simp: take_connected_def intro!: allows_mono [OF set_state_inv] start_moq_session_inv fields)

lemma take_shutdown_inv:
  "I t \<Longrightarrow> allows (take_transport_shutdown H t) I" "I t \<Longrightarrow> allows (take_peer_shutdown H t) I"
  by (simp_all add: take_transport_shutdown_def take_peer_shutdown_def Let_def set_state_inv fields)

lemma handle_message_inv:
  assumes "I t"
  shows "allows (handle_message H type content t) I"
proof -
  have "allows (if type = MT_ServerSetup then
          (case parse_server_setup content of
             Done result \<Rightarrow> set_state H TS_Ready ''MOQ session ready'' t | Reject \<Rightarrow> Done t | Crash e \<Rightarrow> Crash e)
        else Done t) I"
    using assms by (simp add: set_state_inv split: outcome.split)
  then show ?thesis
    unfolding handle_message_def allows_simps by (rule allows_mono) (rule fire_inv)
qed

lemma parse_loop_inv: "I t \<Longrightarrow> allows (parse_loop H buffer_len offset t) (\<lambda>(n, t'). I t')"
proof (induction "nat buffer_len - offset" arbitrary: offset t rule: less_induct)
  case less
  show ?case
  proof (cases "int offset < buffer_len")
    case True
    have "allows (case parse_control_message buf of
          Done (type, content, consumed) \<Rightarrow>
            and_then (handle_message H type content t) (parse_loop H buffer_len (offset + consumed))
        | Reject \<Rightarrow> Done (offset, t) | Crash e \<Rightarrow> Crash e) (\<lambda>(n, t'). I t')" for buf
    proof (cases "parse_control_message buf")
      case (Done r)
      obtain type content consumed where r: "r = (type, content, consumed)" by (cases r)
      have "nat buffer_len - (offset + consumed) < nat buffer_len - offset"
        using parse_control_message_consumed(1) [OF Done [unfolded r]] True by simp
      then show ?thesis
        using Done r less.hyps less.prems by (auto intro!: allows_mono [OF handle_message_inv])
    qed (use less.prems in simp_all)
    then show ?thesis
      using True by (subst parse_loop.simps) (simp add: mem_read_def)
  next
    case False
    then show ?thesis
      using less.prems by (subst parse_loop.simps) simp
  qed
qed

lemma process_incoming_inv:
  assumes "I t"
  shows "allows (process_incoming Q H t) I"
proof -
  have parse: "allows (parse_received H (take_chunks t')) I" if "I t'" for t' :: "'z Transport_scheme"
    using client_only [OF take_chunks_same_client that]
    by (auto simp: parse_received_def fields intro!: allows_mono [OF parse_loop_inv] split: prod.split)
  show ?thesis
    unfolding process_incoming_def drain_and_parse_def allows_simps
    by (intro allows_mono [OF take_connected_inv [OF assms]] allows_mono [OF take_shutdown_inv(1)]
        allows_mono [OF take_shutdown_inv(2)] parse)
qed

lemma connect_failed_inv: "I t \<Longrightarrow> allows (connect_failed Q H m t) (\<lambda>(ok, t'). I t')"
  by (auto simp: connect_failed_def intro!: allows_mono [OF set_state_inv] client_only [OF cleanup_quic_same_client])

lemma open_connection_inv:
  assumes "I t"
  shows "allows (open_connection Q H config t) (\<lambda>(ok, t'). I t')"
proof -
  obtain ok t1 where i: "init_quic Q config t = (ok, t1)" by fastforce
  have 1: "I t1"
    using client_only [OF init_quic_same_client [OF i] assms] .
  have "allows (start_connection Q config t1) (\<lambda>(ok, t'). I t')"
    by (rule allows_mono [OF start_connection_same_client]) (use 1 client_only in blast)
  then show ?thesis
    using i 1 connect_failed_inv
    by (auto simp: open_connection_def split: prod.split elim!: allows_mono)
qed

lemma transport_connect_inv: "I t \<Longrightarrow> allows (transport_connect Q H config callbacks t) (\<lambda>(ok, t'). I t')"
  by (auto simp: transport_connect_def fields intro!: allows_mono [OF set_state_inv] open_connection_inv)

lemma transport_disconnect_inv: "I t \<Longrightarrow> allows (transport_disconnect Q H t) I"
  unfolding transport_disconnect_def
  by (intro set_state_inv client_only [OF cleanup_quic_same_client] fields)

lemma on_stream_event_inv: "I t \<Longrightarrow> allows (on_stream_event ev t) I"
  by (rule allows_mono [OF on_stream_event_same_client]) (rule client_only)

lemma on_connection_event_inv:
  assumes "I t"
  shows "allows (on_connection_event Q H ev t) I"
proof -
  have s: "I (snd (sys Q SetCallbackHandler t))"
    by (rule client_only [OF sys_same_client assms, of Q _ "fst (sys Q SetCallbackHandler t)"]) simp
  have f: "allows (free_block b (t\<lparr>tr_datagram_sends := xs\<rparr>)) I" for b xs
    by (rule free_block_allows) (erule client_only, rule fields(11) [OF assms])
  show ?thesis
    by (cases ev) (simp_all add: on_connection_event_def Let_def fire_inv fields assms s f split: outcome.split option.split)
qed

end

end
