(* ===== verification/Reassembly.thy ===== *)
theory Reassembly
  imports TransportSafety ClientState
begin

text \<open>
  The control stream: whatever the chunks in which its bytes arrive and whenever \<open>process_incoming\<close> runs
  in between, the messages delivered are those of the whole stream, in order, and the bytes of an
  incomplete message wait in the reassembly buffer. Also here: what a callback that disconnects does
  to the parse loop, and the state changes the received messages cause.
\<close>

section \<open>Splitting a stream into messages\<close>

text \<open>The messages at the front of a byte sequence, and the bytes left over.\<close>

function split_stream :: "bytes \<Rightarrow> (MessageType \<times> bytes) list \<times> bytes" where
  "split_stream buf =
     (case parse_control_message buf of
        Done (type, content, consumed) \<Rightarrow>
          (let (ms, rest) = split_stream (drop consumed buf) in ((type, content) # ms, rest))
      | Reject \<Rightarrow> ([], buf)
      | Crash e \<Rightarrow> ([], buf))"
  by pat_completeness auto
termination
  by (relation "measure length", simp) (use parse_control_message_consumed(1,2) in fastforce)

declare split_stream.simps [simp del]

lemma split_stream_step:
  "parse_control_message buf = Done (type, content, consumed) \<Longrightarrow>
     split_stream buf = (let (ms, rest) = split_stream (drop consumed buf) in ((type, content) # ms, rest))"
  by (subst split_stream.simps) simp

lemma split_stream_stop: "\<nexists>r. parse_control_message buf = Done r \<Longrightarrow> split_stream buf = ([], buf)"
  by (subst split_stream.simps) (simp split: outcome.split)

lemma split_stream_append:
  assumes "split_stream xs = (ms, rest)"
  shows "split_stream (xs @ ys) = (let (ms', rest') = split_stream (rest @ ys) in (ms @ ms', rest'))"
  using assms
proof (induction xs arbitrary: ms rest rule: split_stream.induct)
  case (1 xs)
  show ?case
  proof (cases "parse_control_message xs")
    case (Done r)
    obtain type content consumed where r: "r = (type, content, consumed)" by (cases r)
    note p = Done [unfolded r]
    obtain ms' rest' where s: "split_stream (drop consumed xs) = (ms', rest')" by fastforce
    have "split_stream (drop consumed xs @ ys) = (let (ms'', rest'') = split_stream (rest' @ ys) in (ms' @ ms'', rest''))"
      using 1(1) [OF Done r [symmetric] refl s] by simp
    moreover have "drop consumed (xs @ ys) = drop consumed xs @ ys"
      using parse_control_message_consumed(2) [OF p] by simp
    ultimately show ?thesis
      using 1(2) s split_stream_step [OF p] split_stream_step [OF parse_control_message_append [OF p, of ys]]
      by (auto simp: Let_def split: prod.splits)
  next
    case Reject
    then show ?thesis
      using 1(2) split_stream_stop [of xs] by (simp split: prod.split)
  next
    case (Crash e)
    then show ?thesis
      using 1(2) split_stream_stop [of xs] by (simp split: prod.split)
  qed
qed

lemma split_stream_idem: "split_stream xs = (ms, rest) \<Longrightarrow> split_stream rest = ([], rest)"
proof (induction xs arbitrary: ms rest rule: split_stream.induct)
  case (1 xs)
  show ?case
  proof (cases "parse_control_message xs")
    case (Done r)
    obtain type content consumed where r: "r = (type, content, consumed)" by (cases r)
    obtain ms' rest' where s: "split_stream (drop consumed xs) = (ms', rest')" by fastforce
    then show ?thesis
      using 1(1) [OF Done r [symmetric] refl s] 1(2) split_stream_step [OF Done [unfolded r]] by simp
  next
    case Reject
    then show ?thesis using 1(2) split_stream_stop [of xs] by simp
  next
    case (Crash e)
    then show ?thesis using 1(2) split_stream_stop [of xs] by simp
  qed
qed

lemma split_stream_suffix:
  "split_stream xs = (ms, rest) \<Longrightarrow> length rest \<le> length xs \<and> rest = drop (length xs - length rest) xs"
proof (induction xs arbitrary: ms rest rule: split_stream.induct)
  case (1 xs)
  show ?case
  proof (cases "parse_control_message xs")
    case (Done r)
    obtain type content consumed where r: "r = (type, content, consumed)" by (cases r)
    obtain ms' rest' where s: "split_stream (drop consumed xs) = (ms', rest')" by fastforce
    have "rest = rest'"
      using 1(2) split_stream_step [OF Done [unfolded r]] s by simp
    then show ?thesis
      using 1(1) [OF Done r [symmetric] refl s] parse_control_message_consumed(2) [OF Done [unfolded r]] by auto
  next
    case Reject
    then show ?thesis using 1(2) split_stream_stop [of xs] by simp
  next
    case (Crash e)
    then show ?thesis using 1(2) split_stream_stop [of xs] by simp
  qed
qed

section \<open>Runs\<close>

text \<open>Chunks arrive on the control stream, and \<open>process_incoming\<close> is called.\<close>

datatype rx_act = Arrive "bytes list" | Poll

fun rx_run :: "environment \<Rightarrow> 'z Transport_scheme handler \<Rightarrow> rx_act list \<Rightarrow> 'z Transport_scheme
    \<Rightarrow> 'z Transport_scheme outcome" where
  "rx_run Q H [] t = Done t"
| "rx_run Q H (Arrive bufs # acts) t = and_then (on_stream_event (SE_Receive bufs) t) (rx_run Q H acts)"
| "rx_run Q H (Poll # acts) t = and_then (process_incoming Q H t) (rx_run Q H acts)"

fun arrived :: "rx_act list \<Rightarrow> bytes" where
  "arrived [] = []"
| "arrived (Arrive bufs # acts) = concat bufs @ arrived acts"
| "arrived (Poll # acts) = arrived acts"

definition waiting :: "'z Transport_scheme \<Rightarrow> bytes" where
  "waiting t = tr_recv_buffer t @ concat (tr_pending_control_data t)"

section \<open>What is delivered\<close>

fun control_message :: "transport_event \<Rightarrow> (u64 \<times> bytes) option" where
  "control_message (ControlMessage type content) = Some (type, content)"
| "control_message _ = None"

definition delivered :: "'z Transport_scheme \<Rightarrow> (u64 \<times> bytes) list" where
  "delivered t = List.map_filter control_message (tr_events t)"

definition coded :: "MessageType \<times> bytes \<Rightarrow> u64 \<times> bytes" where
  "coded m = (type_code (fst m), snd m)"

text \<open>A setup message whose parameters do not lead the parser out of its buffer.\<close>

definition setup_ok :: "MessageType \<times> bytes \<Rightarrow> bool" where
  "setup_ok m \<longleftrightarrow> (fst m = MT_ServerSetup \<longrightarrow> no_crash (parse_server_setup (snd m)))"

text \<open>The receive side is as before and nothing was delivered.\<close>

definition rx_kept :: "'z Transport_scheme \<Rightarrow> 'z Transport_scheme \<Rightarrow> bool" where
  "rx_kept t t' \<longleftrightarrow>
     tr_recv_buffer t' = tr_recv_buffer t \<and> tr_pending_control_data t' = tr_pending_control_data t \<and>
     tr_callbacks t' = tr_callbacks t \<and> delivered t' = delivered t"

lemma rx_kept_refl [simp]: "rx_kept t t"
  by (simp add: rx_kept_def)

lemma rx_kept_trans: "rx_kept t u \<Longrightarrow> rx_kept u v \<Longrightarrow> rx_kept t v"
  by (simp add: rx_kept_def)

lemma rx_kept_flags [simp]:
  "rx_kept (t\<lparr>tr_pending_connected := b\<rparr>) t' = rx_kept t t'"
  "rx_kept (t\<lparr>tr_pending_transport_shutdown := b\<rparr>) t' = rx_kept t t'"
  "rx_kept (t\<lparr>tr_pending_peer_shutdown := b\<rparr>) t' = rx_kept t t'"
  "rx_kept t (t'\<lparr>tr_pending_transport_shutdown := b\<rparr>) = rx_kept t t'"
  "rx_kept t (t'\<lparr>tr_pending_peer_shutdown := b\<rparr>) = rx_kept t t'"
  by (simp_all add: rx_kept_def delivered_def)

lemma sent_rx_kept: "sent t t' \<Longrightarrow> rx_kept t t'"
  by (auto simp: sent_def rx_kept_def delivered_def dest: frame_kept_fields)

text \<open>
  A client whose callbacks also return: those for the state changes and for the events \<open>E\<close>, as long as
  its own state satisfies an invariant \<open>I\<close>, which they keep.
\<close>

locale stream_client = transport_client H + client_state H I
    for H :: "'z Transport_scheme handler" and I :: "'z Transport_scheme \<Rightarrow> bool" +
  fixes E :: "transport_event \<Rightarrow> bool"
  assumes handler_returns: "mem_ok t \<Longrightarrow> I t \<Longrightarrow> E ev \<Longrightarrow> \<exists>t'. H ev t = Done t'"
    and state_changes: "E (StateChanged s m)"
begin

definition msg_ok :: "MessageType \<times> bytes \<Rightarrow> bool" where
  "msg_ok m \<longleftrightarrow> setup_ok m \<and> E (ControlMessage (type_code (fst m)) (snd m))"

definition live :: "'z Transport_scheme \<Rightarrow> bool" where
  "live t \<longleftrightarrow> transport_inv t \<and> I t"

lemma live_fields:
  "live t \<Longrightarrow> live (t\<lparr>tr_recv_buffer := r\<rparr>)"
  "live t \<Longrightarrow> live (t\<lparr>tr_pending_control_data := q\<rparr>)"
  by (simp_all add: live_def transport_inv_fields client_only [of t] same_client_def)

lemma liveI: "yields m P \<Longrightarrow> allows m transport_inv \<Longrightarrow> allows m I \<Longrightarrow> yields m (\<lambda>t. live t \<and> P t)"
  by (cases m) (simp_all add: live_def)

lemma fire_yields:
  assumes "handles_inv t" and "I t" and "b \<Longrightarrow> E ev"
  shows "yields (fire H b ev t) (\<lambda>t'. handles_inv t' \<and> I t' \<and> frame_kept t t'
     \<and> tr_events t' = tr_events t @ (if b then [ev] else []))"
proof (cases b)
  case True
  let ?t = "t\<lparr>tr_events := tr_events t @ [ev]\<rparr>"
  have m: "mem_ok ?t"
    using handles_inv_mem [OF assms(1)] by (simp add: mem_with_def)
  then obtain t' where d: "H ev ?t = Done t'"
    using handler_returns [OF _ fields(1) [OF assms(2)]] assms(3) True by blast
  then have f: "fire H b ev t = Done t'"
    using True by (simp add: fire_def)
  then show ?thesis
    using allowsD [OF fire_keeps [OF assms(1)] f] allowsD [OF fire_inv [OF assms(2)] f] handler_keeps [OF m d] True by simp
next
  case False
  then show ?thesis using assms by (simp add: fire_def)
qed

lemma set_state_yields:
  assumes "handles_inv t" and "I t"
  shows "yields (set_state H s m t) (\<lambda>t'. handles_inv t' \<and> I t' \<and> frame_kept (t\<lparr>tr_current_state := s\<rparr>) t' \<and> rx_kept t t')"
proof -
  let ?t = "t\<lparr>tr_current_state := s\<rparr>"
  have "handles_inv ?t" and "I ?t"
    using assms fields(2) by simp_all
  then show ?thesis
    unfolding set_state_def Let_def
    by (rule yields_mono [OF fire_yields [OF _ _ state_changes]])
      (auto simp: rx_kept_def delivered_def List.map_filter_def dest: frame_kept_fields)
qed

lemma handle_message_yields:
  assumes "live t" and "msg_ok (type, content)" and "cb_on_control_message (tr_callbacks t)"
  shows "yields (handle_message H type content t) (\<lambda>t'. live t' \<and> tr_recv_buffer t' = tr_recv_buffer t
     \<and> tr_pending_control_data t' = tr_pending_control_data t \<and> tr_callbacks t' = tr_callbacks t
     \<and> delivered t' = delivered t @ [coded (type, content)])"
proof -
  have "yields (if type = MT_ServerSetup then
          (case parse_server_setup content of
             Done result \<Rightarrow> set_state H TS_Ready ''MOQ session ready'' t | Reject \<Rightarrow> Done t | Crash e \<Rightarrow> Crash e)
        else Done t) (\<lambda>t'. handles_inv t' \<and> I t' \<and> rx_kept t t')"
    using assms(1,2)
    by (auto simp: msg_ok_def setup_ok_def live_def transport_inv_def split: outcome.split intro!: yields_mono [OF set_state_yields])
  moreover have "yields (fire H (cb_on_control_message (tr_callbacks t')) (ControlMessage (type_code type) content) t')
      (\<lambda>u. tr_recv_buffer u = tr_recv_buffer t \<and> tr_pending_control_data u = tr_pending_control_data t
        \<and> tr_callbacks u = tr_callbacks t \<and> delivered u = delivered t @ [coded (type, content)])"
    if "handles_inv t' \<and> I t' \<and> rx_kept t t'" for t'
    using that assms(2,3)
    by (auto simp: msg_ok_def rx_kept_def delivered_def coded_def List.map_filter_def dest: frame_kept_fields intro!: yields_mono [OF fire_yields])
  ultimately have y: "yields (handle_message H type content t) (\<lambda>u. tr_recv_buffer u = tr_recv_buffer t
        \<and> tr_pending_control_data u = tr_pending_control_data t
        \<and> tr_callbacks u = tr_callbacks t \<and> delivered u = delivered t @ [coded (type, content)])"
    unfolding handle_message_def yields_simps by (rule yields_mono)
  show ?thesis
    using assms(1) unfolding live_def [of t]
    by (intro liveI [OF y]) (blast intro: handle_message_keeps handle_message_inv)+
qed

text \<open>The parse loop delivers the messages at the front of the buffer and stops where they end.\<close>

lemma parse_loop_yields:
  assumes "live t" and "cb_on_control_message (tr_callbacks t)" and "offset \<le> length (tr_recv_buffer t)"
    and "split_stream (drop offset (tr_recv_buffer t)) = (ms, rest)" and "list_all msg_ok ms"
  shows "yields (parse_loop H (int (length (tr_recv_buffer t))) offset t) (\<lambda>(n, t').
     n = length (tr_recv_buffer t) - length rest \<and> live t' \<and> tr_recv_buffer t' = tr_recv_buffer t
     \<and> tr_pending_control_data t' = tr_pending_control_data t \<and> tr_callbacks t' = tr_callbacks t
     \<and> delivered t' = delivered t @ map coded ms)"
  using assms
proof (induction "length (tr_recv_buffer t) - offset" arbitrary: offset t ms rule: less_induct)
  case less
  let ?buf = "tr_recv_buffer t"
  have read: "mem_read ?buf offset (length ?buf - offset) = Done (drop offset ?buf)"
    using less.prems(3) by (simp add: mem_read_def)
  show ?case
  proof (cases "parse_control_message (drop offset ?buf)")
    case (Done r)
    obtain type content consumed where r: "r = (type, content, consumed)" by (cases r)
    note p = Done [unfolded r]
    note c = parse_control_message_consumed(1,2) [OF p]
    obtain ms' where ms: "ms = (type, content) # ms'" "split_stream (drop (offset + consumed) ?buf) = (ms', rest)"
      using less.prems(4) split_stream_step [OF p] by (auto simp: Let_def add.commute split: prod.splits)
    have lt: "offset < length ?buf"
      using c less.prems(3) by simp
    have "yields (handle_message H type content t) (\<lambda>t'.
        yields (parse_loop H (int (length ?buf)) (offset + consumed) t') (\<lambda>(n, u).
          n = length ?buf - length rest \<and> live u \<and> tr_recv_buffer u = ?buf
          \<and> tr_pending_control_data u = tr_pending_control_data t \<and> tr_callbacks u = tr_callbacks t
          \<and> delivered u = delivered t @ map coded ms))"
    proof (rule yields_mono [OF handle_message_yields [OF less.prems(1)]])
      show "msg_ok (type, content)" and "cb_on_control_message (tr_callbacks t)"
        using less.prems(2,5) ms(1) by simp_all
      fix t' :: "'z Transport_scheme"
      assume t': "live t' \<and> tr_recv_buffer t' = tr_recv_buffer t
        \<and> tr_pending_control_data t' = tr_pending_control_data t \<and> tr_callbacks t' = tr_callbacks t
        \<and> delivered t' = delivered t @ [coded (type, content)]"
      have y: "yields (parse_loop H (int (length (tr_recv_buffer t'))) (offset + consumed) t') (\<lambda>(n, u).
          n = length (tr_recv_buffer t') - length rest \<and> live u \<and> tr_recv_buffer u = tr_recv_buffer t'
          \<and> tr_pending_control_data u = tr_pending_control_data t' \<and> tr_callbacks u = tr_callbacks t'
          \<and> delivered u = delivered t' @ map coded ms')"
        by (rule less.hyps) (use t' c lt less.prems(2,3,5) ms in simp_all)
      then show "yields (parse_loop H (int (length ?buf)) (offset + consumed) t') (\<lambda>(n, u).
          n = length ?buf - length rest \<and> live u \<and> tr_recv_buffer u = ?buf
          \<and> tr_pending_control_data u = tr_pending_control_data t \<and> tr_callbacks u = tr_callbacks t
          \<and> delivered u = delivered t @ map coded ms)"
        using t' ms(1) by simp
    qed
    then show ?thesis
      using lt p by (subst parse_loop.simps) (simp add: read)
  next
    case Reject
    then have "rest = drop offset ?buf" "ms = []"
      using less.prems(4) split_stream_stop [of "drop offset ?buf"] by simp_all
    then show ?thesis
      using less.prems Reject by (subst parse_loop.simps) (simp add: read)
  next
    case (Crash e)
    then show ?thesis
      using parse_control_message_no_crash [of "drop offset ?buf"] by simp
  qed
qed

lemma parse_received_yields:
  assumes "live t" and "cb_on_control_message (tr_callbacks t)" and "length (tr_recv_buffer t) < 2147483648"
    and "split_stream (tr_recv_buffer t) = (ms, rest)" and "list_all msg_ok ms"
  shows "yields (parse_received H t) (\<lambda>t'. live t' \<and> tr_recv_buffer t' = rest
     \<and> tr_pending_control_data t' = tr_pending_control_data t \<and> tr_callbacks t' = tr_callbacks t
     \<and> delivered t' = delivered t @ map coded ms)"
proof (cases "tr_recv_buffer t = []")
  case True
  then have "split_stream (tr_recv_buffer t) = ([], [])"
    by (simp add: split_stream_stop parse_control_message_def)
  then show ?thesis
    using True assms(1,4) by (simp add: parse_received_def)
next
  case False
  let ?buf = "tr_recv_buffer t"
  have "uint (of_nat (length ?buf) :: u64) = int (length ?buf)"
    using assms(3) by (simp add: uint_word_of_int take_bit_int_eq_self unsigned_of_nat take_bit_nat_eq_self)
  then have len: "as_i32 (of_nat (length ?buf)) = int (length ?buf)"
    using assms(3) as_i32_small [of "of_nat (length ?buf)"] by simp
  note suf = split_stream_suffix [OF assms(4)]
  show ?thesis
    using False suf parse_loop_yields [OF assms(1,2), of 0 ms rest] assms(4,5)
    by (auto simp: parse_received_def len live_fields delivered_def elim!: yields_mono)
qed

lemma set_state_rx: "handles_inv t \<Longrightarrow> I t \<Longrightarrow> yields (set_state H s m t) (\<lambda>t'. rx_kept t t')"
  by (rule yields_mono [OF set_state_yields]) simp_all

lemma start_moq_session_yields:
  assumes "handles_inv t" and "I t" and "tr_connection t" and "\<not> tr_control_stream t"
    and "\<not> tr_pending_connected t"
  shows "yields (start_moq_session Q H t) (rx_kept t)"
proof -
  have api: "tr_msquic t"
    using assms(1,3) by (simp add: handles_inv_def nested_def)
  obtain ok t1 where o: "sys Q StreamOpen t = (ok, t1)" by fastforce
  have r1: "rx_kept t t1" "rx_kept t (t1\<lparr>tr_control_stream := True\<rparr>)"
    using o by (auto simp: sys_def Let_def rx_kept_def delivered_def)
  have i1: "I t1"
    by (rule client_only [OF sys_same_client [OF o] assms(2)])
  show ?thesis
  proof (cases ok)
    case False
    then have "handles_inv t1"
      using assms(1,3,4) o by (auto simp: sys_def Let_def handles_inv_def handles_of_def nested_def mem_with_def replay_append)
    then show ?thesis
      using o False api i1
      by (auto simp: start_moq_session_def elim!: yields_mono [OF set_state_rx] intro: rx_kept_trans [OF r1(1)])
  next
    case True
    let ?t1 = "t1\<lparr>tr_control_stream := True\<rparr>"
    have t1: "handles_inv ?t1"
      using assms(1,3-5) o True
      by (auto simp: sys_def Let_def handles_inv_def handles_of_def nested_def mem_with_def replay_append)
    obtain ok2 t2 where q: "sys Q StreamStart ?t1 = (ok2, t2)" by fastforce
    have i2: "I t2"
      by (rule client_only [OF sys_same_client [OF q] fields(6) [OF i1]])
    have f: "sent ?t1 t2" "mem_ok t2"
      using sys_frame(1,2) [OF _ q] handles_inv_mem [OF t1] by (simp_all add: handles_of_def)
    then have t2: "handles_inv t2" "rx_kept t t2"
      using handles_inv_frame [OF t1] rx_kept_trans [OF r1(2) sent_rx_kept [OF f(1)]] by (simp_all add: sent_def)
    have "unat (of_nat (length default_client_setup) :: u32) \<le> length default_client_setup"
      by (simp add: unat_of_nat)
    then have y: "yields (send_on_control_stream Q default_client_setup (of_nat (length default_client_setup)) t2)
        (\<lambda>(ok, t'). rx_kept t2 t')"
      by (rule yields_mono [OF send_on_control_stream_yields [OF handles_inv_mem [OF t2(1)]]]) (auto intro: sent_rx_kept)
    show ?thesis
      using o True q api t2 i2 y
      by (auto simp: start_moq_session_def intro!: yields_mono [OF set_state_rx] elim!: yields_mono
          intro: rx_kept_trans [OF t2(2)])
  qed
qed

lemma take_connected_yields:
  assumes "live t"
  shows "yields (take_connected Q H t) (\<lambda>t'. live t' \<and> rx_kept t t')"
proof (cases "tr_pending_connected t")
  case True
  let ?t = "t\<lparr>tr_pending_connected := False\<rparr>"
  have t: "handles_inv t"
    using assms by (simp add: live_def transport_inv_def)
  have i: "I ?t"
    using assms fields(3) by (simp add: live_def)
  have inv: "handles_inv ?t" and c: "tr_connection t" "\<not> tr_control_stream t"
    using handles_inv_connected_taken [OF t] t True by (auto simp: handles_inv_def [of t])
  have "yields (take_connected Q H t) (rx_kept ?t)"
    unfolding take_connected_def yields_simps using True
  proof (simp, intro yields_mono [OF set_state_yields [OF inv i]])
    fix t'
    assume k: "handles_inv t' \<and> I t' \<and> frame_kept (?t\<lparr>tr_current_state := TS_Connected\<rparr>) t' \<and> rx_kept ?t t'"
    then have "frame_kept (?t\<lparr>tr_current_state := TS_Connected\<rparr>) t'"
      by blast
    from frame_kept_fields [OF this] show "yields (start_moq_session Q H t') (rx_kept ?t)"
      using k c by (intro yields_mono [OF start_moq_session_yields]) (auto intro: rx_kept_trans)
  qed
  then have "yields (take_connected Q H t) (rx_kept t)"
    by (rule yields_mono) simp
  then show ?thesis
    using assms unfolding live_def [of t]
    by (intro liveI) (blast intro: take_connected_keeps take_connected_inv)+
next
  case False
  then show ?thesis using assms by (simp add: take_connected_def)
qed

lemma take_shutdown_yields:
  assumes "live t"
  shows "yields (take_transport_shutdown H t) (\<lambda>t'. live t' \<and> rx_kept t t')"
    and "yields (take_peer_shutdown H t) (\<lambda>t'. live t' \<and> rx_kept t t')"
proof -
  have h: "handles_inv t" "I t" "transport_inv t"
    using assms by (simp_all add: live_def transport_inv_def)
  have "yields (take_transport_shutdown H t) (rx_kept t)"
    using h fields(4) by (auto simp: take_transport_shutdown_def Let_def intro!: yields_mono [OF set_state_rx])
  then show "yields (take_transport_shutdown H t) (\<lambda>t'. live t' \<and> rx_kept t t')"
    by (rule liveI) (rule take_shutdown_keeps(1) take_shutdown_inv(1), rule h)+
  have "yields (take_peer_shutdown H t) (rx_kept t)"
    using h fields(5) by (auto simp: take_peer_shutdown_def Let_def intro!: yields_mono [OF set_state_rx])
  then show "yields (take_peer_shutdown H t) (\<lambda>t'. live t' \<and> rx_kept t t')"
    by (rule liveI) (rule take_shutdown_keeps(2) take_shutdown_inv(2), rule h)+
qed

text \<open>One call of \<open>process_incoming\<close>.\<close>

lemma process_incoming_yields:
  assumes "live t" and "cb_on_control_message (tr_callbacks t)"
    and "length (tr_recv_buffer t @ concat (tr_pending_control_data t)) < 2147483648"
    and "split_stream (tr_recv_buffer t @ concat (tr_pending_control_data t)) = (ms, rest)" and "list_all msg_ok ms"
  shows "yields (process_incoming Q H t) (\<lambda>t'. live t' \<and> tr_recv_buffer t' = rest
     \<and> tr_pending_control_data t' = [] \<and> tr_callbacks t' = tr_callbacks t \<and> delivered t' = delivered t @ map coded ms)"
proof -
  have parse: "yields (parse_received H (take_chunks t')) (\<lambda>u. live u \<and> tr_recv_buffer u = rest
     \<and> tr_pending_control_data u = [] \<and> tr_callbacks u = tr_callbacks t \<and> delivered u = delivered t @ map coded ms)"
    if "live t'" "rx_kept t t'" for t'
    using that assms(2-5) parse_received_yields [of "take_chunks t'" ms rest]
    by (auto simp: take_chunks_def rx_kept_def live_fields delivered_def)
  show ?thesis
    unfolding process_incoming_def drain_and_parse_def yields_simps
    by (rule yields_mono [OF take_connected_yields [OF assms(1)]], rule yields_mono [OF take_shutdown_yields(1)], blast,
        rule yields_mono [OF take_shutdown_yields(2)], blast, rule parse) (auto intro: rx_kept_trans)
qed

lemma rx_run_yields:
  assumes "live t" and "cb_on_control_message (tr_callbacks t)"
    and "length (waiting t @ arrived acts) < 2147483648"
    and "split_stream (waiting t @ arrived acts) = (ms, rest)" and "list_all msg_ok ms"
  shows "yields (rx_run Q H (acts @ [Poll]) t) (\<lambda>t'. live t' \<and> waiting t' = rest
     \<and> delivered t' = delivered t @ map coded ms)"
  using assms
proof (induction acts arbitrary: t ms)
  case Nil
  then show ?case
    by (auto simp: waiting_def intro!: yields_mono [OF process_incoming_yields [where ms = ms and rest = rest]])
next
  case (Cons act acts)
  show ?case
  proof (cases act)
    case (Arrive bufs)
    let ?t = "t\<lparr>tr_pending_control_data := tr_pending_control_data t @ bufs\<rparr>"
    have "waiting ?t @ arrived acts = waiting t @ arrived (act # acts)" and "live ?t"
      using Arrive Cons.prems(1) by (simp_all add: waiting_def live_fields)
    then show ?thesis
      using Cons.IH [of ?t ms] Cons.prems Arrive by (simp add: on_stream_event_def delivered_def)
  next
    case Poll
    obtain ms1 r1 where one: "split_stream (waiting t) = (ms1, r1)" by fastforce
    obtain ms2 where two: "split_stream (r1 @ arrived acts) = (ms2, rest)" "ms = ms1 @ ms2"
      using Cons.prems(4) split_stream_append [OF one, of "arrived acts"] Poll by (auto simp: Let_def split: prod.splits)
    note len = split_stream_suffix [OF one]
    have "yields (process_incoming Q H t) (\<lambda>t'. yields (rx_run Q H (acts @ [Poll]) t') (\<lambda>u. live u
        \<and> waiting u = rest \<and> delivered u = delivered t @ map coded ms))"
    proof (rule yields_mono [OF process_incoming_yields [OF Cons.prems(1,2)]])
      show "length (tr_recv_buffer t @ concat (tr_pending_control_data t)) < 2147483648"
        using Cons.prems(3) by (simp add: waiting_def)
      show "split_stream (tr_recv_buffer t @ concat (tr_pending_control_data t)) = (ms1, r1)" "list_all msg_ok ms1"
        using one two(2) Cons.prems(5) by (simp_all add: waiting_def)
      fix t' :: "'z Transport_scheme"
      assume t': "live t' \<and> tr_recv_buffer t' = r1 \<and> tr_pending_control_data t' = []
        \<and> tr_callbacks t' = tr_callbacks t \<and> delivered t' = delivered t @ map coded ms1"
      then have "waiting t' = r1"
        by (simp add: waiting_def)
      then show "yields (rx_run Q H (acts @ [Poll]) t') (\<lambda>u. live u
        \<and> waiting u = rest \<and> delivered u = delivered t @ map coded ms)"
        using Cons.IH [of t' ms2] t' Cons.prems(2,3,5) two len Poll by simp
    qed
    then show ?thesis
      using Poll by simp
  qed
qed

end

section \<open>Properties\<close>

text \<open>C10: whatever the chunks in which the bytes of the control stream arrive, and however often
  \<open>process_incoming\<close> runs in between, the run returns, the messages delivered after a last call are those
  of the whole byte sequence, each once and in order, and the bytes of an unfinished message are kept.\<close>

theorem reassembly_exact:
  assumes "stream_client H I E" and "I t" and "transport_reach Q H t" and "cb_on_control_message (tr_callbacks t)"
    and "length (waiting t @ arrived acts) < 2147483648"
    and "split_stream (waiting t @ arrived acts) = (ms, rest)"
    and "list_all (\<lambda>m. setup_ok m \<and> E (ControlMessage (type_code (fst m)) (snd m))) ms"
  shows "\<exists>t'. rx_run Q H (acts @ [Poll]) t = Done t' \<and> waiting t' = rest
     \<and> delivered t' = delivered t @ map coded ms \<and> I t'"
proof -
  note client = stream_client.axioms(1) [OF assms(1)]
  have l: "stream_client.live I t"
    using transport_client.reach_inv [OF client assms(3)] assms(2) by (simp add: stream_client.live_def [OF assms(1)])
  have m: "list_all (stream_client.msg_ok E) ms"
    using assms(7) by (simp add: stream_client.msg_ok_def [OF assms(1), abs_def])
  from yieldsE [OF stream_client.rx_run_yields [OF assms(1) l assms(4-6) m, of Q]] show ?thesis
    unfolding stream_client.live_def [OF assms(1)] by blast
qed

text \<open>An ANNOUNCE_OK cut in two, with a call of \<open>process_incoming\<close> between the halves.\<close>

definition listening_callbacks :: TransportCallbacks where
  "listening_callbacks = no_callbacks\<lparr>cb_on_control_message := True\<rparr>"

lemma stream_client_idle: "stream_client idle_client (\<lambda>_. True) (\<lambda>_. True)"
  by unfold_locales (simp_all add: idle_client_def)

lemma connect_listening:
  obtains t where "transport_connect all_well idle_client local_config listening_callbacks new_MoqTransport = Done (True, t)"
    "tr_callbacks t = listening_callbacks" "waiting t = []" "delivered t = []"
  by (simp add: connect_simps new_MoqTransport_def all_well_def listening_callbacks_def no_callbacks_def idle_client_def
      waiting_def delivered_def)

lemma parse_announce_ok_frame:
  "parse_control_message [0x07, 0, 2, 10, 11] = Done (MT_AnnounceOk, [10, 11], 5)" "parse_control_message [] = Reject"
  by code_simp+

theorem reassembly_exact_witness:
  "\<exists>t t'. rx_run all_well idle_client [Arrive [[0x07]], Poll, Arrive [[0, 2], [10, 11]], Poll] t = Done t'
     \<and> delivered t' = [(0x07, [10, 11])] \<and> waiting t' = []"
proof (rule connect_listening)
  fix t
  assume t: "transport_connect all_well idle_client local_config listening_callbacks new_MoqTransport = Done (True, t)"
    "tr_callbacks t = listening_callbacks" "waiting t = []" "delivered t = []"
  let ?acts = "[Arrive [[0x07]], Poll, Arrive [[0, 2], [10, 11]]]"
  have "split_stream [0x07, 0, 2, 10, 11] = ([(MT_AnnounceOk, [10, 11])], [])"
    using split_stream_step [OF parse_announce_ok_frame(1)] split_stream_stop [of "[]"] parse_announce_ok_frame(2)
    by simp
  then have s: "split_stream (waiting t @ arrived ?acts) = ([(MT_AnnounceOk, [10, 11])], [])"
    by (simp add: t(3))
  have "transport_reach all_well idle_client t"
    using reach_connect [OF reach_new [OF fresh_new]] t(1) by blast
  from reassembly_exact [OF stream_client_idle _ this _ _ s] show ?thesis
    using t by (auto simp: listening_callbacks_def setup_ok_def coded_def)
qed

text \<open>A client whose callback for control messages disconnects.\<close>

definition hang_up :: "environment \<Rightarrow> 'z Transport_scheme handler" where
  "hang_up Q ev t =
     (case ev of ControlMessage type content \<Rightarrow> transport_disconnect Q (\<lambda>ev t. Done t) t | _ \<Rightarrow> Done t)"

lemma hang_up_clears:
  "cb_on_control_message (tr_callbacks t) \<Longrightarrow>
     \<exists>t'. fire (hang_up Q) True (ControlMessage type content) t = Done t' \<and> tr_recv_buffer t' = []"
  by (simp add: fire_def hang_up_def transport_disconnect_def set_state_def Let_def)

text \<open>C38: \<open>disconnect\<close> from the callback for a control message clears the buffer the parse loop is reading: the loop
  then reads, or erases, outside it, whatever the message.\<close>

theorem disconnect_in_callback_faults:
  assumes "parse_control_message (waiting t) = Done (type, content, consumed)" and "type \<noteq> MT_ServerSetup"
    and "cb_on_control_message (tr_callbacks t)" and "length (waiting t) < 2147483648"
    and "\<not> tr_pending_connected t" and "\<not> tr_pending_transport_shutdown t" and "\<not> tr_pending_peer_shutdown t"
  shows "process_incoming Q (hang_up Q) t = Crash OutOfBounds"
proof -
  let ?u = "take_chunks t" and ?buf = "waiting t"
  note c = parse_control_message_consumed(1,2) [OF assms(1)]
  have u: "tr_recv_buffer ?u = ?buf" "cb_on_control_message (tr_callbacks ?u)"
    using assms(3) by (simp_all add: take_chunks_def waiting_def)
  have len: "as_i32 (of_nat (length ?buf)) = int (length ?buf)"
    using assms(4) as_i32_small [of "of_nat (length ?buf)"]
    by (simp add: unsigned_of_nat take_bit_nat_eq_self)
  obtain v where v: "fire (hang_up Q) True (ControlMessage (type_code type) content) ?u = Done v" "tr_recv_buffer v = []"
    using hang_up_clears [OF u(2)] by blast
  have "parse_loop (hang_up Q) (int (length ?buf)) 0 ?u = parse_loop (hang_up Q) (int (length ?buf)) consumed v"
    using c assms(1,2) u v(1) by (subst parse_loop.simps) (auto simp: mem_read_def handle_message_def)
  also have "\<dots> = (if consumed < length ?buf then Crash OutOfBounds else Done (consumed, v))"
    using c v(2) by (subst parse_loop.simps) (simp add: mem_read_def)
  finally have "parse_received (hang_up Q) ?u = Crash OutOfBounds"
    using c u(1) v(2) by (auto simp: parse_received_def len)
  then show ?thesis
    using assms(5-7) by (simp add: process_incoming_def drain_and_parse_def take_connected_def
        take_transport_shutdown_def take_peer_shutdown_def)
qed

theorem disconnect_in_callback_faults_witness:
  "process_incoming all_well (hang_up all_well)
     (new_MoqTransport\<lparr>tr_callbacks := listening_callbacks, tr_pending_control_data := [[0x07, 0], [2, 10, 11]]\<rparr>)
     = Crash OutOfBounds"
  by (rule disconnect_in_callback_faults [where type = MT_AnnounceOk and content = "[10, 11]" and consumed = 5])
    (simp_all add: waiting_def new_MoqTransport_def listening_callbacks_def no_callbacks_def parse_announce_ok_frame)

text \<open>
  A transport that has failed can become ready: the shutdown flag is looked at before the bytes that
  arrived earlier, and a SERVER_SETUP among them is followed whatever the state.
\<close>

lemma failed_transport_becomes_ready:
  "yields (process_incoming all_well idle_client
      (new_MoqTransport\<lparr>tr_current_state := TS_Connected, tr_pending_transport_shutdown := True,
         tr_callbacks := \<lparr>cb_on_state_changed = True, cb_on_control_message = False, cb_on_datagram = False,
                          cb_on_datagram_state_changed = False\<rparr>,
         tr_pending_control_data := [[0x21, 0, 1, 0]]\<rparr>))
     (\<lambda>t. tr_current_state t = TS_Ready
        \<and> tr_events t = [StateChanged TS_Failed ''Transport shutdown'', StateChanged TS_Ready ''MOQ session ready''])"
proof -
  have "encode_params [] = [0]"
    by code_simp
  then have "parse_server_setup [0] = Done \<lparr>ssr_version = kMoqVersion, ssr_params = wire_params []\<rparr>"
    using parse_server_setup_result [of "[]"] by (simp add: fits_i32_def i32_max_def)
  moreover have "parse_control_message [0x21, 0, 1, 0] = Done (MT_ServerSetup, [0], 4)"
    by code_simp
  ultimately have msg: "parse_control_message [0x21, 0, 1, 0] = Done (MT_ServerSetup, [0], 4)"
    "parse_server_setup [0] = Done \<lparr>ssr_version = kMoqVersion, ssr_params = wire_params []\<rparr>"
    by blast+
  have len: "as_i32 4 = 4"
    using as_i32_small [of 4] by simp
  have idle: "idle_client ev t = Done t" for ev t
    by (simp add: idle_client_def)
  have done4: "parse_loop H 4 4 u = Done (4, u)" for H and u :: Transport
    by (subst parse_loop.simps) simp
  have loop: "parse_loop idle_client 4 0 u = Done (4, u\<lparr>tr_current_state := TS_Ready,
      tr_events := tr_events u @ [StateChanged TS_Ready ''MOQ session ready'']\<rparr>)"
    if "tr_recv_buffer u = [0x21, 0, 1, 0]" "cb_on_state_changed (tr_callbacks u)" "\<not> cb_on_control_message (tr_callbacks u)"
    for u
    using that by (subst parse_loop.simps)
      (simp add: mem_read_def msg handle_message_def set_state_def fire_def idle_client_def done4)
  show ?thesis
    by (simp add: process_incoming_def drain_and_parse_def take_connected_def take_transport_shutdown_def
        take_peer_shutdown_def take_chunks_def parse_received_def set_state_def fire_def new_MoqTransport_def
        len loop idle)
qed

end
