(* ===== verification/Url.thy ===== *)
theory Url
  imports Prelude
begin

text \<open>
  \<open>SessionManager::parse_url\<close> of \<open>session_manager.cpp\<close>, on byte strings, with the string functions and
  \<open>std::stoi\<close> it uses. Lemmas: the host and port of a well-formed URL come back, and which port texts
  make \<open>stoi\<close> throw through \<open>connect()\<close>.
\<close>

section \<open>Strings\<close>

fun find_char :: "u8 \<Rightarrow> bytes \<Rightarrow> nat option" where
  "find_char c [] = None"
| "find_char c (x # xs) = (if x = c then Some 0 else map_option Suc (find_char c xs))"

fun rfind_char :: "u8 \<Rightarrow> bytes \<Rightarrow> nat option" where
  "rfind_char c [] = None"
| "rfind_char c (x # xs) =
     (case rfind_char c xs of Some i \<Rightarrow> Some (Suc i) | None \<Rightarrow> if x = c then Some 0 else None)"

fun find_str :: "bytes \<Rightarrow> bytes \<Rightarrow> nat option" where
  "find_str p [] = (if p = [] then Some 0 else None)"
| "find_str p (x # xs) = (if take (length p) (x # xs) = p then Some 0 else map_option Suc (find_str p xs))"

text \<open>
  \<open>std::stoi\<close>: white space, an optional sign, as many digits as there are; it throws when there is no
  digit or the value is not an \<open>int\<close>. What follows the digits is ignored.
\<close>

definition is_space :: "u8 \<Rightarrow> bool" where
  "is_space c \<longleftrightarrow> c = 0x20 \<or> (0x09 \<le> c \<and> c \<le> 0x0D)"

definition is_digit :: "u8 \<Rightarrow> bool" where
  "is_digit c \<longleftrightarrow> 0x30 \<le> c \<and> c \<le> 0x39"

definition digits_value :: "bytes \<Rightarrow> int" where
  "digits_value ds = foldl (\<lambda>a d. a * 10 + (uint d - 0x30)) 0 ds"

definition stoi :: "bytes \<Rightarrow> int outcome" where
  "stoi s =
     (let s = dropWhile is_space s;
          neg = (s \<noteq> [] \<and> hd s = 0x2D);
          s = (if s \<noteq> [] \<and> (hd s = 0x2D \<or> hd s = 0x2B) then tl s else s);
          ds = takeWhile is_digit s in
      if ds = [] then Crash InvalidArgument
      else
        let v = (if neg then - digits_value ds else digits_value ds) in
        if v > i32_max \<or> v < - i32_max - 1 then Crash OutOfRange else Done v)"

section \<open>parse\_url\<close>

definition scheme_separator :: bytes where "scheme_separator = [0x3A, 0x2F, 0x2F]"

text \<open>\<open>host\<close> and \<open>port\<close> are output parameters: their old values come back where the code leaves them alone.\<close>

definition strip_url :: "bytes \<Rightarrow> bytes" where
  "strip_url url =
     (let work = (case find_str scheme_separator url of Some i \<Rightarrow> drop (i + 3) url | None \<Rightarrow> url) in
      case find_char 0x2F work of Some i \<Rightarrow> take i work | None \<Rightarrow> work)"

definition parse_url :: "bytes \<Rightarrow> bytes \<Rightarrow> u16 \<Rightarrow> (bool \<times> bytes \<times> u16) outcome" where
  "parse_url url host port =
     (let work = strip_url url in
      if work = [] then Done (False, host, port)
      else if hd work = 0x5B then
        (case find_char 0x5D work of
           None \<Rightarrow> Done (False, host, port)
         | Some bracket_end \<Rightarrow>
             let host = take (bracket_end - 1) (drop 1 work) in
             if bracket_end + 1 < length work \<and> work ! (bracket_end + 1) = 0x3A then
               and_then (stoi (drop (bracket_end + 2) work)) (\<lambda>p. Done (host \<noteq> [], host, word_of_int p))
             else Done (host \<noteq> [], host, 443))
      else
        (case rfind_char 0x3A work of
           Some colon_pos \<Rightarrow>
             let host = take colon_pos work in
             and_then (stoi (drop (colon_pos + 1) work)) (\<lambda>p. Done (host \<noteq> [], host, word_of_int p))
         | None \<Rightarrow> Done (work \<noteq> [], work, 443)))"

section \<open>Lemmas\<close>

lemma find_char_append: "c \<notin> set xs \<Longrightarrow> find_char c (xs @ c # ys) = Some (length xs)"
  by (induction xs) auto

lemma find_char_None: "c \<notin> set xs \<Longrightarrow> find_char c xs = None"
  by (induction xs) auto

lemma rfind_char_None: "c \<notin> set xs \<Longrightarrow> rfind_char c xs = None"
  by (induction xs) auto

lemma rfind_char_append: "c \<notin> set ys \<Longrightarrow> rfind_char c (xs @ c # ys) = Some (length xs)"
  by (induction xs) (simp_all add: rfind_char_None)

lemma find_str_append:
  "x \<notin> set xs \<Longrightarrow> find_str (x # p) (xs @ (x # p) @ ys) = Some (length xs)"
  by (induction xs) auto

lemma find_str_None: "x \<notin> set xs \<Longrightarrow> find_str (x # p) xs = None"
  by (induction xs) auto

text \<open>The decimal digits of a number, most significant first.\<close>

fun decimal :: "nat \<Rightarrow> bytes" where
  "decimal n = (if n < 10 then [of_nat (n + 0x30)] else decimal (n div 10) @ [of_nat (n mod 10 + 0x30)])"

declare decimal.simps [simp del]

lemma digit_of_nat:
  assumes "n < 10"
  shows "is_digit (of_nat (n + 0x30))" and "uint (of_nat (n + 0x30) :: u8) = int n + 0x30"
proof -
  have "unat (of_nat (n + 0x30) :: u8) = n + 0x30"
    unfolding unat_of_nat using assms by simp
  then show "uint (of_nat (n + 0x30) :: u8) = int n + 0x30"
    by (metis int_ops(5) of_nat_numeral uint_nat)
  then show "is_digit (of_nat (n + 0x30))"
    using assms by (simp add: is_digit_def word_le_def)
qed

lemma decimal_digits: "list_all is_digit (decimal n) \<and> decimal n \<noteq> []"
proof (induction n rule: decimal.induct)
  case (1 n)
  then show ?case
    using digit_of_nat(1) [of n] digit_of_nat(1) [of "n mod 10"]
    by (cases "n < 10") (simp_all add: decimal.simps [of n])
qed

lemma digits_value_decimal: "digits_value (decimal n) = int n"
proof (induction n rule: decimal.induct)
  case (1 n)
  show ?case
  proof (cases "n < 10")
    case True
    then show ?thesis
      using digit_of_nat(2) [of n] by (simp add: decimal.simps [of n] digits_value_def)
  next
    case False
    then have "digits_value (decimal n) = int (n div 10) * 10 + int (n mod 10)"
      using 1 digit_of_nat(2) [of "n mod 10"] by (simp add: decimal.simps [of n] digits_value_def)
    also have "\<dots> = int n"
      by presburger
    finally show ?thesis .
  qed
qed

lemma stoi_decimal:
  assumes "int n \<le> i32_max" and "rest = [] \<or> \<not> is_digit (hd rest)"
  shows "stoi (decimal n @ rest) = Done (int n)"
proof -
  obtain d ds where d: "decimal n = d # ds"
    using decimal_digits [of n] by (cases "decimal n") auto
  have dig: "is_digit d"
    using decimal_digits [of n] d by simp
  then have "\<not> is_space d" "d \<noteq> 0x2D" "d \<noteq> 0x2B"
    by (auto simp: is_digit_def is_space_def word_le_nat_alt)
  moreover have "takeWhile is_digit (decimal n @ rest) = decimal n"
    using decimal_digits [of n] assms(2) by (cases rest) (simp_all add: list_all_iff takeWhile_append2)
  ultimately show ?thesis
    using assms(1) digits_value_decimal [of n] d by (simp add: stoi_def i32_max_def)
qed

lemma find_str_None_one:
  assumes "x \<notin> set xs" and "x \<notin> set ys" and "take (length p) ys \<noteq> p"
  shows "find_str (x # p) (xs @ x # ys) = None"
  using assms by (induction xs) (auto simp: find_str_None)

text \<open>What is left of a URL without its scheme and its path.\<close>

lemma strip_url_body:
  assumes "0x2F \<notin> set body" and "path = [] \<or> hd path = 0x2F"
    and "scheme = [] \<and> find_str scheme_separator (body @ path) = None
       \<or> (\<exists>name. scheme = name @ scheme_separator \<and> 0x3A \<notin> set name)"
  shows "strip_url (scheme @ body @ path) = body"
proof -
  have "(case find_str scheme_separator (scheme @ body @ path) of
      Some i \<Rightarrow> drop (i + 3) (scheme @ body @ path) | None \<Rightarrow> scheme @ body @ path) = body @ path"
    using assms(3) find_str_append [of "0x3A" _ "[0x2F, 0x2F]" "body @ path"]
    by (auto simp: scheme_separator_def)
  moreover have "(case find_char 0x2F (body @ path) of Some i \<Rightarrow> take i (body @ path) | None \<Rightarrow> body @ path) = body"
    using assms(1,2) by (cases path) (simp_all add: find_char_None find_char_append)
  ultimately show ?thesis
    by (simp add: strip_url_def)
qed

lemma decimal_chars:
  "c \<in> set (decimal n) \<Longrightarrow> c \<noteq> 0x2F \<and> c \<noteq> 0x3A \<and> c \<noteq> 0x5D"
  using decimal_digits [of n] by (auto simp: list_all_iff is_digit_def word_le_nat_alt)

section \<open>Properties\<close>

text \<open>A URL built of an optional scheme, a host name, an optional port and an optional path is parsed back into
  its host and port; without a port it is 443.\<close>

theorem url_round_trip:
  assumes "host \<noteq> []" and "hd host \<noteq> 0x5B" and "0x3A \<notin> set host" and "0x2F \<notin> set host" and "p < 65536"
    and "path = [] \<or> hd path = 0x2F"
    and "scheme = [] \<and> 0x3A \<notin> set path \<or> (\<exists>name. scheme = name @ scheme_separator \<and> 0x3A \<notin> set name)"
  shows "parse_url (scheme @ (host @ [0x3A] @ decimal p) @ path) h0 p0 = Done (True, host, of_nat p)
     \<and> parse_url (scheme @ host @ path) h0 p0 = Done (True, host, 443)"
proof
  let ?body = "host @ [0x3A] @ decimal p"
  obtain d ds where d: "decimal p = d # ds"
    using decimal_digits [of p] by (cases "decimal p") auto
  then have "d \<noteq> 0x2F"
    using decimal_chars [of d p] by simp
  then have "find_str scheme_separator (?body @ path) = None" if "0x3A \<notin> set path"
    using that assms(3) d decimal_chars [of _ p] find_str_None_one [of "0x3A" host "decimal p @ path" "[0x2F, 0x2F]"]
    by (auto simp: scheme_separator_def)
  then have "strip_url (scheme @ ?body @ path) = ?body"
    using assms(4,6,7) decimal_chars [of _ p] by (intro strip_url_body) auto
  moreover have "rfind_char 0x3A ?body = Some (length host)"
    using rfind_char_append [of "0x3A" "decimal p" host] decimal_chars [of _ p] by auto
  moreover have "stoi (decimal p) = Done (int p)"
    using stoi_decimal [of p "[]"] assms(5) by (simp add: i32_max_def)
  ultimately show "parse_url (scheme @ ?body @ path) h0 p0 = Done (True, host, of_nat p)"
    using assms(1,2) by (simp add: parse_url_def hd_append)
next
  have "find_str scheme_separator (host @ path) = None" if "0x3A \<notin> set path"
    using that assms(3) find_str_None [of "0x3A" "host @ path" "[0x2F, 0x2F]"] by (simp add: scheme_separator_def)
  then have "strip_url (scheme @ host @ path) = host"
    using assms(4,6,7) by (intro strip_url_body) auto
  then show "parse_url (scheme @ host @ path) h0 p0 = Done (True, host, 443)"
    using assms(1-3) rfind_char_None [of "0x3A" host] by (simp add: parse_url_def)
qed

text \<open>\<open>https://ab:4433/x\<close>\<close>

theorem url_round_trip_witness:
  "parse_url (([0x68, 0x74, 0x74, 0x70, 0x73] @ scheme_separator) @ ([0x61, 0x62] @ [0x3A] @ decimal 4433) @ [0x2F, 0x78]) [] 0
     = Done (True, [0x61, 0x62], 4433)"
  by (rule url_round_trip [THEN conjunct1, of "[0x61, 0x62]" 4433 "[0x2F, 0x78]"
      "[0x68, 0x74, 0x74, 0x70, 0x73] @ scheme_separator", simplified of_nat_numeral]) auto

text \<open>A port that is not a number makes \<open>stoi\<close> throw, and a port above \<open>2^16 - 1\<close> is truncated.\<close>

lemma url_port_faults:
  "parse_url [0x61, 0x3A, 0x78] h0 p0 = Crash InvalidArgument"
  "parse_url [0x61, 0x3A] h0 p0 = Crash InvalidArgument"
  "parse_url (0x61 # 0x3A # replicate 10 0x39) h0 p0 = Crash OutOfRange"
  "parse_url [0x61, 0x3A, 0x36, 0x35, 0x35, 0x33, 0x37] h0 p0 = Done (True, [0x61], 1)"
  by code_simp+

end
