(* ===== verification/Tracks.thy ===== *)
theory Tracks
  imports RingBuffer JitterBuffer Codec
begin

text \<open>
  The configuration types of \<open>core.h\<close> and the tracks of \<open>session_manager.h\<close>: what \<open>configure()\<close> builds for
  a track of each kind. Lemmas: the buffers and codecs a track has, and their sizes.
\<close>

section \<open>Configuration\<close>

datatype TrackType = TT_Audio | TT_Data
datatype TrackDirection = Outbound | Inbound
datatype AudioCodec = Codec_Opus | Codec_PCM
datatype ConnectionState = CS_Disconnected | CS_Connecting | CS_Connected | CS_Reconnecting | CS_Failed

record SubscribeParam =
  sp_key :: u64
  sp_value :: bytes

record TrackConfig =
  cfg_name :: bytes
  cfg_moq_namespace :: "bytes list"
  cfg_moq_track_name :: bytes
  cfg_direction :: TrackDirection
  cfg_type :: TrackType
  cfg_channels :: u32
  cfg_sample_rate :: u32
  cfg_codec :: AudioCodec
  cfg_opus_bitrate :: u32
  cfg_opus_frame_size_ms :: u32
  cfg_pcm_frame_size_ms :: u32

text \<open>The three callbacks the session's behaviour depends on are recorded as set or null.\<close>

record SessionConfig =
  sc_server_url :: bytes
  sc_jwt :: bytes
  sc_tracks :: "TrackConfig list"
  sc_jitter_buffer_min_ms :: u32
  sc_jitter_buffer_max_ms :: u32
  sc_jitter_buffer_initial_ms :: u32
  sc_data_recv_callback :: bool
  sc_status_callback :: bool
  sc_subscribe_params_callback :: bool
  sc_max_reconnect_attempts :: u32
  sc_reconnect_base_delay_ms :: u32
  sc_reconnect_max_delay_ms :: u32

text \<open>The defaults of the header, where it gives one.\<close>

definition default_TrackConfig :: "bytes \<Rightarrow> bytes list \<Rightarrow> bytes \<Rightarrow> TrackDirection \<Rightarrow> TrackConfig" where
  "default_TrackConfig name ns track_name direction =
     \<lparr>cfg_name = name, cfg_moq_namespace = ns, cfg_moq_track_name = track_name, cfg_direction = direction,
      cfg_type = TT_Data, cfg_channels = 1, cfg_sample_rate = 48000, cfg_codec = Codec_Opus,
      cfg_opus_bitrate = 64000, cfg_opus_frame_size_ms = 5, cfg_pcm_frame_size_ms = 5\<rparr>"

definition default_SessionConfig :: SessionConfig where
  "default_SessionConfig =
     \<lparr>sc_server_url = [], sc_jwt = [], sc_tracks = [], sc_jitter_buffer_min_ms = 10, sc_jitter_buffer_max_ms = 200,
      sc_jitter_buffer_initial_ms = 60, sc_data_recv_callback = False, sc_status_callback = False,
      sc_subscribe_params_callback = False, sc_max_reconnect_attempts = 10, sc_reconnect_base_delay_ms = 100,
      sc_reconnect_max_delay_ms = 10000\<rparr>"

section \<open>Tracks\<close>

text \<open>A \<open>TrackHandle\<close> carries the number that stands for its address.\<close>

record 'h TrackHandle =
  th_ptr :: nat
  th_config :: TrackConfig
  th_moq_track_alias :: u64
  th_moq_request_id :: u64
  th_next_object_id :: u64
  th_next_group_id :: u64
  th_ring_buffer :: "RingBuffer option"
  th_jitter_buffer :: "JitterBuffer option"
  th_encoder :: "'h OpusEncoderWrapper option"
  th_decoder :: "'h OpusDecoderWrapper option"
  th_pcm_read_buffer :: "sample list"
  th_encode_output_buffer :: bytes
  th_datagram_buffer :: bytes
  th_decode_buffer :: "sample list"

definition new_TrackHandle :: "nat \<Rightarrow> TrackConfig \<Rightarrow> 'h TrackHandle" where
  "new_TrackHandle ptr tc =
     \<lparr>th_ptr = ptr, th_config = tc, th_moq_track_alias = 0, th_moq_request_id = 0, th_next_object_id = 0,
      th_next_group_id = 0, th_ring_buffer = None, th_jitter_buffer = None, th_encoder = None, th_decoder = None,
      th_pcm_read_buffer = [], th_encode_output_buffer = [], th_datagram_buffer = [], th_decode_buffer = []\<rparr>"

definition RING_BUFFER_MS :: u32 where "RING_BUFFER_MS = 200"

text \<open>Outbound audio: ring buffer, encoder (kept even when its \<open>init\<close> fails) and send buffers.\<close>

definition frame_size_of :: "TrackConfig \<Rightarrow> u32" where
  "frame_size_of tc =
     (if cfg_codec tc = Codec_Opus then cfg_opus_frame_size_ms tc * cfg_sample_rate tc div 1000
      else cfg_pcm_frame_size_ms tc * cfg_sample_rate tc div 1000)"

definition make_encoder :: "'h opus_lib \<Rightarrow> TrackConfig \<Rightarrow> 'h OpusEncoderWrapper" where
  "make_encoder L tc =
     snd (encoder_init L (default_OpusEncoderConfig\<lparr>ec_sample_rate := cfg_sample_rate tc, ec_channels := cfg_channels tc,
       ec_bitrate := cfg_opus_bitrate tc, ec_frame_size_ms := cfg_opus_frame_size_ms tc\<rparr>) new_OpusEncoderWrapper)"

definition make_outbound_audio :: "'h opus_lib \<Rightarrow> TrackConfig \<Rightarrow> 'h TrackHandle \<Rightarrow> 'h TrackHandle" where
  "make_outbound_audio L tc h =
     (let ring_capacity_frames = cfg_sample_rate tc * RING_BUFFER_MS div 1000;
          frame_size_samples = frame_size_of tc;
          output_size = (if cfg_codec tc = Codec_Opus then 512
                         else unat (frame_size_samples * cfg_channels tc) * 4) in
      h\<lparr>th_ring_buffer := Some (new_RingBuffer ring_capacity_frames (cfg_channels tc)),
        th_encoder := (if cfg_codec tc = Codec_Opus then Some (make_encoder L tc) else None),
        th_pcm_read_buffer := replicate (unat (frame_size_samples * cfg_channels tc)) 0,
        th_encode_output_buffer := replicate output_size 0,
        th_datagram_buffer := replicate (34 + output_size) 0\<rparr>)"

text \<open>Inbound audio: jitter buffer, decoder and decode buffer.\<close>

definition make_inbound_audio :: "'h opus_lib \<Rightarrow> SessionConfig \<Rightarrow> TrackConfig \<Rightarrow> 'h TrackHandle \<Rightarrow> 'h TrackHandle outcome" where
  "make_inbound_audio L config tc h =
     (let jb_cfg = default_JitterBufferConfig\<lparr>jc_sample_rate := cfg_sample_rate tc, jc_num_channels := cfg_channels tc,
            jc_min_latency_ms := sc_jitter_buffer_min_ms config, jc_max_latency_ms := sc_jitter_buffer_max_ms config,
            jc_target_latency_ms := sc_jitter_buffer_initial_ms config\<rparr>;
          h = h\<lparr>th_jitter_buffer := Some (new_JitterBuffer jb_cfg)\<rparr> in
      and_then
        (if cfg_codec tc = Codec_Opus then
           and_then (decoder_init L \<lparr>dc_sample_rate = cfg_sample_rate tc, dc_channels = cfg_channels tc\<rparr> new_OpusDecoderWrapper)
             (\<lambda>(ok, dec). Done (h\<lparr>th_decoder := Some dec\<rparr>))
         else Done h)
        (\<lambda>h. Done (h\<lparr>th_decode_buffer := replicate (unat (960 * cfg_channels tc)) 0\<rparr>)))"

definition make_track :: "'h opus_lib \<Rightarrow> SessionConfig \<Rightarrow> nat \<Rightarrow> TrackConfig \<Rightarrow> 'h TrackHandle outcome" where
  "make_track L config ptr tc =
     (let h = new_TrackHandle ptr tc in
      if cfg_type tc = TT_Audio then
        if cfg_direction tc = Outbound then Done (make_outbound_audio L tc h) else make_inbound_audio L config tc h
      else Done h)"

end
