(* ===== verification/Session.thy ===== *)
theory Session
  imports Tracks Reassembly TopicMerger Url
begin

text \<open>
  \<open>SessionManager\<close> of \<open>session_manager.h\<close> and \<open>session_manager.cpp\<close>. Its state extends that of the transport
  it owns, so that the transport's callbacks are functions on the session. A method is one step; the
  session thread's loop body is \<open>session_round\<close>, with the time as an argument. Parameters: libopus
  (\<open>L\<close>), msquic and \<open>malloc\<close> (\<open>Q\<close>), and the host's callback for subscribe parameters (\<open>P\<close>). Log output
  is left out. Definitions only.
\<close>

section \<open>State\<close>

text \<open>
  \<open>ss_transport\<close> says whether \<open>transport_\<close> is set, \<open>ss_session_thread\<close> whether there is a thread object.
  The last three fields are bookkeeping: the calls of the status callback, the calls of the data
  callback, and the next track address.
\<close>

record 'h Session = Transport +
  ss_config :: SessionConfig
  ss_tracks :: "'h TrackHandle list"
  ss_name_map :: "bytes \<rightharpoonup> nat"
  ss_state :: ConnectionState
  ss_transport :: bool
  ss_session_thread :: bool
  ss_session_running :: bool
  ss_next_request_id :: u64
  ss_next_track_alias :: u64
  ss_request_id_map :: "u64 \<rightharpoonup> nat"
  ss_inbound_alias_map :: "u64 \<rightharpoonup> nat"
  ss_outbound_alias_map :: "u64 \<rightharpoonup> nat"
  ss_orchestration_started :: bool
  ss_first_subscribe_sent :: bool
  ss_manual_disconnect :: bool
  ss_reconnecting :: bool
  ss_reconnect_attempt :: u32
  ss_total_reconnect_count :: u32
  ss_reconnect_deadline :: nat
  ss_parsed_host :: bytes
  ss_parsed_port :: u16
  ss_status :: "(ConnectionState \<times> string option) list"
  ss_data_received :: "(nat \<times> bytes) list"
  ss_next_ptr :: nat

definition new_SessionManager :: "'h Session" where
  "new_SessionManager = Transport.extend new_MoqTransport
     (Session.fields default_SessionConfig [] Map.empty CS_Disconnected False False False 0 1 Map.empty Map.empty
        Map.empty False False False False 0 0 0 [] 443 [] [] 0)"

text \<open>A pointer to a track is followed: the track must still exist.\<close>

definition deref :: "nat \<Rightarrow> 'h Session \<Rightarrow> 'h TrackHandle outcome" where
  "deref p s = (case find (\<lambda>t. th_ptr t = p) (ss_tracks s) of Some t \<Rightarrow> Done t | None \<Rightarrow> Crash UseAfterFree)"

definition update_track :: "nat \<Rightarrow> ('h TrackHandle \<Rightarrow> 'h TrackHandle) \<Rightarrow> 'h Session \<Rightarrow> 'h Session" where
  "update_track p f s = s\<lparr>ss_tracks := map (\<lambda>t. if th_ptr t = p then f t else t) (ss_tracks s)\<rparr>"

definition notify :: "ConnectionState \<Rightarrow> string option \<Rightarrow> 'h Session \<Rightarrow> 'h Session" where
  "notify cs message s =
     (if sc_status_callback (ss_config s) then s\<lparr>ss_status := ss_status s @ [(cs, message)]\<rparr> else s)"

section \<open>configure, get\_track, update\_jwt\<close>

definition add_track :: "'h opus_lib \<Rightarrow> TrackConfig \<Rightarrow> 'h Session \<Rightarrow> 'h Session outcome" where
  "add_track L tc s =
     and_then (make_track L (ss_config s) (ss_next_ptr s) tc) (\<lambda>h.
       Done (s\<lparr>ss_name_map := (ss_name_map s)(cfg_name tc \<mapsto> th_ptr h), ss_tracks := ss_tracks s @ [h],
               ss_next_ptr := ss_next_ptr s + 1\<rparr>))"

fun add_tracks :: "'h opus_lib \<Rightarrow> TrackConfig list \<Rightarrow> 'h Session \<Rightarrow> 'h Session outcome" where
  "add_tracks L [] s = Done s"
| "add_tracks L (tc # tcs) s = and_then (add_track L tc s) (add_tracks L tcs)"

definition configure :: "'h opus_lib \<Rightarrow> SessionConfig \<Rightarrow> 'h Session \<Rightarrow> 'h Session outcome" where
  "configure L config s =
     add_tracks L (sc_tracks config)
       (s\<lparr>ss_tracks := [], ss_name_map := Map.empty, ss_config := config, ss_state := CS_Disconnected\<rparr>)"

definition get_track :: "bytes \<Rightarrow> 'h Session \<Rightarrow> nat option" where
  "get_track name s = ss_name_map s name"

definition update_jwt :: "bytes \<Rightarrow> 'h Session \<Rightarrow> 'h Session" where
  "update_jwt jwt s = s\<lparr>ss_config := (ss_config s)\<lparr>sc_jwt := jwt\<rparr>\<rparr>"

section \<open>State changes of the transport\<close>

text \<open>\<open>reconnect_delay\<close> is the loop over the attempts so far.\<close>

fun reconnect_delay :: "nat \<Rightarrow> u32 \<Rightarrow> u32 \<Rightarrow> u32" where
  "reconnect_delay 0 delay max_delay = delay"
| "reconnect_delay (Suc n) delay max_delay =
     (let delay = delay * 2 in if delay \<ge> max_delay then max_delay else reconnect_delay n delay max_delay)"

definition calculate_reconnect_delay_ms :: "'h Session \<Rightarrow> u32" where
  "calculate_reconnect_delay_ms s =
     reconnect_delay (unat (ss_reconnect_attempt s)) (sc_reconnect_base_delay_ms (ss_config s))
       (sc_reconnect_max_delay_ms (ss_config s))"

text \<open>While reconnecting, only success and failure are acted on.\<close>

definition reconnecting_state_change :: "nat \<Rightarrow> TransportState \<Rightarrow> 'h Session \<Rightarrow> 'h Session" where
  "reconnecting_state_change now ts s =
     (case ts of
        TS_Ready \<Rightarrow>
          notify CS_Connected (Some ''Reconnected'')
            (s\<lparr>ss_reconnecting := False, ss_reconnect_attempt := 0, ss_state := CS_Connected\<rparr>)
      | TS_Failed \<Rightarrow>
          if ss_reconnect_attempt s < sc_max_reconnect_attempts (ss_config s) then
            s\<lparr>ss_reconnect_deadline := now + unat (calculate_reconnect_delay_ms s)\<rparr>
          else
            notify CS_Failed (Some ''Reconnection failed'') (s\<lparr>ss_reconnecting := False, ss_state := CS_Failed\<rparr>)
      | _ \<Rightarrow> s)"

definition handle_transport_state_change :: "nat \<Rightarrow> TransportState \<Rightarrow> string \<Rightarrow> 'h Session \<Rightarrow> 'h Session" where
  "handle_transport_state_change now ts message s =
     (if ss_reconnecting s then reconnecting_state_change now ts s
      else
        case ts of
          TS_Disconnected \<Rightarrow> notify CS_Disconnected (Some message) (s\<lparr>ss_state := CS_Disconnected\<rparr>)
        | TS_Connecting \<Rightarrow> notify CS_Connecting (Some message) (s\<lparr>ss_state := CS_Connecting\<rparr>)
        | TS_Connected \<Rightarrow> notify CS_Connecting (Some message) (s\<lparr>ss_state := CS_Connecting\<rparr>)
        | TS_Ready \<Rightarrow> notify CS_Connected (Some message) (s\<lparr>ss_reconnect_attempt := 0, ss_state := CS_Connected\<rparr>)
        | TS_Failed \<Rightarrow>
            if sc_max_reconnect_attempts (ss_config s) > 0 \<and> \<not> ss_manual_disconnect s then
              (notify CS_Reconnecting (Some message)
                 (s\<lparr>ss_reconnecting := True, ss_reconnect_attempt := 0, ss_state := CS_Reconnecting\<rparr>))
              \<lparr>ss_reconnect_deadline := now\<rparr>
            else notify CS_Failed (Some message) (s\<lparr>ss_state := CS_Failed\<rparr>))"

end
