(* ===== verification/Orchestration.thy ===== *)
theory Orchestration
  imports Session
begin

text \<open>
  The MOQ side of \<open>SessionManager\<close>: subscribing to the inbound and announcing the outbound tracks, the
  reactions to the server's control messages, and the datagrams of inbound tracks. These are the
  session's callbacks for the transport (\<open>session_handler\<close>). Definitions only.
\<close>

section \<open>Orchestration\<close>

definition reset_track :: "'h TrackHandle \<Rightarrow> 'h TrackHandle" where
  "reset_track t = t\<lparr>th_moq_track_alias := 0, th_moq_request_id := 0, th_next_object_id := 0, th_next_group_id := 0\<rparr>"

definition reset_moq_state :: "'h Session \<Rightarrow> 'h Session" where
  "reset_moq_state s =
     s\<lparr>ss_request_id_map := Map.empty, ss_inbound_alias_map := Map.empty, ss_outbound_alias_map := Map.empty,
       ss_next_request_id := 0, ss_next_track_alias := 1, ss_orchestration_started := False,
       ss_first_subscribe_sent := False, ss_tracks := map reset_track (ss_tracks s)\<rparr>"

text \<open>\<open>transport_->send_control\<close> of a built message.\<close>

definition send_framed :: "environment \<Rightarrow> bytes \<Rightarrow> 'h Session \<Rightarrow> 'h Session outcome" where
  "send_framed Q framed s =
     (if \<not> ss_transport s then Crash NullPointer
      else and_then (send_control Q framed (of_nat (length framed)) s) (\<lambda>(ok, s). Done s))"

definition assign_request_id :: "nat \<Rightarrow> 'h Session \<Rightarrow> 'h Session" where
  "assign_request_id p s =
     (let request_id = ss_next_request_id s in
      (update_track p (\<lambda>t. t\<lparr>th_moq_request_id := request_id\<rparr>) s)
      \<lparr>ss_request_id_map := (ss_request_id_map s)(request_id \<mapsto> p), ss_next_request_id := request_id + 2\<rparr>)"

text \<open>The parameters the host gives: key and bytes.\<close>

definition host_param :: "SubscribeParam \<Rightarrow> KvpParam" where
  "host_param sp = bytes_param (sp_key sp) (sp_value sp)"

text \<open>The token goes with the first SUBSCRIBE only.\<close>

definition attaches_jwt :: "'h Session \<Rightarrow> bool" where
  "attaches_jwt s \<longleftrightarrow> \<not> ss_first_subscribe_sent s \<and> sc_jwt (ss_config s) \<noteq> []"

definition subscribe_config :: "(nat \<Rightarrow> SubscribeParam list) \<Rightarrow> 'h TrackHandle \<Rightarrow> 'h Session \<Rightarrow> SubscribeConfig" where
  "subscribe_config P t s =
     default_SubscribeConfig
     \<lparr>subc_request_id := ss_next_request_id s, subc_track_namespace := cfg_moq_namespace (th_config t),
      subc_track_name := cfg_moq_track_name (th_config t), subc_filter_type := kFilterLatestGroup,
      subc_forward := 1, subc_group_order := 1,
      subc_authorization := (if attaches_jwt s then sc_jwt (ss_config s) else []),
      subc_extra_params :=
        (if sc_subscribe_params_callback (ss_config s) then map host_param (P (th_ptr t)) else [])\<rparr>"

definition subscribe_track :: "environment \<Rightarrow> (nat \<Rightarrow> SubscribeParam list) \<Rightarrow> nat \<Rightarrow> 'h Session \<Rightarrow> 'h Session outcome" where
  "subscribe_track Q P p s =
     and_then (deref p s) (\<lambda>t.
       if cfg_direction (th_config t) = Inbound then
         let sub = subscribe_config P t s;
             s = (if attaches_jwt s then s\<lparr>ss_first_subscribe_sent := True\<rparr> else s) in
         send_framed Q (build_subscribe sub) (assign_request_id p s)
       else Done s)"

fun subscribe_tracks :: "environment \<Rightarrow> (nat \<Rightarrow> SubscribeParam list) \<Rightarrow> nat list \<Rightarrow> 'h Session \<Rightarrow> 'h Session outcome" where
  "subscribe_tracks Q P [] s = Done s"
| "subscribe_tracks Q P (p # ps) s = and_then (subscribe_track Q P p s) (subscribe_tracks Q P ps)"

definition announce_track :: "environment \<Rightarrow> nat \<Rightarrow> 'h Session \<Rightarrow> 'h Session outcome" where
  "announce_track Q p s =
     and_then (deref p s) (\<lambda>t.
       if cfg_direction (th_config t) = Outbound then
         let ann = \<lparr>annc_request_id = ss_next_request_id s, annc_track_namespace = cfg_moq_namespace (th_config t)\<rparr> in
         send_framed Q (build_announce ann) (assign_request_id p s)
       else Done s)"

fun announce_tracks :: "environment \<Rightarrow> nat list \<Rightarrow> 'h Session \<Rightarrow> 'h Session outcome" where
  "announce_tracks Q [] s = Done s"
| "announce_tracks Q (p # ps) s = and_then (announce_track Q p s) (announce_tracks Q ps)"

definition start_orchestration :: "environment \<Rightarrow> (nat \<Rightarrow> SubscribeParam list) \<Rightarrow> 'h Session \<Rightarrow> 'h Session outcome" where
  "start_orchestration Q P s =
     (let s = s\<lparr>ss_orchestration_started := True\<rparr>; ps = map th_ptr (ss_tracks s) in
      and_then (subscribe_tracks Q P ps s) (announce_tracks Q ps))"

section \<open>Control messages\<close>

text \<open>A message that does not parse is dropped; a parser's fault is the session's.\<close>

definition on_parsed :: "'a outcome \<Rightarrow> 'h Session \<Rightarrow> ('a \<Rightarrow> 'h Session outcome) \<Rightarrow> 'h Session outcome" where
  "on_parsed m s f = (case m of Done r \<Rightarrow> f r | Reject \<Rightarrow> Done s | Crash e \<Rightarrow> Crash e)"

text \<open>The log messages of a request follow the pointer to name the track.\<close>

definition name_request :: "u64 \<Rightarrow> 'h Session \<Rightarrow> 'h Session outcome" where
  "name_request request_id s =
     (case ss_request_id_map s request_id of Some p \<Rightarrow> and_then (deref p s) (\<lambda>t. Done s) | None \<Rightarrow> Done s)"

definition on_subscribe_ok :: "bytes \<Rightarrow> 'h Session \<Rightarrow> 'h Session outcome" where
  "on_subscribe_ok content s =
     on_parsed (parse_subscribe_ok content) s (\<lambda>result.
       case ss_request_id_map s (okr_request_id result) of
         Some p \<Rightarrow>
           and_then (deref p s) (\<lambda>t.
             Done ((update_track p (\<lambda>t. t\<lparr>th_moq_track_alias := okr_track_alias result\<rparr>) s)
               \<lparr>ss_inbound_alias_map := (ss_inbound_alias_map s)(okr_track_alias result \<mapsto> p)\<rparr>))
       | None \<Rightarrow> Done s)"

definition on_subscribe_error :: "bytes \<Rightarrow> 'h Session \<Rightarrow> 'h Session outcome" where
  "on_subscribe_error content s =
     on_parsed (parse_subscribe_error content) s (\<lambda>result. name_request (ser_request_id result) s)"

text \<open>The server subscribes to one of our tracks: the first outbound one with the namespace.\<close>

definition matches_namespace :: "bytes list \<Rightarrow> 'h TrackHandle \<Rightarrow> bool" where
  "matches_namespace ns t \<longleftrightarrow> cfg_direction (th_config t) = Outbound \<and> cfg_moq_namespace (th_config t) = ns"

definition on_subscribe :: "environment \<Rightarrow> bytes \<Rightarrow> 'h Session \<Rightarrow> 'h Session outcome" where
  "on_subscribe Q content s =
     on_parsed (parse_subscribe content) s (\<lambda>result.
       case find (matches_namespace (subr_track_namespace result)) (ss_tracks s) of
         Some t \<Rightarrow>
           (let alias = ss_next_track_alias s;
                s = (update_track (th_ptr t) (\<lambda>t. t\<lparr>th_moq_track_alias := alias\<rparr>) s)
                  \<lparr>ss_next_track_alias := alias + 1,
                   ss_outbound_alias_map := (ss_outbound_alias_map s)(alias \<mapsto> th_ptr t)\<rparr>;
                ok = default_SubscribeOkConfig\<lparr>okc_request_id := subr_request_id result, okc_track_alias := alias\<rparr> in
            send_framed Q (build_subscribe_ok ok) s)
       | None \<Rightarrow> Done s)"

definition on_announce :: "environment \<Rightarrow> bytes \<Rightarrow> 'h Session \<Rightarrow> 'h Session outcome" where
  "on_announce Q content s =
     on_parsed (parse_announce content) s (\<lambda>result. send_framed Q (build_announce_ok (annr_request_id result)) s)"

definition on_announce_ok :: "bytes \<Rightarrow> 'h Session \<Rightarrow> 'h Session outcome" where
  "on_announce_ok content s = on_parsed (parse_announce_ok content) s (\<lambda>request_id. name_request request_id s)"

definition on_subscribe_announces :: "environment \<Rightarrow> bytes \<Rightarrow> 'h Session \<Rightarrow> 'h Session outcome" where
  "on_subscribe_announces Q content s =
     on_parsed (parse_subscribe_announces content) s (\<lambda>result.
       send_framed Q (build_subscribe_announces_ok (sar_request_id result)) s)"

definition handle_control_message :: "environment \<Rightarrow> u64 \<Rightarrow> bytes \<Rightarrow> 'h Session \<Rightarrow> 'h Session outcome" where
  "handle_control_message Q message_type content s =
     (case type_of_code message_type of
        MT_SubscribeOk \<Rightarrow> on_subscribe_ok content s
      | MT_SubscribeError \<Rightarrow> on_subscribe_error content s
      | MT_Subscribe \<Rightarrow> on_subscribe Q content s
      | MT_Announce \<Rightarrow> on_announce Q content s
      | MT_AnnounceOk \<Rightarrow> on_announce_ok content s
      | MT_SubscribeAnnounces \<Rightarrow> on_subscribe_announces Q content s
      | _ \<Rightarrow> Done s)"

section \<open>Datagrams\<close>

definition write_jitter :: "nat \<Rightarrow> u32 \<Rightarrow> 'h Session \<Rightarrow> 'h Session outcome" where
  "write_jitter p frames s =
     and_then (deref p s) (\<lambda>t.
       case th_jitter_buffer t of
         None \<Rightarrow> Crash NullPointer
       | Some jb \<Rightarrow>
           and_then (jb_write (th_decode_buffer t) (frames * cfg_channels (th_config t)) jb) (\<lambda>jb.
             Done (update_track p (\<lambda>t. t\<lparr>th_jitter_buffer := Some jb\<rparr>) s)))"

definition decode_opus :: "'h opus_lib \<Rightarrow> bytes \<Rightarrow> 'h TrackHandle \<Rightarrow> 'h OpusDecoderWrapper
    \<Rightarrow> (int \<times> sample list \<times> 'h OpusDecoderWrapper) outcome" where
  "decode_opus L payload t dec =
     (let channels = cfg_channels (th_config t) in
      if channels = 0 then Crash DivideByZero
      else decoder_decode L payload (of_nat (length payload)) (th_decode_buffer t)
             (of_nat (length (th_decode_buffer t) div unat channels)) dec)"

definition dispatch_audio_datagram :: "'h opus_lib \<Rightarrow> nat \<Rightarrow> bytes \<Rightarrow> 'h Session \<Rightarrow> 'h Session outcome" where
  "dispatch_audio_datagram L p payload s =
     and_then (deref p s) (\<lambda>t.
       if th_jitter_buffer t = None then Done s
       else if payload = [] then Done s
       else if cfg_codec (th_config t) = Codec_Opus then
         (case th_decoder t of
            None \<Rightarrow> Done s
          | Some dec \<Rightarrow>
              and_then (decode_opus L payload t dec) (\<lambda>(frames_decoded, buf, dec).
                let s = update_track p (\<lambda>t. t\<lparr>th_decode_buffer := buf, th_decoder := Some dec\<rparr>) s in
                if frames_decoded > 0 then write_jitter p (word_of_int frames_decoded) s else Done s))
       else
         and_then (pcm_unframe payload (of_nat (length payload)) (th_decode_buffer t) (cfg_channels (th_config t)))
           (\<lambda>(frames_decoded, buf).
             let s = update_track p (\<lambda>t. t\<lparr>th_decode_buffer := buf\<rparr>) s in
             if frames_decoded > 0 then write_jitter p frames_decoded s else Done s))"

definition dispatch_data_datagram :: "nat \<Rightarrow> bytes \<Rightarrow> 'h Session \<Rightarrow> 'h Session outcome" where
  "dispatch_data_datagram p payload s =
     (if payload = [] then Done s
      else if sc_data_recv_callback (ss_config s) then Done (s\<lparr>ss_data_received := ss_data_received s @ [(p, payload)]\<rparr>)
      else Done s)"

definition on_datagram :: "'h opus_lib \<Rightarrow> ObjectDatagram \<Rightarrow> 'h Session \<Rightarrow> 'h Session outcome" where
  "on_datagram L dg s =
     (case ss_inbound_alias_map s (dg_track_alias dg) of
        None \<Rightarrow> Done s
      | Some p \<Rightarrow>
          and_then (deref p s) (\<lambda>t.
            if cfg_type (th_config t) = TT_Audio then dispatch_audio_datagram L p (dg_payload dg) s
            else dispatch_data_datagram p (dg_payload dg) s))"

section \<open>The callbacks\<close>

text \<open>\<open>make_transport_callbacks\<close>: three of the four are set.\<close>

definition session_callbacks :: TransportCallbacks where
  "session_callbacks = \<lparr>cb_on_state_changed = True, cb_on_control_message = True, cb_on_datagram = True,
                        cb_on_datagram_state_changed = False\<rparr>"

definition session_handler :: "'h opus_lib \<Rightarrow> environment \<Rightarrow> nat \<Rightarrow> transport_event \<Rightarrow> 'h Session \<Rightarrow> 'h Session outcome" where
  "session_handler L Q now ev s =
     (case ev of
        StateChanged ts message \<Rightarrow> Done (handle_transport_state_change now ts message s)
      | ControlMessage message_type content \<Rightarrow> handle_control_message Q message_type content s
      | DatagramObject dg \<Rightarrow> on_datagram L dg s
      | DatagramStateChanged n \<Rightarrow> Done s)"

end
