(* ===== verification/SessionThread.thy ===== *)
theory SessionThread
  imports Orchestration
begin

text \<open>
  The life cycle of \<open>SessionManager\<close>: connecting, disconnecting, reconnecting, the audio and data calls
  of the host, and the session thread. The clock is an argument; a call reads it once. The loops that
  drain a ring buffer are \<open>loop_while\<close>, whose value \<open>None\<close> is a loop that never ends. Definitions only.
\<close>

section \<open>The transport object\<close>

text \<open>A new \<open>MoqTransport\<close>: the members start again; the bookkeeping (calls, memory, sends) goes on.\<close>

definition new_transport :: "'h Session \<Rightarrow> 'h Session" where
  "new_transport s =
     s\<lparr>tr_msquic := False, tr_registration := False, tr_configuration := False, tr_connection := False,
       tr_control_stream := False, tr_current_state := TS_Disconnected, tr_max_dgram_size := 0,
       tr_callbacks := no_callbacks, tr_pending_control_data := [], tr_pending_connected := False,
       tr_pending_transport_shutdown := False, tr_pending_peer_shutdown := False, tr_recv_buffer := [],
       tr_disconnecting := False, ss_transport := True\<rparr>"

text \<open>\<open>transport_.reset()\<close>: the destructor disconnects.\<close>

definition destroy_transport :: "'h opus_lib \<Rightarrow> environment \<Rightarrow> nat \<Rightarrow> 'h Session \<Rightarrow> 'h Session outcome" where
  "destroy_transport L Q now s =
     (if ss_transport s then transport_disconnect Q (session_handler L Q now) (s\<lparr>ss_transport := False\<rparr>) else Done s)"

definition tear_down :: "'h opus_lib \<Rightarrow> environment \<Rightarrow> nat \<Rightarrow> 'h Session \<Rightarrow> 'h Session outcome" where
  "tear_down L Q now s =
     (if ss_transport s
      then and_then (transport_disconnect Q (session_handler L Q now) s) (destroy_transport L Q now)
      else Done s)"

definition flush_outbound :: "'h Session \<Rightarrow> 'h Session" where
  "flush_outbound s =
     s\<lparr>ss_tracks := map (\<lambda>t. t\<lparr>th_ring_buffer := map_option rb_flush (th_ring_buffer t)\<rparr>) (ss_tracks s)\<rparr>"

definition transport_config :: "'h Session \<Rightarrow> TransportConfig" where
  "transport_config s =
     \<lparr>tc_host = ss_parsed_host s, tc_port = ss_parsed_port s, tc_skip_cert_validation = True,
      tc_idle_timeout_ms = 30000\<rparr>"

text \<open>A new transport object is made and connected with the session's callbacks.\<close>

definition connect_new :: "'h opus_lib \<Rightarrow> environment \<Rightarrow> nat \<Rightarrow> 'h Session \<Rightarrow> (bool \<times> 'h Session) outcome" where
  "connect_new L Q now s =
     transport_connect Q (session_handler L Q now) (transport_config s) session_callbacks (new_transport s)"

section \<open>attempt\_reconnect, connect, disconnect\<close>

definition attempt_reconnect :: "'h opus_lib \<Rightarrow> environment \<Rightarrow> nat \<Rightarrow> 'h Session \<Rightarrow> 'h Session outcome" where
  "attempt_reconnect L Q now s =
     (let s = s\<lparr>ss_reconnect_attempt := ss_reconnect_attempt s + 1,
                ss_total_reconnect_count := ss_total_reconnect_count s + 1\<rparr> in
      if ss_reconnect_attempt s > sc_max_reconnect_attempts (ss_config s) then
        Done (notify CS_Failed (Some ''Reconnection failed'') (s\<lparr>ss_reconnecting := False, ss_state := CS_Failed\<rparr>))
      else
        and_then (tear_down L Q now s) (\<lambda>s.
        and_then (connect_new L Q now (flush_outbound (reset_moq_state s))) (\<lambda>(ok, s).
          if \<not> ok then
            and_then (destroy_transport L Q now s) (\<lambda>s.
              Done (s\<lparr>ss_reconnect_deadline := now + unat (calculate_reconnect_delay_ms s)\<rparr>))
          else Done s)))"

text \<open>
  A second thread object replaces the first one while its thread runs: \<open>std::terminate\<close>.
\<close>

definition start_session_thread :: "'h Session \<Rightarrow> 'h Session outcome" where
  "start_session_thread s =
     (if ss_session_thread s then Crash Terminated
      else Done (s\<lparr>ss_session_running := True, ss_session_thread := True\<rparr>))"

definition session_connect :: "'h opus_lib \<Rightarrow> environment \<Rightarrow> nat \<Rightarrow> 'h Session \<Rightarrow> 'h Session outcome" where
  "session_connect L Q now s =
     (if ss_state s = CS_Connecting \<or> ss_state s = CS_Connected \<or> ss_state s = CS_Reconnecting then Done s
      else
        and_then (parse_url (sc_server_url (ss_config s)) (ss_parsed_host s) (ss_parsed_port s)) (\<lambda>(ok, host, port).
        let s = s\<lparr>ss_parsed_host := host, ss_parsed_port := port\<rparr> in
        if \<not> ok then Done (notify CS_Failed (Some ''Invalid server URL'') (s\<lparr>ss_state := CS_Failed\<rparr>))
        else
          let s = s\<lparr>ss_manual_disconnect := False, ss_reconnecting := False, ss_reconnect_attempt := 0,
                    ss_total_reconnect_count := 0\<rparr> in
          and_then (destroy_transport L Q now s) (\<lambda>s.
          and_then (connect_new L Q now s) (\<lambda>(ok, s).
            if \<not> ok then destroy_transport L Q now s else start_session_thread s))))"

definition session_disconnect :: "'h opus_lib \<Rightarrow> environment \<Rightarrow> nat \<Rightarrow> 'h Session \<Rightarrow> 'h Session outcome" where
  "session_disconnect L Q now s =
     (if ss_state s = CS_Disconnected \<and> \<not> ss_session_running s \<and> \<not> ss_transport s then Done s
      else
        let s = s\<lparr>ss_manual_disconnect := True, ss_reconnecting := False\<rparr>;
            s = (if ss_session_running s then s\<lparr>ss_session_running := False, ss_session_thread := False\<rparr> else s) in
        and_then (tear_down L Q now s) (\<lambda>s.
          Done (notify CS_Disconnected (Some ''Disconnected'')
            ((flush_outbound (reset_moq_state s))\<lparr>ss_state := CS_Disconnected\<rparr>))))"

section \<open>The host's calls\<close>

text \<open>A track is a pointer that may be null.\<close>

definition write_audio :: "nat option \<Rightarrow> sample list \<Rightarrow> u32 \<Rightarrow> 'h Session \<Rightarrow> 'h Session outcome" where
  "write_audio track samples frame_count s =
     (case track of
        None \<Rightarrow> Done s
      | Some p \<Rightarrow>
          and_then (deref p s) (\<lambda>t.
            case th_ring_buffer t of
              None \<Rightarrow> Done s
            | Some r \<Rightarrow>
                if cfg_type (th_config t) \<noteq> TT_Audio then Done s
                else if cfg_direction (th_config t) \<noteq> Outbound then Done s
                else and_then (rb_write samples frame_count r) (\<lambda>(r, n).
                  Done (update_track p (\<lambda>t. t\<lparr>th_ring_buffer := Some r\<rparr>) s))))"

definition read_audio :: "nat option \<Rightarrow> sample list \<Rightarrow> u32 \<Rightarrow> 'h Session \<Rightarrow> (u32 \<times> sample list \<times> 'h Session) outcome" where
  "read_audio track buffer frame_count s =
     (case track of
        None \<Rightarrow> Done (0, buffer, s)
      | Some p \<Rightarrow>
          and_then (deref p s) (\<lambda>t.
            case th_jitter_buffer t of
              None \<Rightarrow> Done (0, buffer, s)
            | Some jb \<Rightarrow>
                if cfg_type (th_config t) \<noteq> TT_Audio then Done (0, buffer, s)
                else if cfg_direction (th_config t) \<noteq> Inbound then Done (0, buffer, s)
                else and_then (jb_read buffer (frame_count * cfg_channels (th_config t)) jb) (\<lambda>(ok, buffer, jb).
                  Done (if ok then frame_count else 0, buffer,
                        update_track p (\<lambda>t. t\<lparr>th_jitter_buffer := Some jb\<rparr>) s))))"

definition send_data :: "environment \<Rightarrow> nat option \<Rightarrow> bytes option \<Rightarrow> u32 \<Rightarrow> 'h Session \<Rightarrow> 'h Session outcome" where
  "send_data Q track data data_len s =
     (case track of
        None \<Rightarrow> Done s
      | Some p \<Rightarrow>
          if \<not> ss_transport s then Done s
          else
            and_then (deref p s) (\<lambda>t.
              if cfg_type (th_config t) \<noteq> TT_Data then Done s
              else if th_moq_track_alias t = 0 then Done s
              else if ss_state s \<noteq> CS_Connected then Done s
              else
                let s = update_track p (\<lambda>t. t\<lparr>th_next_object_id := th_next_object_id t + 1\<rparr>) s in
                and_then (build_object_datagram (th_moq_track_alias t) (th_next_group_id t) (th_next_object_id t) 128
                    data (sint data_len)) (\<lambda>dg.
                and_then (send_datagram Q dg (of_nat (length dg)) s) (\<lambda>(ok, s). Done s))))"

section \<open>Draining the outbound tracks\<close>

text \<open>The loop condition: a whole frame is buffered.\<close>

definition frame_ready :: "nat \<Rightarrow> u32 \<Rightarrow> 'h Session \<Rightarrow> bool outcome" where
  "frame_ready p frame_size s =
     and_then (deref p s) (\<lambda>t.
       case th_ring_buffer t of
         None \<Rightarrow> Crash NullPointer
       | Some r \<Rightarrow> and_then (rb_read_available r) (\<lambda>n. Done (n \<ge> frame_size)))"

text \<open>The frame moves from the ring to the read buffer.\<close>

definition take_frame :: "nat \<Rightarrow> u32 \<Rightarrow> 'h Session \<Rightarrow> ('h TrackHandle \<times> 'h Session) outcome" where
  "take_frame p frame_size s =
     and_then (deref p s) (\<lambda>t.
       case th_ring_buffer t of
         None \<Rightarrow> Crash NullPointer
       | Some r \<Rightarrow>
           and_then (rb_read frame_size r) (\<lambda>(xs, n, r).
           and_then (mem_write (th_pcm_read_buffer t) 0 xs) (\<lambda>buf.
             let t = t\<lparr>th_ring_buffer := Some r, th_pcm_read_buffer := buf\<rparr> in
             Done (t, update_track p (\<lambda>_. t) s))))"

text \<open>The datagram of \<open>n\<close> bytes of the output buffer: header, payload, send, next object id.\<close>

definition send_frame :: "environment \<Rightarrow> nat \<Rightarrow> nat \<Rightarrow> 'h Session \<Rightarrow> 'h Session outcome" where
  "send_frame Q p n s =
     and_then (deref p s) (\<lambda>t.
     and_then (build_object_datagram_header (th_moq_track_alias t) (th_next_group_id t) (th_next_object_id t) 128
         (th_datagram_buffer t)) (\<lambda>(buf, header_len).
     and_then (mem_read (th_encode_output_buffer t) 0 n) (\<lambda>payload.
     and_then (mem_write buf header_len payload) (\<lambda>buf.
       let s = update_track p (\<lambda>t. t\<lparr>th_datagram_buffer := buf\<rparr>) s in
       if \<not> ss_transport s then Crash NullPointer
       else
         and_then (send_datagram Q buf (of_nat (header_len + n)) s) (\<lambda>(ok, s).
           Done (update_track p (\<lambda>t. t\<lparr>th_next_object_id := th_next_object_id t + 1\<rparr>) s))))))"

definition opus_round :: "'h opus_lib \<Rightarrow> environment \<Rightarrow> nat \<Rightarrow> u32 \<Rightarrow> 'h Session \<Rightarrow> 'h Session outcome" where
  "opus_round L Q p frame_size s =
     and_then (take_frame p frame_size s) (\<lambda>(t, s).
       case th_encoder t of
         None \<Rightarrow> Crash NullPointer
       | Some enc \<Rightarrow>
           and_then (encoder_encode L (th_pcm_read_buffer t) frame_size (th_encode_output_buffer t)
               (of_nat (length (th_encode_output_buffer t))) enc) (\<lambda>(encoded_bytes, out, enc).
             let s = update_track p (\<lambda>t. t\<lparr>th_encode_output_buffer := out, th_encoder := Some enc\<rparr>) s in
             if encoded_bytes \<le> 0 then Done s else send_frame Q p (nat encoded_bytes) s))"

definition send_audio_frame :: "'h opus_lib \<Rightarrow> environment \<Rightarrow> nat \<Rightarrow> 'h Session \<Rightarrow> 'h Session outcome option" where
  "send_audio_frame L Q p s =
     then_maybe (Some (deref p s)) (\<lambda>t.
       case th_encoder t of
         None \<Rightarrow> Some (Done s)
       | Some enc \<Rightarrow>
           if th_ring_buffer t = None then Some (Done s)
           else
             let frame_size = oe_frame_size_samples enc in
             loop_while (frame_ready p frame_size) (opus_round L Q p frame_size) s)"

definition pcm_round :: "environment \<Rightarrow> nat \<Rightarrow> u32 \<Rightarrow> 'h Session \<Rightarrow> 'h Session outcome" where
  "pcm_round Q p frame_size s =
     and_then (take_frame p frame_size s) (\<lambda>(t, s).
     and_then (pcm_frame (th_pcm_read_buffer t) frame_size (cfg_channels (th_config t)) (th_encode_output_buffer t))
       (\<lambda>(payload_bytes, out).
         send_frame Q p (unat payload_bytes) (update_track p (\<lambda>t. t\<lparr>th_encode_output_buffer := out\<rparr>) s)))"

definition send_pcm_frame :: "environment \<Rightarrow> nat \<Rightarrow> 'h Session \<Rightarrow> 'h Session outcome option" where
  "send_pcm_frame Q p s =
     then_maybe (Some (deref p s)) (\<lambda>t.
       if th_ring_buffer t = None then Some (Done s)
       else
         let frame_size = cfg_pcm_frame_size_ms (th_config t) * cfg_sample_rate (th_config t) div 1000 in
         loop_while (frame_ready p frame_size) (pcm_round Q p frame_size) s)"

definition poll_track :: "'h opus_lib \<Rightarrow> environment \<Rightarrow> nat \<Rightarrow> 'h Session \<Rightarrow> 'h Session outcome option" where
  "poll_track L Q p s =
     then_maybe (Some (deref p s)) (\<lambda>t.
       if cfg_direction (th_config t) \<noteq> Outbound then Some (Done s)
       else if cfg_type (th_config t) \<noteq> TT_Audio then Some (Done s)
       else if th_moq_track_alias t = 0 then Some (Done s)
       else if cfg_codec (th_config t) = Codec_Opus then send_audio_frame L Q p s
       else send_pcm_frame Q p s)"

fun poll_tracks :: "'h opus_lib \<Rightarrow> environment \<Rightarrow> nat list \<Rightarrow> 'h Session \<Rightarrow> 'h Session outcome option" where
  "poll_tracks L Q [] s = Some (Done s)"
| "poll_tracks L Q (p # ps) s = then_maybe (poll_track L Q p s) (poll_tracks L Q ps)"

definition poll_outbound_tracks :: "'h opus_lib \<Rightarrow> environment \<Rightarrow> 'h Session \<Rightarrow> 'h Session outcome option" where
  "poll_outbound_tracks L Q s = poll_tracks L Q (map th_ptr (ss_tracks s)) s"

section \<open>The session thread\<close>

text \<open>One round of the loop, without the sleep at its end.\<close>

definition reconnect_due :: "nat \<Rightarrow> 'h Session \<Rightarrow> bool" where
  "reconnect_due now s \<longleftrightarrow> ss_reconnecting s \<and> now \<ge> ss_reconnect_deadline s"

definition orchestrate_if_ready :: "environment \<Rightarrow> (nat \<Rightarrow> SubscribeParam list) \<Rightarrow> 'h Session \<Rightarrow> 'h Session outcome" where
  "orchestrate_if_ready Q P s =
     (if \<not> ss_orchestration_started s \<and> tr_current_state s = TS_Ready then start_orchestration Q P s else Done s)"

definition session_round :: "'h opus_lib \<Rightarrow> environment \<Rightarrow> (nat \<Rightarrow> SubscribeParam list) \<Rightarrow> nat \<Rightarrow> 'h Session
    \<Rightarrow> 'h Session outcome option" where
  "session_round L Q P now s =
     then_maybe (Some (if reconnect_due now s then attempt_reconnect L Q now s else Done s)) (\<lambda>s.
       if ss_transport s then
         then_maybe (Some (process_incoming Q (session_handler L Q now) s)) (\<lambda>s.
         then_maybe (Some (orchestrate_if_ready Q P s)) (\<lambda>s.
           if ss_state s = CS_Connected then poll_outbound_tracks L Q s else Some (Done s)))
       else Some (Done s))"

section \<open>Status\<close>

definition get_connection_state :: "'h Session \<Rightarrow> ConnectionState" where
  "get_connection_state s = ss_state s"

text \<open>The ratio is a floating-point quotient of two integers, passed in as \<open>ratio\<close> (with zero for an empty capacity).\<close>

record 'r BufferStatus =
  bs_buffered_frames :: u32
  bs_capacity_frames :: u32
  bs_fill_ratio :: 'r
  bs_underrun_count :: u64
  bs_overrun_count :: u64

definition no_status :: "(u32 \<Rightarrow> u32 \<Rightarrow> 'r) \<Rightarrow> 'r BufferStatus" where
  "no_status ratio = \<lparr>bs_buffered_frames = 0, bs_capacity_frames = 0, bs_fill_ratio = ratio 0 0,
                      bs_underrun_count = 0, bs_overrun_count = 0\<rparr>"

definition ring_status :: "(u32 \<Rightarrow> u32 \<Rightarrow> 'r) \<Rightarrow> RingBuffer \<Rightarrow> 'r BufferStatus outcome" where
  "ring_status ratio r =
     and_then (rb_read_available r) (\<lambda>avail.
       Done \<lparr>bs_buffered_frames = avail, bs_capacity_frames = rb_capacity_frames r,
             bs_fill_ratio = ratio avail (rb_capacity_frames r), bs_underrun_count = 0, bs_overrun_count = 0\<rparr>)"

definition jitter_status :: "(u32 \<Rightarrow> u32 \<Rightarrow> 'r) \<Rightarrow> u32 \<Rightarrow> JitterBuffer \<Rightarrow> 'r BufferStatus outcome" where
  "jitter_status ratio cap_frames jb =
     and_then (jb_get_stats (\<lambda>_ _. ()) jb) (\<lambda>stats.
       let buffered = (if js_fill_level_samples stats > 0 then word_of_int (js_fill_level_samples stats) else 0) in
       Done \<lparr>bs_buffered_frames = buffered, bs_capacity_frames = cap_frames, bs_fill_ratio = ratio buffered cap_frames,
             bs_underrun_count = ucast (js_underrun_count stats), bs_overrun_count = ucast (js_overrun_count stats)\<rparr>)"

definition get_buffer_status :: "(u32 \<Rightarrow> u32 \<Rightarrow> 'r) \<Rightarrow> nat option \<Rightarrow> 'h Session \<Rightarrow> 'r BufferStatus outcome" where
  "get_buffer_status ratio track s =
     (case track of
        None \<Rightarrow> Done (no_status ratio)
      | Some p \<Rightarrow>
          and_then (deref p s) (\<lambda>t.
            if cfg_type (th_config t) = TT_Audio then
              (case (cfg_direction (th_config t), th_ring_buffer t, th_jitter_buffer t) of
                 (Outbound, Some r, _) \<Rightarrow> ring_status ratio r
               | (Inbound, _, Some jb) \<Rightarrow>
                   jitter_status ratio
                     (cfg_sample_rate (th_config t) * sc_jitter_buffer_max_ms (ss_config s) div 1000) jb
               | _ \<Rightarrow> Done (no_status ratio))
            else Done (no_status ratio)))"

text \<open>The fields of \<open>SessionStats\<close> that are not constant zeros.\<close>

record SessionStats =
  st_state :: ConnectionState
  st_reconnect_count :: u32

definition get_stats :: "'h Session \<Rightarrow> SessionStats" where
  "get_stats s = \<lparr>st_state = ss_state s, st_reconnect_count = ss_total_reconnect_count s\<rparr>"

end
