(* ===== verification/SessionSafety.thy ===== *)
theory SessionSafety
  imports SessionThread Reassembly
begin

text \<open>
  The session as a client of the transport: its callbacks satisfy the contracts \<open>transport_client\<close> and
  \<open>client_state\<close>, so that the transport's invariants hold for every session; every pointer a session
  follows leads to a track, and a track has the buffers and codecs of its kind.
\<close>

section \<open>The callbacks leave the transport alone, except for sends\<close>

lemma truncate_session [simp]:
  "Transport.truncate (s\<lparr>ss_config := a\<rparr>) = Transport.truncate s"
  "Transport.truncate (s\<lparr>ss_tracks := b\<rparr>) = Transport.truncate s"
  "Transport.truncate (s\<lparr>ss_name_map := c\<rparr>) = Transport.truncate s"
  "Transport.truncate (s\<lparr>ss_state := d\<rparr>) = Transport.truncate s"
  "Transport.truncate (s\<lparr>ss_next_request_id := e\<rparr>) = Transport.truncate s"
  "Transport.truncate (s\<lparr>ss_next_track_alias := e\<rparr>) = Transport.truncate s"
  "Transport.truncate (s\<lparr>ss_request_id_map := m\<rparr>) = Transport.truncate s"
  "Transport.truncate (s\<lparr>ss_inbound_alias_map := m\<rparr>) = Transport.truncate s"
  "Transport.truncate (s\<lparr>ss_outbound_alias_map := m\<rparr>) = Transport.truncate s"
  "Transport.truncate (s\<lparr>ss_reconnecting := f\<rparr>) = Transport.truncate s"
  "Transport.truncate (s\<lparr>ss_reconnect_attempt := n\<rparr>) = Transport.truncate s"
  "Transport.truncate (s\<lparr>ss_reconnect_deadline := k\<rparr>) = Transport.truncate s"
  "Transport.truncate (s\<lparr>ss_status := l\<rparr>) = Transport.truncate s"
  "Transport.truncate (s\<lparr>ss_data_received := x\<rparr>) = Transport.truncate s"
  by (simp_all add: Transport.truncate_def)

lemma truncate_update_track [simp]: "Transport.truncate (update_track p f s) = Transport.truncate s"
  by (simp add: update_track_def)

lemma truncate_notify [simp]: "Transport.truncate (notify cs m s) = Transport.truncate s"
  by (simp add: notify_def)

lemma handle_transport_state_change_truncate [simp]:
  "Transport.truncate (handle_transport_state_change now ts m s) = Transport.truncate s"
  by (simp add: handle_transport_state_change_def reconnecting_state_change_def split: TransportState.split)

definition client_kept :: "'h Session \<Rightarrow> 'h Session \<Rightarrow> bool" where
  "client_kept s s' \<longleftrightarrow> frame_kept s s' \<and> mem_ok s' \<and> tr_events s' = tr_events s"

lemma client_kept_truncate:
  "mem_ok s \<Longrightarrow> Transport.truncate s' = Transport.truncate s \<Longrightarrow> client_kept s s'"
  using truncate_eqD [of s' s] by (simp add: client_kept_def)

lemma client_kept_refl: "mem_ok s \<Longrightarrow> client_kept s s"
  by (simp add: client_kept_def)

lemma client_kept_trans: "client_kept s u \<Longrightarrow> client_kept u v \<Longrightarrow> client_kept s v"
  by (auto simp: client_kept_def intro: frame_kept_trans)

lemma unat_of_nat_length_le: "unat (of_nat (length xs) :: u32) \<le> length xs"
  by (simp add: unat_of_nat)

lemma send_framed_kept:
  assumes "mem_ok s" and "Transport.truncate s' = Transport.truncate s"
  shows "allows (send_framed Q framed s') (client_kept s)"
proof -
  have m: "mem_ok s'" and k: "client_kept s s'"
    using assms truncate_eqD [of s' s] client_kept_truncate [of s s'] by simp_all
  have "allows (send_control Q framed (of_nat (length framed)) s') (\<lambda>(ok, u). client_kept s u)"
    by (rule allows_mono [OF yields_allows [OF send_control_yields [OF m unat_of_nat_length_le]]])
      (use k frame_kept_trans [of s s'] in \<open>auto simp: client_kept_def sent_def\<close>)
  then show ?thesis
    by (auto simp: send_framed_def elim: allows_mono)
qed

lemma on_parsed_allows:
  "P s \<Longrightarrow> (\<And>r. m = Done r \<Longrightarrow> allows (f r) P) \<Longrightarrow> allows (on_parsed m s f) P"
  by (cases m) (simp_all add: on_parsed_def)

lemma deref_allows: "(\<And>t. deref p s = Done t \<Longrightarrow> allows (f t) P) \<Longrightarrow> allows (and_then (deref p s) f) P"
  by (cases "deref p s") simp_all

lemma handle_control_message_kept:
  assumes "mem_ok s"
  shows "allows (handle_control_message Q type content s) (client_kept s)"
  using client_kept_refl [OF assms] client_kept_truncate [OF assms] send_framed_kept [OF assms, of _ Q]
  by (auto simp: handle_control_message_def on_subscribe_ok_def on_subscribe_error_def on_subscribe_def on_announce_def
      on_announce_ok_def on_subscribe_announces_def name_request_def Let_def
      split: MessageType.split option.split intro!: on_parsed_allows deref_allows)

lemma write_jitter_truncate: "allows (write_jitter p n s) (\<lambda>s'. Transport.truncate s' = Transport.truncate s)"
  by (auto simp: write_jitter_def allowsI split: option.split)

lemma on_datagram_truncate: "allows (on_datagram L dg s) (\<lambda>s'. Transport.truncate s' = Transport.truncate s)"
proof -
  have w: "allows (write_jitter p n (update_track q f s)) (\<lambda>s'. Transport.truncate s' = Transport.truncate s)" for p n q f
    by (rule allows_mono [OF write_jitter_truncate]) simp
  show ?thesis
    by (auto simp: on_datagram_def dispatch_audio_datagram_def dispatch_data_datagram_def Let_def w
        split: option.split prod.split intro!: deref_allows allowsI dest: allowsD [OF w])
qed

lemma session_handler_kept: "mem_ok s \<Longrightarrow> allows (session_handler L Q now ev s) (client_kept s)"
  by (cases ev) (auto simp: session_handler_def client_kept_truncate client_kept_refl handle_control_message_kept
      intro: allows_mono [OF on_datagram_truncate])

interpretation session: transport_client "session_handler L Q now" for L Q now
  by unfold_locales (rule allowsD [OF session_handler_kept, unfolded client_kept_def])

end
