(* ===== verification/SessionTypes.thy ===== *)
theory SessionTypes
  imports SessionSafety
begin

text \<open>
  The invariant of the session's own state: a track has exactly the buffers and codecs of its kind, with
  the sizes \<open>configure\<close> gave them, and the pointers in the maps are those of tracks. Every operation of
  the session keeps it.
\<close>

section \<open>Buffers keep their sizes\<close>

lemma copy_to_ring_length: "allows (copy_to_ring cap data pos src n) (\<lambda>data'. length data' = length data)"
  by (auto simp: copy_to_ring_def Let_def mem_read_def mem_write_def)

definition rb_typed :: "u32 \<times> u32 \<Rightarrow> RingBuffer \<Rightarrow> bool" where
  "rb_typed shape r \<longleftrightarrow>
     rb_shape r = shape \<and> rb_capacity_floats r = fst shape * snd shape \<and>
     length (rb_data r) = unat (rb_capacity_floats r)"

lemma rb_typed_new: "rb_typed (frames, channels) (new_RingBuffer frames channels)"
  by (simp add: rb_typed_def rb_shape_def new_RingBuffer_def)

lemma rb_typed_flush: "rb_typed shape (rb_flush r) = rb_typed shape r"
  by (simp add: rb_typed_def rb_shape_def rb_flush_def)

lemma rb_typed_make_room: "rb_typed shape r \<Longrightarrow> allows (rb_make_room n r) (rb_typed shape)"
  by (auto simp: rb_make_room_def Let_def rb_typed_def rb_shape_def u32_mod_def)

lemma rb_typed_write: "rb_typed shape r \<Longrightarrow> allows (rb_write xs n r) (\<lambda>(r', k). rb_typed shape r')"
  by (auto simp: rb_write_def Let_def u32_mod_def intro!: allows_mono [OF rb_typed_make_room]
      allows_mono [OF copy_to_ring_length] split: prod.split) (auto simp: rb_typed_def rb_shape_def)

lemma rb_typed_read: "rb_typed shape r \<Longrightarrow> allows (rb_read n r) (\<lambda>(xs, k, r'). rb_typed shape r')"
  by (auto simp: rb_read_def Let_def u32_mod_def u32_div_def rb_typed_def rb_shape_def intro!: allowsI)

definition jb_typed :: "TrackConfig \<Rightarrow> JitterBuffer \<Rightarrow> bool" where
  "jb_typed tc b \<longleftrightarrow>
     jb_num_channels b = cfg_channels tc \<and> jb_sample_rate b = cfg_sample_rate tc \<and>
     length (jb_data b) = unat (jb_capacity b)"

lemma jb_typed_fields [simp]:
  "jb_typed tc (b\<lparr>jb_buffered := a\<rparr>) = jb_typed tc b" "jb_typed tc (b\<lparr>jb_overflow_flag := f\<rparr>) = jb_typed tc b"
  "jb_typed tc (b\<lparr>jb_read_pos := p\<rparr>) = jb_typed tc b" "jb_typed tc (b\<lparr>jb_write_pos := p\<rparr>) = jb_typed tc b"
  "jb_typed tc (b\<lparr>jb_state := st\<rparr>) = jb_typed tc b" "jb_typed tc (b\<lparr>jb_correction_counter := p\<rparr>) = jb_typed tc b"
  "jb_typed tc (b\<lparr>jb_underrun_count := p\<rparr>) = jb_typed tc b" "jb_typed tc (b\<lparr>jb_overrun_count := p\<rparr>) = jb_typed tc b"
  "jb_typed tc (b\<lparr>jb_samples_dropped := p\<rparr>) = jb_typed tc b" "jb_typed tc (b\<lparr>jb_samples_inserted := p\<rparr>) = jb_typed tc b"
  by (simp_all add: jb_typed_def)

lemma jb_typed_data: "jb_typed tc b \<Longrightarrow> length data = length (jb_data b) \<Longrightarrow> jb_typed tc (b\<lparr>jb_data := data\<rparr>)"
  by (simp add: jb_typed_def)

lemma jb_typed_write: "jb_typed tc b \<Longrightarrow> allows (jb_write xs n b) (jb_typed tc)"
  by (auto simp: jb_write_def Let_def u32_mod_def jb_typed_data intro!: allows_mono [OF copy_to_ring_length])

lemma jb_typed_take: "jb_typed tc b \<Longrightarrow> allows (jb_take a c dst b) (\<lambda>(dst', b'). jb_typed tc b')"
  by (auto simp: jb_take_def u32_mod_def intro!: allowsI)

lemma jb_typed_play: "jb_typed tc b \<Longrightarrow> allows (jb_play c n dst b) (\<lambda>(ok, dst', b'). jb_typed tc b')"
  by (auto simp: jb_play_def Let_def intro!: allows_mono [OF jb_typed_take] allows_const
      allowsI [of "i32_add _ _"])

lemma jb_typed_play_from: "jb_typed tc b \<Longrightarrow> allows (jb_play_from b f dst n) (\<lambda>(ok, dst', b'). jb_typed tc b')"
  by (auto simp: jb_play_from_def silence_def jb_correction_def Let_def jb_typed_play intro!: allowsI)

lemma jb_typed_read: "jb_typed tc b \<Longrightarrow> allows (jb_read dst n b) (\<lambda>(ok, dst', b'). jb_typed tc b')"
proof -
  assume t: "jb_typed tc b"
  have snap: "jb_typed tc (jb_overflow_snap b)"
    using t by (simp add: jb_overflow_snap_def Let_def)
  have over: "allows (jb_overrun_snap b') (jb_typed tc)" if "jb_typed tc b'" for b'
    using that by (auto simp: jb_overrun_snap_def Let_def u32_mod_def intro!: allowsI)
  show ?thesis
    using t snap by (auto simp: jb_read_def Let_def silence_def jb_typed_play_from intro!: allowsI [of "i32_div _ _"]
        allows_mono [OF over] allowsI [of "mem_write _ _ _"])
qed

section \<open>Tracks\<close>

definition output_size :: "TrackConfig \<Rightarrow> nat" where
  "output_size tc = (if cfg_codec tc = Codec_Opus then 512 else unat (frame_size_of tc * cfg_channels tc) * 4)"

definition sending_track :: "'h TrackHandle \<Rightarrow> bool" where
  "sending_track t \<longleftrightarrow>
     (let tc = th_config t in
      (\<exists>r. th_ring_buffer t = Some r
         \<and> rb_typed (cfg_sample_rate tc * RING_BUFFER_MS div 1000, cfg_channels tc) r) \<and>
      th_jitter_buffer t = None \<and> th_decoder t = None \<and> (th_encoder t \<noteq> None \<longleftrightarrow> cfg_codec tc = Codec_Opus) \<and>
      length (th_pcm_read_buffer t) = unat (frame_size_of tc * cfg_channels tc) \<and>
      length (th_encode_output_buffer t) = output_size tc \<and> length (th_datagram_buffer t) = 34 + output_size tc)"

definition receiving_track :: "'h TrackHandle \<Rightarrow> bool" where
  "receiving_track t \<longleftrightarrow>
     (let tc = th_config t in
      (\<exists>b. th_jitter_buffer t = Some b \<and> jb_typed tc b) \<and>
      th_ring_buffer t = None \<and> th_encoder t = None \<and> (th_decoder t \<noteq> None \<longleftrightarrow> cfg_codec tc = Codec_Opus) \<and>
      length (th_decode_buffer t) = unat (960 * cfg_channels tc))"

definition track_typed :: "'h TrackHandle \<Rightarrow> bool" where
  "track_typed t \<longleftrightarrow>
     (if cfg_type (th_config t) = TT_Audio then
        if cfg_direction (th_config t) = Outbound then sending_track t else receiving_track t
      else th_ring_buffer t = None \<and> th_jitter_buffer t = None \<and> th_encoder t = None \<and> th_decoder t = None)"

lemmas track_typed_defs = track_typed_def sending_track_def receiving_track_def Let_def

lemma make_outbound_audio_typed: "sending_track (make_outbound_audio L tc (new_TrackHandle ptr tc))"
  by (simp add: sending_track_def make_outbound_audio_def new_TrackHandle_def Let_def rb_typed_new output_size_def)

lemma make_inbound_audio_typed:
  "allows (make_inbound_audio L config tc (new_TrackHandle ptr tc)) (\<lambda>t. receiving_track t \<and> th_ptr t = ptr \<and> th_config t = tc)"
  by (auto simp: receiving_track_def make_inbound_audio_def new_TrackHandle_def Let_def jb_typed_def new_JitterBuffer_def
      default_JitterBufferConfig_def intro!: allowsI [of "decoder_init _ _ _"])

lemma make_track_typed: "allows (make_track L config ptr tc) (\<lambda>t. track_typed t \<and> th_ptr t = ptr)"
proof -
  let ?h = "new_TrackHandle ptr tc :: 'a TrackHandle"
  have "th_config (make_outbound_audio L tc ?h) = tc" "th_ptr (make_outbound_audio L tc ?h) = ptr"
    by (simp_all add: make_outbound_audio_def new_TrackHandle_def Let_def)
  then show ?thesis
    using make_outbound_audio_typed [of L tc ptr] allows_mono [OF make_inbound_audio_typed [of L config tc ptr]]
    by (auto simp: make_track_def track_typed_def Let_def new_TrackHandle_def)
qed

text \<open>Updates that keep a track's type.\<close>

lemma track_typed_numbers [simp]:
  "track_typed (t\<lparr>th_moq_track_alias := a\<rparr>) = track_typed t" "track_typed (t\<lparr>th_moq_request_id := a\<rparr>) = track_typed t"
  "track_typed (t\<lparr>th_next_object_id := a\<rparr>) = track_typed t" "track_typed (t\<lparr>th_next_group_id := a\<rparr>) = track_typed t"
  by (simp_all add: track_typed_defs)

section \<open>The session\<close>

definition track_ptrs :: "'h Session \<Rightarrow> nat list" where
  "track_ptrs s = map th_ptr (ss_tracks s)"

text \<open>
  The pointers in the maps that are followed are those of tracks, and every track is typed. (The map of
  outbound aliases is written and never read.)
\<close>

definition session_typed :: "'h Session \<Rightarrow> bool" where
  "session_typed s \<longleftrightarrow>
     distinct (track_ptrs s) \<and> (\<forall>p\<in>set (track_ptrs s). p < ss_next_ptr s) \<and>
     ran (ss_request_id_map s) \<subseteq> set (track_ptrs s) \<and> ran (ss_inbound_alias_map s) \<subseteq> set (track_ptrs s) \<and>
     ran (ss_name_map s) \<subseteq> set (track_ptrs s) \<and> (\<forall>t\<in>set (ss_tracks s). track_typed t)"

text \<open>
  What the callbacks keep: the typing, whether there is a transport (\<open>b\<close>) and a running thread (\<open>r\<close>), and,
  if \<open>e\<close>, that no request is known.
\<close>

definition session_like :: "bool \<Rightarrow> bool \<Rightarrow> bool \<Rightarrow> 'h Session \<Rightarrow> bool" where
  "session_like b r e s \<longleftrightarrow>
     session_typed s \<and> ss_transport s = b \<and> ss_session_running s = r \<and> ss_session_thread s = r \<and>
     (e \<longrightarrow> ss_request_id_map s = Map.empty \<and> ss_inbound_alias_map s = Map.empty)"

lemma same_client_session:
  assumes "same_client s s'"
  shows "ss_tracks s' = ss_tracks s" "ss_next_ptr s' = ss_next_ptr s" "ss_request_id_map s' = ss_request_id_map s"
    "ss_inbound_alias_map s' = ss_inbound_alias_map s" "ss_name_map s' = ss_name_map s" "ss_transport s' = ss_transport s"
    "ss_session_running s' = ss_session_running s" "ss_session_thread s' = ss_session_thread s"
    "ss_config s' = ss_config s" "ss_state s' = ss_state s" "ss_reconnecting s' = ss_reconnecting s"
    "ss_next_request_id s' = ss_next_request_id s" "ss_first_subscribe_sent s' = ss_first_subscribe_sent s"
    "ss_reconnect_attempt s' = ss_reconnect_attempt s" "ss_status s' = ss_status s"
  using assms by (cases s; cases s'; simp add: same_client_def)+

lemma session_like_client: "same_client s s' \<Longrightarrow> session_like b r e s \<Longrightarrow> session_like b r e s'"
  by (simp add: session_like_def session_typed_def track_ptrs_def same_client_session)

lemma session_like_fields [simp]:
  "session_like b r e (s\<lparr>ss_config := a\<rparr>) = session_like b r e s"
  "session_like b r e (s\<lparr>ss_state := d\<rparr>) = session_like b r e s"
  "session_like b r e (s\<lparr>ss_next_request_id := n\<rparr>) = session_like b r e s"
  "session_like b r e (s\<lparr>ss_next_track_alias := n\<rparr>) = session_like b r e s"
  "session_like b r e (s\<lparr>ss_outbound_alias_map := m\<rparr>) = session_like b r e s"
  "session_like b r e (s\<lparr>ss_orchestration_started := f\<rparr>) = session_like b r e s"
  "session_like b r e (s\<lparr>ss_first_subscribe_sent := f\<rparr>) = session_like b r e s"
  "session_like b r e (s\<lparr>ss_manual_disconnect := f\<rparr>) = session_like b r e s"
  "session_like b r e (s\<lparr>ss_reconnecting := f\<rparr>) = session_like b r e s"
  "session_like b r e (s\<lparr>ss_reconnect_attempt := k\<rparr>) = session_like b r e s"
  "session_like b r e (s\<lparr>ss_total_reconnect_count := k\<rparr>) = session_like b r e s"
  "session_like b r e (s\<lparr>ss_reconnect_deadline := l\<rparr>) = session_like b r e s"
  "session_like b r e (s\<lparr>ss_parsed_host := h\<rparr>) = session_like b r e s"
  "session_like b r e (s\<lparr>ss_parsed_port := o'\<rparr>) = session_like b r e s"
  "session_like b r e (s\<lparr>ss_status := st\<rparr>) = session_like b r e s"
  "session_like b r e (s\<lparr>ss_data_received := x\<rparr>) = session_like b r e s"
  by (simp_all add: session_like_def session_typed_def track_ptrs_def)

lemma deref_Done: "deref p s = Done t \<Longrightarrow> t \<in> set (ss_tracks s) \<and> th_ptr t = p"
  by (auto simp: deref_def find_Some_iff split: option.splits)

lemma deref_exists: "p \<in> set (track_ptrs s) \<Longrightarrow> \<exists>t. deref p s = Done t"
  by (cases "find (\<lambda>t. th_ptr t = p) (ss_tracks s)") (auto simp: deref_def track_ptrs_def find_None_iff)

lemma session_like_deref: "session_like b r e s \<Longrightarrow> deref p s = Done t \<Longrightarrow> track_typed t"
  using deref_Done by (fastforce simp: session_like_def session_typed_def)

lemma find_map_ptr:
  "find (\<lambda>t. th_ptr t = p) ts = Some t \<Longrightarrow> th_ptr (f t) = p \<Longrightarrow>
     find (\<lambda>t. th_ptr t = p) (map (\<lambda>t. if th_ptr t = p then f t else t) ts) = Some (f t)"
  by (induction ts) (auto split: if_splits)

lemma deref_update: "deref p s = Done t \<Longrightarrow> th_ptr (f t) = p \<Longrightarrow> deref p (update_track p f s) = Done (f t)"
  by (auto simp: deref_def update_track_def find_map_ptr split: option.splits)

lemma deref_client: "same_client s s' \<Longrightarrow> deref p s' = deref p s"
  by (simp add: deref_def same_client_session)

lemma session_like_update:
  assumes "session_like b r e s" and "deref p s = Done t" and "th_ptr (f t) = p" and "track_typed (f t)"
  shows "session_like b r e (update_track p f s)"
proof -
  have d: "distinct (map th_ptr (ss_tracks s))" and ty: "\<forall>t\<in>set (ss_tracks s). track_typed t"
    using assms(1) by (simp_all add: session_like_def session_typed_def track_ptrs_def)
  have t: "t \<in> set (ss_tracks s)" "th_ptr t = p"
    using deref_Done [OF assms(2)] by simp_all
  have u: "u = t" if "u \<in> set (ss_tracks s)" "th_ptr u = p" for u
    using that t d by (auto simp: distinct_map dest: inj_onD)
  have "map th_ptr (map (\<lambda>t. if th_ptr t = p then f t else t) (ss_tracks s)) = map th_ptr (ss_tracks s)"
    using u assms(3) by auto
  then have "track_ptrs (update_track p f s) = track_ptrs s"
    by (simp add: track_ptrs_def update_track_def)
  moreover have "\<forall>t\<in>set (ss_tracks (update_track p f s)). track_typed t"
    using ty u assms(4) by (auto simp: update_track_def)
  ultimately show ?thesis
    using assms(1) by (simp add: session_like_def session_typed_def) (simp add: update_track_def)
qed

lemma session_like_notify: "session_like b r e (notify cs m s) = session_like b r e s"
  by (simp add: notify_def)

section \<open>The callbacks keep it\<close>

lemma handle_transport_state_change_like:
  "session_like b r e (handle_transport_state_change now ts m s) = session_like b r e s"
  by (simp add: handle_transport_state_change_def reconnecting_state_change_def session_like_notify split: TransportState.split)

lemma send_framed_like: "session_like b r e s \<Longrightarrow> allows (send_framed Q framed s) (session_like b r e)"
  by (auto simp: send_framed_def intro!: allows_mono [OF send_control_same_client] dest: session_like_client)

lemma session_like_update_numbers:
  assumes "session_like b r e s" and "deref p s = Done t"
  shows "session_like b r e (update_track p (\<lambda>t. t\<lparr>th_moq_track_alias := a\<rparr>) s)"
    and "session_like b r e (update_track p (\<lambda>t. t\<lparr>th_moq_request_id := a\<rparr>) s)"
    and "session_like b r e (update_track p (\<lambda>t. t\<lparr>th_next_object_id := th_next_object_id t + 1\<rparr>) s)"
  using session_like_deref [OF assms] deref_Done [OF assms(2)]
  by (simp_all add: session_like_update [OF assms])

lemma session_like_inbound:
  "session_like b r e s \<Longrightarrow> ss_request_id_map s k = Some p \<Longrightarrow>
     session_like b r e (s\<lparr>ss_inbound_alias_map := (ss_inbound_alias_map s)(a \<mapsto> p)\<rparr>)"
  by (auto simp: session_like_def session_typed_def track_ptrs_def ran_def split: if_splits)

lemma handle_control_message_like:
  assumes "session_like b r e s"
  shows "allows (handle_control_message Q type content s) (session_like b r e)"
proof -
  have ok: "allows (on_subscribe_ok c s) (session_like b r e)" for c
  proof -
    have "session_like b r e ((update_track p (\<lambda>t. t\<lparr>th_moq_track_alias := a\<rparr>) s)
        \<lparr>ss_inbound_alias_map := (ss_inbound_alias_map s)(a \<mapsto> p)\<rparr>)"
      if "ss_request_id_map s k = Some p" "deref p s = Done t" for k p t a
      using session_like_inbound [OF session_like_update_numbers(1) [OF assms that(2), of a], of k p a] that(1)
      by (simp add: update_track_def)
    then show ?thesis
      using assms by (auto simp: on_subscribe_ok_def intro!: on_parsed_allows allowsI [of "deref _ _"] split: option.split)
  qed
  have sub: "session_like b r e (update_track (th_ptr t) (\<lambda>t. t\<lparr>th_moq_track_alias := a\<rparr>) s)"
    if "find P (ss_tracks s) = Some t" for P t a
  proof -
    have "th_ptr t \<in> set (track_ptrs s)"
      using that by (auto simp: track_ptrs_def find_Some_iff)
    then show ?thesis
      using deref_exists session_like_update_numbers(1) [OF assms] by blast
  qed
  show ?thesis
    using assms ok sub
    by (auto simp: handle_control_message_def on_subscribe_error_def on_subscribe_def on_announce_def
      on_announce_ok_def on_subscribe_announces_def name_request_def Let_def
      split: MessageType.split option.split intro!: on_parsed_allows deref_allows send_framed_like allows_const)
qed

lemma mem_write_keeps_length: "allows (mem_write blk off xs) (\<lambda>blk'. length blk' = length blk)"
  by (rule allowsI) (rule mem_write_length)

lemma decoder_run_length: "allows (decoder_run L packet n pcm frames w) (\<lambda>(k, pcm', w'). length pcm' = length pcm)"
  by (auto simp: decoder_run_def split: option.split prod.split intro!: allows_mono [OF mem_write_keeps_length])

lemma decode_opus_length: "allows (decode_opus L payload t dec) (\<lambda>(k, buf, dec'). length buf = length (th_decode_buffer t))"
  by (auto simp: decode_opus_def decoder_decode_def Let_def decoder_run_length intro!: allowsI [of "mem_read _ _ _"]
      dest: allowsD [OF decoder_run_length])

lemma pcm_unframe_length: "allows (pcm_unframe data n pcm ch) (\<lambda>(k, pcm'). length pcm' = length pcm)"
  by (auto simp: pcm_unframe_def Let_def intro!: allows_mono [OF mem_write_keeps_length] allowsI [of "mem_read _ _ _"]
      allowsI [of "u32_mod _ _"] allows_const)

text \<open>Updates that keep a track of its kind typed.\<close>

lemma track_typed_jitter:
  "track_typed t \<Longrightarrow> th_jitter_buffer t = Some jb \<Longrightarrow> jb_typed (th_config t) jb \<Longrightarrow> jb_typed (th_config t) jb' \<Longrightarrow>
     track_typed (t\<lparr>th_jitter_buffer := Some jb'\<rparr>)"
  by (auto simp: track_typed_defs split: if_splits)

lemma track_typed_jitterD: "track_typed t \<Longrightarrow> th_jitter_buffer t = Some jb \<Longrightarrow> jb_typed (th_config t) jb"
  by (auto simp: track_typed_defs split: if_splits)

lemma track_typed_decode:
  "track_typed t \<Longrightarrow> length buf = length (th_decode_buffer t) \<Longrightarrow> track_typed (t\<lparr>th_decode_buffer := buf\<rparr>)"
  by (auto simp: track_typed_defs split: if_splits)

lemma track_typed_decoder:
  "track_typed t \<Longrightarrow> th_decoder t = Some d \<Longrightarrow> track_typed (t\<lparr>th_decoder := Some d'\<rparr>)"
  by (auto simp: track_typed_defs split: if_splits)

lemma write_jitter_like:
  assumes "session_like b r e s"
  shows "allows (write_jitter p n s) (session_like b r e)"
  unfolding write_jitter_def
proof (rule deref_allows)
  fix t
  assume t: "deref p s = Done t"
  note ty = session_like_deref [OF assms t]
  have "session_like b r e (update_track p (\<lambda>t. t\<lparr>th_jitter_buffer := Some jb'\<rparr>) s)"
    if "th_jitter_buffer t = Some jb" "jb_typed (th_config t) jb'" for jb jb'
    using track_typed_jitter [OF ty that(1) track_typed_jitterD [OF ty that(1)] that(2)] deref_Done [OF t]
    by (intro session_like_update [OF assms t]) simp_all
  then show "allows (case th_jitter_buffer t of None \<Rightarrow> Crash NullPointer
      | Some jb \<Rightarrow> and_then (jb_write (th_decode_buffer t) (n * cfg_channels (th_config t)) jb)
          (\<lambda>jb. Done (update_track p (\<lambda>t. t\<lparr>th_jitter_buffer := Some jb\<rparr>) s))) (session_like b r e)"
    by (auto split: option.split intro!: allows_mono [OF jb_typed_write [OF track_typed_jitterD [OF ty]]])
qed

lemma dispatch_audio_datagram_like:
  assumes "session_like b r e s"
  shows "allows (dispatch_audio_datagram L p payload s) (session_like b r e)"
  unfolding dispatch_audio_datagram_def
proof (rule deref_allows)
  fix t
  assume t: "deref p s = Done t"
  note ty = session_like_deref [OF assms t] and ptr = deref_Done [OF t, THEN conjunct2]
  have opus: "session_like b r e (update_track p (\<lambda>t. t\<lparr>th_decode_buffer := buf, th_decoder := Some d'\<rparr>) s)"
    if "th_decoder t = Some d" "length buf = length (th_decode_buffer t)" for d d' buf
    using track_typed_decoder [OF track_typed_decode [OF ty that(2)], of d d'] that(1) ptr
    by (intro session_like_update [OF assms t]) simp_all
  have pcm: "session_like b r e (update_track p (\<lambda>t. t\<lparr>th_decode_buffer := buf\<rparr>) s)"
    if "length buf = length (th_decode_buffer t)" for buf
    using track_typed_decode [OF ty that] ptr by (intro session_like_update [OF assms t]) simp_all
  show "allows (if th_jitter_buffer t = None then Done s
       else if payload = [] then Done s
       else if cfg_codec (th_config t) = Codec_Opus then
         (case th_decoder t of
            None \<Rightarrow> Done s
          | Some dec \<Rightarrow>
              and_then (decode_opus L payload t dec) (\<lambda>(frames_decoded, buf, dec).
                let s = update_track p (\<lambda>t. t\<lparr>th_decode_buffer := buf, th_decoder := Some dec\<rparr>) s in
                if frames_decoded > 0 then write_jitter p (word_of_int frames_decoded) s else Done s))
       else
         and_then (pcm_unframe payload (of_nat (length payload)) (th_decode_buffer t) (cfg_channels (th_config t)))
           (\<lambda>(frames_decoded, buf).
             let s = update_track p (\<lambda>t. t\<lparr>th_decode_buffer := buf\<rparr>) s in
             if frames_decoded > 0 then write_jitter p frames_decoded s else Done s)) (session_like b r e)"
    using assms
    by (auto simp: Let_def split: option.split prod.split intro!: allows_mono [OF decode_opus_length]
        allows_mono [OF pcm_unframe_length] write_jitter_like opus pcm)
qed

lemma on_datagram_like: "session_like b r e s \<Longrightarrow> allows (on_datagram L dg s) (session_like b r e)"
  by (auto simp: on_datagram_def dispatch_data_datagram_def dispatch_audio_datagram_like split: option.split
      intro!: deref_allows)

lemma session_handler_like: "session_like b r e s \<Longrightarrow> allows (session_handler L Q now ev s) (session_like b r e)"
  by (cases ev) (simp_all add: session_handler_def handle_transport_state_change_like handle_control_message_like on_datagram_like)

interpretation session: client_state "session_handler L Q now" "session_like b r e" for L Q now b r e
  by unfold_locales (erule (1) session_like_client, erule (1) allowsD [OF session_handler_like])

end
