(* ===== verification/SessionInvariant.thy ===== *)
theory SessionInvariant
  imports SessionTypes
begin

text \<open>
  The reachable states of a session: the host's calls, the rounds of the session thread and the events of
  msquic in any order. In all of them the transport's invariant holds, every pointer that is followed
  leads to a track, and tracks are typed.
\<close>

section \<open>The invariant\<close>

lemma truncate_session_more [simp]:
  "Transport.truncate (s\<lparr>ss_transport := f\<rparr>) = Transport.truncate s"
  "Transport.truncate (s\<lparr>ss_session_running := f\<rparr>) = Transport.truncate s"
  "Transport.truncate (s\<lparr>ss_session_thread := f\<rparr>) = Transport.truncate s"
  "Transport.truncate (s\<lparr>ss_orchestration_started := f\<rparr>) = Transport.truncate s"
  "Transport.truncate (s\<lparr>ss_first_subscribe_sent := f\<rparr>) = Transport.truncate s"
  "Transport.truncate (s\<lparr>ss_manual_disconnect := f\<rparr>) = Transport.truncate s"
  "Transport.truncate (s\<lparr>ss_total_reconnect_count := k\<rparr>) = Transport.truncate s"
  "Transport.truncate (s\<lparr>ss_parsed_host := h\<rparr>) = Transport.truncate s"
  "Transport.truncate (s\<lparr>ss_parsed_port := o'\<rparr>) = Transport.truncate s"
  "Transport.truncate (s\<lparr>ss_next_ptr := l\<rparr>) = Transport.truncate s"
  by (simp_all add: Transport.truncate_def)

lemma transport_inv_truncate:
  fixes s s' :: "'z Transport_scheme"
  assumes "Transport.truncate s' = Transport.truncate s" and "transport_inv s"
  shows "transport_inv s'" and "handles_of s' = handles_of s"
proof -
  have "mem_ok s"
    using assms(2) by (simp add: transport_inv_def handles_inv_def)
  then show "transport_inv s'" and "handles_of s' = handles_of s"
    using truncate_eqD [OF assms(1)] transport_inv_frame [OF assms(2)] frame_kept_handles by simp_all
qed

definition session_ok :: "bool \<Rightarrow> bool \<Rightarrow> 'h Session \<Rightarrow> bool" where
  "session_ok r e s \<longleftrightarrow>
     transport_inv s \<and> session_like (ss_transport s) r e s \<and> (\<not> ss_transport s \<longrightarrow> handles_of s = [])"

text \<open>Without a running thread no request is known.\<close>

definition session_inv :: "'h Session \<Rightarrow> bool" where
  "session_inv s \<longleftrightarrow> session_ok (ss_session_running s) (\<not> ss_session_running s) s"

lemma session_likeD: "session_like b r e s \<Longrightarrow> ss_transport s = b \<and> ss_session_running s = r \<and> ss_session_thread s = r"
  by (simp add: session_like_def)

lemma session_ok_running: "session_ok r e s \<Longrightarrow> ss_session_running s = r \<and> ss_session_thread s = r"
  using session_likeD [of "ss_transport s" r e s] by (simp add: session_ok_def)

lemma session_ok_inv: "session_ok r (\<not> r) s \<Longrightarrow> session_inv s"
  using session_ok_running [of r "\<not> r" s] by (simp add: session_inv_def)

lemma session_ok_states: "session_ok True False s \<Longrightarrow> session_inv s" "session_ok False True s \<Longrightarrow> session_inv s"
  using session_ok_inv [of True s] session_ok_inv [of False s] by simp_all

lemma session_like_weaken: "session_like b r True s \<Longrightarrow> session_like b r e s"
  by (simp add: session_like_def)

lemma session_ok_weaken: "session_ok r True s \<Longrightarrow> session_ok r e s"
  by (auto simp: session_ok_def intro: session_like_weaken)

lemma session_okI:
  assumes "transport_inv s" and "session_like b r e s" and "\<not> b \<Longrightarrow> handles_of s = []"
  shows "session_ok r e s"
  using assms session_likeD [OF assms(2)] by (auto simp: session_ok_def)

lemma session_ok_truncate:
  fixes s s' :: "'h Session"
  assumes "session_ok r e s" and "Transport.truncate s' = Transport.truncate s"
    and "session_like (ss_transport s) r e s \<Longrightarrow> session_like (ss_transport s) r e s'"
  shows "session_ok r e s'"
proof -
  have i: "transport_inv s" and l: "session_like (ss_transport s) r e s" and h: "\<not> ss_transport s \<longrightarrow> handles_of s = []"
    using assms(1) by (simp_all add: session_ok_def)
  show ?thesis
    using transport_inv_truncate [OF assms(2) i] h by (intro session_okI [OF _ assms(3) [OF l]]) simp_all
qed

text \<open>What only sends, and what keeps the transport's frame, keeps it.\<close>

lemma session_ok_sent:
  assumes "session_ok r e s" and "sent s s'" and "mem_ok s'"
  shows "session_ok r e s'"
proof -
  have k: "frame_kept s s'" and c: "same_client s s'"
    using assms(2) by (simp_all add: sent_def same_client_def)
  show ?thesis
    using assms(1) transport_inv_frame [OF _ k assms(3)] session_like_client [OF c] frame_kept_handles(1) [OF k]
      same_client_session(6) [OF c]
    by (simp add: session_ok_def)
qed

lemma session_ok_mem: "session_ok r e s \<Longrightarrow> mem_ok s"
  by (simp add: session_ok_def transport_inv_def handles_inv_def)

lemma send_framed_ok:
  assumes "session_ok r e s"
  shows "allows (send_framed Q framed s) (session_ok r e)"
proof -
  have "allows (send_control Q framed (of_nat (length framed)) s) (\<lambda>(ok, s'). session_ok r e s')"
    by (rule allows_mono [OF yields_allows [OF send_control_yields [OF session_ok_mem [OF assms] unat_of_nat_length_le]]])
      (use session_ok_sent [OF assms] in auto)
  then show ?thesis
    by (auto simp: send_framed_def elim: allows_mono)
qed

lemma send_datagram_ok:
  assumes "session_ok r e s" and "unat len \<le> length data"
  shows "allows (send_datagram Q data len s) (\<lambda>(ok, s'). session_ok r e s' \<and> same_client s s')"
  by (rule allows_mono [OF yields_allows [OF send_datagram_yields [OF session_ok_mem [OF assms(1)] assms(2)]]])
    (use session_ok_sent [OF assms(1)] in \<open>auto simp: sent_def same_client_def\<close>)

lemma session_ok_update:
  assumes "session_ok r e s" and "deref p s = Done t" and "th_ptr (f t) = p" and "track_typed (f t)"
  shows "session_ok r e (update_track p f s)"
  by (rule session_ok_truncate [OF assms(1)], simp, erule session_like_update, (rule assms)+)

lemma session_ok_deref: "session_ok r e s \<Longrightarrow> deref p s = Done t \<Longrightarrow> track_typed t"
  using session_like_deref [of "ss_transport s" r e s p t] by (simp add: session_ok_def)

section \<open>Connecting and disconnecting\<close>

lemma transport_disconnect_ok:
  assumes "transport_inv s" and "session_like b r e s"
  shows "allows (transport_disconnect Q (session_handler L Q now) s)
    (\<lambda>s'. transport_inv s' \<and> handles_of s' = [] \<and> session_like b r e s')"
  by (rule allows_mono [OF allows_conj [OF session.transport_disconnect_keeps [OF assms(1)]
        session.transport_disconnect_inv [OF assms(2)]]]) simp

lemma session_like_transport: "session_like b r e s \<Longrightarrow> session_like b' r e (s\<lparr>ss_transport := b'\<rparr>)"
  by (simp add: session_like_def session_typed_def track_ptrs_def)

lemma destroy_transport_ok:
  assumes "session_ok r e s"
  shows "allows (destroy_transport L Q now s) (\<lambda>s'. transport_inv s' \<and> handles_of s' = [] \<and> session_like False r e s')"
proof (cases "ss_transport s")
  case True
  have "transport_inv (s\<lparr>ss_transport := False\<rparr>)" "session_like False r e (s\<lparr>ss_transport := False\<rparr>)"
    using assms transport_inv_truncate(1) [of "s\<lparr>ss_transport := False\<rparr>" s]
      session_like_transport [of "ss_transport s" r e s False]
    by (simp_all add: session_ok_def)
  from transport_disconnect_ok [OF this] show ?thesis
    using True by (simp add: destroy_transport_def)
next
  case False
  then show ?thesis
    using assms by (simp add: destroy_transport_def session_ok_def)
qed

lemma tear_down_ok:
  assumes "session_ok r e s"
  shows "allows (tear_down L Q now s) (\<lambda>s'. transport_inv s' \<and> handles_of s' = [] \<and> session_like False r e s')"
proof (cases "ss_transport s")
  case True
  have l: "transport_inv s" "session_like True r e s"
    using assms True by (simp_all add: session_ok_def)
  show ?thesis
    using True by (auto simp: tear_down_def intro!: allows_mono [OF transport_disconnect_ok [OF l]] destroy_transport_ok
        intro: session_okI)
next
  case False
  then show ?thesis
    using assms by (simp add: tear_down_def session_ok_def)
qed

lemma new_transport_ok:
  assumes "transport_inv s" and "handles_of s = []" and "session_like b r e s"
  shows "transport_inv (new_transport s)" and "session_like True r e (new_transport s)"
proof -
  show "transport_inv (new_transport s)"
    using assms(1,2) by (simp add: transport_inv_def handles_inv_def new_transport_def handles_of_def nested_def mem_with_def)
  show "session_like True r e (new_transport s)"
    using assms(3) by (simp add: new_transport_def session_like_def session_typed_def track_ptrs_def)
qed

lemma connect_new_ok:
  assumes "transport_inv s" and "handles_of s = []" and "session_like b r e s"
  shows "allows (connect_new L Q now s) (\<lambda>(ok, s'). session_ok r e s')"
  unfolding connect_new_def
  by (rule allows_mono [OF allows_conj2 [OF session.transport_connect_keeps session.transport_connect_inv]])
    (use new_transport_ok [OF assms] in \<open>auto intro: session_okI\<close>)

lemma reset_moq_state_like: "session_like b r e s \<Longrightarrow> session_like b r True (reset_moq_state s)"
  by (auto simp: session_like_def session_typed_def track_ptrs_def reset_moq_state_def reset_track_def comp_def)

lemma track_typed_flush: "track_typed t \<Longrightarrow> track_typed (t\<lparr>th_ring_buffer := map_option rb_flush (th_ring_buffer t)\<rparr>)"
  by (auto simp: track_typed_defs rb_typed_flush)

lemma flush_outbound_like: "session_like b r e s \<Longrightarrow> session_like b r e (flush_outbound s)"
  by (auto simp: session_like_def session_typed_def track_ptrs_def flush_outbound_def comp_def track_typed_flush)

lemma truncate_resets [simp]:
  "Transport.truncate (reset_moq_state s) = Transport.truncate s" "Transport.truncate (flush_outbound s) = Transport.truncate s"
  by (simp_all add: reset_moq_state_def flush_outbound_def)

lemma reset_all_ok:
  assumes "transport_inv s" and "handles_of s = []" and "session_like b r e s"
  shows "transport_inv (flush_outbound (reset_moq_state s))" and "handles_of (flush_outbound (reset_moq_state s)) = []"
    and "session_like b r e' (flush_outbound (reset_moq_state s))"
  using transport_inv_truncate [of "flush_outbound (reset_moq_state s)" s] assms
  by (auto intro: session_like_weaken flush_outbound_like reset_moq_state_like)

lemma session_ok_fields [simp]:
  "session_ok r e s \<Longrightarrow> session_ok r e (s\<lparr>ss_reconnect_attempt := k\<rparr>)"
  "session_ok r e s \<Longrightarrow> session_ok r e (s\<lparr>ss_total_reconnect_count := k\<rparr>)"
  "session_ok r e s \<Longrightarrow> session_ok r e (s\<lparr>ss_reconnecting := f\<rparr>)"
  "session_ok r e s \<Longrightarrow> session_ok r e (s\<lparr>ss_manual_disconnect := f\<rparr>)"
  "session_ok r e s \<Longrightarrow> session_ok r e (s\<lparr>ss_state := c\<rparr>)"
  "session_ok r e s \<Longrightarrow> session_ok r e (s\<lparr>ss_reconnect_deadline := l\<rparr>)"
  "session_ok r e s \<Longrightarrow> session_ok r e (s\<lparr>ss_parsed_host := h\<rparr>)"
  "session_ok r e s \<Longrightarrow> session_ok r e (s\<lparr>ss_parsed_port := o'\<rparr>)"
  "session_ok r e s \<Longrightarrow> session_ok r e (s\<lparr>ss_config := cfg\<rparr>)"
  "session_ok r e s \<Longrightarrow> session_ok r e (s\<lparr>ss_orchestration_started := f\<rparr>)"
  "session_ok r e s \<Longrightarrow> session_ok r e (s\<lparr>ss_first_subscribe_sent := f\<rparr>)"
  "session_ok r e s \<Longrightarrow> session_ok r e (notify cs m s)"
  by (erule session_ok_truncate, simp, simp add: session_like_notify)+

lemma attempt_reconnect_ok:
  assumes "session_ok r e s"
  shows "allows (attempt_reconnect L Q now s) (session_ok r e)"
proof -
  have down: "session_ok r e u" if "transport_inv u \<and> handles_of u = [] \<and> session_like False r e u" for u :: "'a Session"
    using that by (intro session_okI [where b = False]) simp_all
  have conn: "allows (connect_new L Q now (flush_outbound (reset_moq_state u))) (\<lambda>(ok, s'). session_ok r e s')"
    if "transport_inv u \<and> handles_of u = [] \<and> session_like False r e u" for u
    using connect_new_ok [OF reset_all_ok(1,2,3) [of u False r e]] that by blast
  have go: "allows (and_then (tear_down L Q now u) (\<lambda>s.
        and_then (connect_new L Q now (flush_outbound (reset_moq_state s))) (\<lambda>(ok, s).
          if \<not> ok then
            and_then (destroy_transport L Q now s) (\<lambda>s.
              Done (s\<lparr>ss_reconnect_deadline := now + unat (calculate_reconnect_delay_ms s)\<rparr>))
          else Done s))) (session_ok r e)" if "session_ok r e u" for u
    unfolding allows_simps
    by (rule allows_mono [OF tear_down_ok [OF that]], rule allows_mono [OF conn], assumption)
      (auto intro!: allows_mono [OF destroy_transport_ok] session_ok_fields(6) [OF down])
  show ?thesis
    using assms by (simp add: attempt_reconnect_def Let_def go del: allows_simps(4))
qed

lemma start_session_thread_ok:
  assumes "session_ok r e s"
  shows "allows (start_session_thread s) (session_ok True False)"
proof -
  let ?s = "s\<lparr>ss_session_running := True, ss_session_thread := True\<rparr>"
  have i: "transport_inv s" and l: "session_like (ss_transport s) r e s" and h: "\<not> ss_transport s \<longrightarrow> handles_of s = []"
    using assms by (simp_all add: session_ok_def)
  have "session_like (ss_transport s) True False ?s"
    using l by (simp add: session_like_def session_typed_def track_ptrs_def)
  moreover have "transport_inv ?s" and "handles_of ?s = handles_of s"
    using transport_inv_truncate [OF _ i, of ?s] by simp_all
  ultimately have "session_ok True False ?s"
    using h by (intro session_okI [of ?s "ss_transport s" True False]) presburger+
  then show ?thesis
    by (simp add: start_session_thread_def)
qed

lemma session_connect_ok:
  assumes "session_inv s"
  shows "allows (session_connect L Q now s) session_inv"
proof -
  define r where "r = ss_session_running s"
  have ok: "session_ok r (\<not> r) s"
    using assms by (simp add: session_inv_def r_def)
  note keep = session_ok_inv session_ok_fields
  have conn: "allows (connect_new L Q now s') (\<lambda>x. allows
      (case x of (ok, s) \<Rightarrow> if \<not> ok then destroy_transport L Q now s else start_session_thread s) session_inv)"
    if "transport_inv s' \<and> handles_of s' = [] \<and> session_like False r (\<not> r) s'" for s'
  proof (rule allows_mono [OF connect_new_ok])
    show "transport_inv s'" "handles_of s' = []" "session_like False r (\<not> r) s'"
      using that by blast+
    have down: "session_inv u" if "transport_inv u \<and> handles_of u = [] \<and> session_like False r (\<not> r) u" for u :: "'a Session"
      using that by (intro session_ok_inv [where r = r] session_okI [where b = False]) simp_all
    fix x :: "bool \<times> 'a Session"
    assume "case x of (ok, s) \<Rightarrow> session_ok r (\<not> r) s"
    then show "allows (case x of (ok, s) \<Rightarrow> if \<not> ok then destroy_transport L Q now s else start_session_thread s) session_inv"
      by (auto intro!: allows_mono [OF destroy_transport_ok] allows_mono [OF start_session_thread_ok]
          intro: down session_ok_inv session_ok_states)
  qed
  have go: "allows (and_then (destroy_transport L Q now u) (\<lambda>s.
        and_then (connect_new L Q now s) (\<lambda>(ok, s).
          if \<not> ok then destroy_transport L Q now s else start_session_thread s))) session_inv"
    if "session_ok r (\<not> r) u" for u
    unfolding allows_simps
    by (rule allows_mono [OF destroy_transport_ok [OF that]]) (rule conn)
  have body: "allows (let s = s\<lparr>ss_parsed_host := host, ss_parsed_port := port\<rparr> in
        if \<not> ok then Done (notify CS_Failed (Some ''Invalid server URL'') (s\<lparr>ss_state := CS_Failed\<rparr>))
        else
          let s = s\<lparr>ss_manual_disconnect := False, ss_reconnecting := False, ss_reconnect_attempt := 0,
                    ss_total_reconnect_count := 0\<rparr> in
          and_then (destroy_transport L Q now s) (\<lambda>s.
          and_then (connect_new L Q now s) (\<lambda>(ok, s).
            if \<not> ok then destroy_transport L Q now s else start_session_thread s))) session_inv" for ok host port
    unfolding Let_def using ok by (cases ok) (simp_all add: go session_ok_inv [of r] del: allows_simps(4))
  show ?thesis
  proof (cases "ss_state s = CS_Connecting \<or> ss_state s = CS_Connected \<or> ss_state s = CS_Reconnecting")
    case True
    then show ?thesis using assms by (simp add: session_connect_def)
  next
    case False
    have par: "allows (and_then (parse_url (sc_server_url (ss_config s)) (ss_parsed_host s) (ss_parsed_port s)) f) session_inv"
      if "\<And>ok host port. allows (f (ok, host, port)) session_inv" for f
      using that by (cases "parse_url (sc_server_url (ss_config s)) (ss_parsed_host s) (ss_parsed_port s)") auto
    show ?thesis
      unfolding session_connect_def if_not_P [OF False] by (rule par, unfold prod.case, rule body)
  qed
qed

lemma session_disconnect_ok:
  assumes "session_inv s"
  shows "allows (session_disconnect L Q now s) session_inv"
proof (cases "ss_state s = CS_Disconnected \<and> \<not> ss_session_running s \<and> \<not> ss_transport s")
  case True
  then show ?thesis using assms by (simp add: session_disconnect_def)
next
  case False
  define u where "u = s\<lparr>ss_manual_disconnect := True, ss_reconnecting := False, ss_session_running := False,
    ss_session_thread := False\<rparr>"
  have ok: "session_ok (ss_session_running s) (\<not> ss_session_running s) s"
    using assms by (simp add: session_inv_def)
  have eq: "(if ss_session_running (s\<lparr>ss_manual_disconnect := True, ss_reconnecting := False\<rparr>)
      then s\<lparr>ss_manual_disconnect := True, ss_reconnecting := False\<rparr>\<lparr>ss_session_running := False, ss_session_thread := False\<rparr>
      else s\<lparr>ss_manual_disconnect := True, ss_reconnecting := False\<rparr>) = u"
    using session_ok_running [OF ok] by (cases "ss_session_running s") (auto simp: u_def intro!: Session.equality Transport.equality)
  have l: "session_like (ss_transport s) False False u"
    using ok by (auto simp: u_def session_ok_def session_like_def session_typed_def track_ptrs_def)
  have "session_ok False False u"
    using ok transport_inv_truncate [of u s] l
    by (intro session_okI [OF _ l]) (simp_all add: session_ok_def u_def)
  then have "allows (tear_down L Q now u) (\<lambda>s'. session_inv (notify CS_Disconnected (Some ''Disconnected'')
      ((flush_outbound (reset_moq_state s'))\<lparr>ss_state := CS_Disconnected\<rparr>)))"
  proof (rule allows_mono [OF tear_down_ok])
    fix x :: "'a Session"
    assume x: "transport_inv x \<and> handles_of x = [] \<and> session_like False False False x"
    have "session_ok False True (flush_outbound (reset_moq_state x))"
      using reset_all_ok [of x False False False] x by (intro session_okI [where b = False]) simp_all
    then show "session_inv (notify CS_Disconnected (Some ''Disconnected'')
      ((flush_outbound (reset_moq_state x))\<lparr>ss_state := CS_Disconnected\<rparr>))"
      by (intro session_ok_states(2) session_ok_fields)
  qed
  then show ?thesis
    unfolding session_disconnect_def if_not_P [OF False] Let_def eq by simp
qed

section \<open>configure\<close>

lemma add_track_ok:
  assumes "session_ok r e s"
  shows "allows (add_track L tc s) (session_ok r e)"
proof -
  have "session_ok r e (s\<lparr>ss_name_map := (ss_name_map s)(cfg_name tc \<mapsto> th_ptr h), ss_tracks := ss_tracks s @ [h],
               ss_next_ptr := ss_next_ptr s + 1\<rparr>)" if "track_typed h \<and> th_ptr h = ss_next_ptr s" for h
  proof (rule session_ok_truncate [OF assms])
    assume "session_like (ss_transport s) r e s"
    then show "session_like (ss_transport s) r e (s\<lparr>ss_name_map := (ss_name_map s)(cfg_name tc \<mapsto> th_ptr h),
        ss_tracks := ss_tracks s @ [h], ss_next_ptr := ss_next_ptr s + 1\<rparr>)"
      using that by (auto simp: session_like_def session_typed_def track_ptrs_def ran_def less_Suc_eq)
  qed simp
  then show ?thesis
    by (auto simp: add_track_def intro!: allows_mono [OF make_track_typed])
qed

lemma add_tracks_ok: "session_ok r e s \<Longrightarrow> allows (add_tracks L tcs s) (session_ok r e)"
  by (induction tcs arbitrary: s) (auto intro!: allows_mono [OF add_track_ok])

lemma configure_ok:
  assumes "session_inv s" and "\<not> ss_session_running s"
  shows "allows (configure L config s) session_inv"
proof -
  have ok: "session_ok False True s"
    using assms by (simp add: session_inv_def)
  have "session_ok False True (s\<lparr>ss_tracks := [], ss_name_map := Map.empty, ss_config := config, ss_state := CS_Disconnected\<rparr>)"
  proof (rule session_ok_truncate [OF ok])
    assume "session_like (ss_transport s) False True s"
    then show "session_like (ss_transport s) False True
        (s\<lparr>ss_tracks := [], ss_name_map := Map.empty, ss_config := config, ss_state := CS_Disconnected\<rparr>)"
      by (simp add: session_like_def session_typed_def track_ptrs_def)
  qed simp
  then show ?thesis
    unfolding configure_def by (rule allows_mono [OF add_tracks_ok]) (simp_all add: session_ok_states)
qed

section \<open>Orchestration\<close>

lemma assign_request_id_ok:
  assumes "session_ok r False s" and "deref p s = Done t"
  shows "session_ok r False (assign_request_id p s)"
proof -
  let ?s = "update_track p (\<lambda>t. t\<lparr>th_moq_request_id := ss_next_request_id s\<rparr>) s"
  have ok: "session_ok r False ?s"
    by (rule session_ok_update [OF assms]) (use session_ok_deref [OF assms] deref_Done [OF assms(2)] in simp_all)
  have "track_ptrs ?s = track_ptrs s"
    by (simp add: track_ptrs_def update_track_def)
  then have "p \<in> set (track_ptrs ?s)"
    using deref_Done [OF assms(2)] by (auto simp: track_ptrs_def)
  then have "session_ok r False (?s\<lparr>ss_request_id_map := (ss_request_id_map ?s)(ss_next_request_id s \<mapsto> p)\<rparr>)"
    by (intro session_ok_truncate [OF ok]) (auto simp: session_like_def session_typed_def track_ptrs_def ran_def)
  then have "session_ok r False (?s\<lparr>ss_request_id_map := (ss_request_id_map ?s)(ss_next_request_id s \<mapsto> p)\<rparr>
      \<lparr>ss_next_request_id := ss_next_request_id s + 2\<rparr>)"
    by (rule session_ok_truncate) simp_all
  then show ?thesis
    by (simp add: assign_request_id_def Let_def update_track_def)
qed

lemma subscribe_track_ok: "session_ok r False s \<Longrightarrow> allows (subscribe_track Q P p s) (session_ok r False)"
  by (auto simp: subscribe_track_def Let_def intro!: allowsI [of "deref _ _"] send_framed_ok assign_request_id_ok)
    (simp add: deref_def)

lemma announce_track_ok: "session_ok r False s \<Longrightarrow> allows (announce_track Q p s) (session_ok r False)"
  by (auto simp: announce_track_def Let_def intro!: allowsI [of "deref _ _"] send_framed_ok assign_request_id_ok)

lemma subscribe_tracks_ok: "session_ok r False s \<Longrightarrow> allows (subscribe_tracks Q P ps s) (session_ok r False)"
  by (induction ps arbitrary: s) (auto intro!: allows_mono [OF subscribe_track_ok])

lemma announce_tracks_ok: "session_ok r False s \<Longrightarrow> allows (announce_tracks Q ps s) (session_ok r False)"
  by (induction ps arbitrary: s) (auto intro!: allows_mono [OF announce_track_ok])

lemma start_orchestration_ok: "session_ok r False s \<Longrightarrow> allows (start_orchestration Q P s) (session_ok r False)"
  by (auto simp: start_orchestration_def Let_def intro!: allows_mono [OF subscribe_tracks_ok] announce_tracks_ok)

section \<open>The host's calls\<close>

lemma session_ok_ring:
  assumes "session_ok r e s" and "deref p s = Done t" and "th_ring_buffer t = Some r0"
    and "\<And>shape. rb_typed shape r0 \<Longrightarrow> rb_typed shape r'"
  shows "session_ok r e (update_track p (\<lambda>t. t\<lparr>th_ring_buffer := Some r'\<rparr>) s)"
  using session_ok_deref [OF assms(1,2)] deref_Done [OF assms(2)] assms(3,4)
  by (intro session_ok_update [OF assms(1,2)]) (auto simp: track_typed_defs split: if_splits)

lemma session_ok_jitter:
  assumes "session_ok r e s" and "deref p s = Done t" and "th_jitter_buffer t = Some b"
    and "jb_typed (th_config t) b'"
  shows "session_ok r e (update_track p (\<lambda>t. t\<lparr>th_jitter_buffer := Some b'\<rparr>) s)"
  using track_typed_jitter [OF session_ok_deref [OF assms(1,2)] assms(3) track_typed_jitterD assms(4)]
    session_ok_deref [OF assms(1,2)] deref_Done [OF assms(2)] assms(3)
  by (intro session_ok_update [OF assms(1,2)]) simp_all

lemma write_audio_ok:
  assumes "session_ok r e s"
  shows "allows (write_audio track samples n s) (session_ok r e)"
  using assms allowsD [OF rb_typed_write]
  by (intro allowsI) (fastforce simp: write_audio_def outcome_simps split: option.splits if_splits intro: session_ok_ring)

lemma read_audio_ok:
  assumes "session_ok r e s"
  shows "allows (read_audio track buffer n s) (\<lambda>(k, buffer', s'). session_ok r e s')"
  using assms allowsD [OF jb_typed_read [OF track_typed_jitterD [OF session_ok_deref [OF assms]]]]
  by (intro allowsI) (fastforce simp: read_audio_def outcome_simps split: option.splits if_splits intro: session_ok_jitter)

lemma send_data_ok:
  assumes "session_ok r e s"
  shows "allows (send_data Q track data n s) (session_ok r e)"
proof -
  have "session_ok r e (update_track p (\<lambda>t. t\<lparr>th_next_object_id := th_next_object_id t + 1\<rparr>) s)"
    if "deref p s = Done t" for p t
    by (rule session_ok_update [OF assms that]) (use session_ok_deref [OF assms that] deref_Done [OF that] in simp_all)
  then show ?thesis
    using assms
    by (auto simp: send_data_def Let_def intro!: allowsI [of "deref _ _"] allowsI [of "build_object_datagram _ _ _ _ _ _"]
        allows_mono [OF send_datagram_ok] unat_of_nat_length_le split: option.split)
qed

section \<open>The session thread\<close>

lemma maybe_allows_deref:
  "(\<And>t. deref p s = Done t \<Longrightarrow> maybe_allows (f t) R) \<Longrightarrow> maybe_allows (then_maybe (Some (deref p s)) f) R"
  by (rule maybe_allows_then [where P = "\<lambda>t. deref p s = Done t"]) (simp_all add: allowsI)

lemma encoder_encode_length: "allows (encoder_encode L pcm n out m w) (\<lambda>(k, out', w'). length out' = length out)"
  by (auto simp: encoder_encode_def split: option.split prod.split intro!: allows_mono [OF mem_write_keeps_length]
      allowsI [of "mem_read _ _ _"])

lemma pcm_frame_length: "allows (pcm_frame pcm n ch out) (\<lambda>(k, out'). length out' = length out)"
  by (auto simp: pcm_frame_def Let_def intro!: allows_mono [OF mem_write_keeps_length] allowsI [of "mem_read _ _ _"])

lemma build_header_length:
  "allows (build_object_datagram_header a g ob pr buf) (\<lambda>(buf', n). length buf' = length buf)"
  by (auto simp: build_object_datagram_header_def Let_def intro!: allows_mono [OF mem_write_keeps_length])

lemma take_frame_ok:
  assumes "session_ok r e s"
  shows "allows (take_frame p n s) (\<lambda>(t, s'). session_ok r e s' \<and> deref p s' = Done t \<and> track_typed t)"
proof -
  have "session_ok r e (update_track p (\<lambda>_. t\<lparr>th_ring_buffer := Some r', th_pcm_read_buffer := buf\<rparr>) s)
      \<and> deref p (update_track p (\<lambda>_. t\<lparr>th_ring_buffer := Some r', th_pcm_read_buffer := buf\<rparr>) s)
        = Done (t\<lparr>th_ring_buffer := Some r', th_pcm_read_buffer := buf\<rparr>)
      \<and> track_typed (t\<lparr>th_ring_buffer := Some r', th_pcm_read_buffer := buf\<rparr>)"
    if t: "deref p s = Done t" "th_ring_buffer t = Some r0" and r: "rb_read n r0 = Done (xs, k, r')"
      and m: "mem_write (th_pcm_read_buffer t) 0 xs = Done buf" for t r0 xs k r' buf
  proof -
    have ty: "track_typed (t\<lparr>th_ring_buffer := Some r', th_pcm_read_buffer := buf\<rparr>)"
      using session_ok_deref [OF assms t(1)] t(2) mem_write_length [OF m] allowsD [OF rb_typed_read r]
      by (auto simp: track_typed_defs split: if_splits)
    moreover have "th_ptr (t\<lparr>th_ring_buffer := Some r', th_pcm_read_buffer := buf\<rparr>) = p"
      using deref_Done [OF t(1)] by simp
    ultimately show ?thesis
      using session_ok_update [OF assms t(1), of "\<lambda>_. t\<lparr>th_ring_buffer := Some r', th_pcm_read_buffer := buf\<rparr>"]
        deref_update [OF t(1), of "\<lambda>_. t\<lparr>th_ring_buffer := Some r', th_pcm_read_buffer := buf\<rparr>"] by simp
  qed
  then show ?thesis
    by (intro allowsI) (auto simp: take_frame_def outcome_simps Let_def split: option.splits)
qed

text \<open>Updates of the buffers of a sending track.\<close>

lemma track_typed_output:
  "track_typed t \<Longrightarrow> length buf = length (th_encode_output_buffer t) \<Longrightarrow> track_typed (t\<lparr>th_encode_output_buffer := buf\<rparr>)"
  by (auto simp: track_typed_defs split: if_splits)

lemma track_typed_datagram:
  "track_typed t \<Longrightarrow> length buf = length (th_datagram_buffer t) \<Longrightarrow> track_typed (t\<lparr>th_datagram_buffer := buf\<rparr>)"
  by (auto simp: track_typed_defs split: if_splits)

lemma track_typed_encoder: "track_typed t \<Longrightarrow> th_encoder t = Some d \<Longrightarrow> track_typed (t\<lparr>th_encoder := Some d'\<rparr>)"
  by (auto simp: track_typed_defs split: if_splits)

lemma next_object_ok:
  assumes "session_ok r e s" and "deref p s = Done t"
  shows "session_ok r e (update_track p (\<lambda>t. t\<lparr>th_next_object_id := th_next_object_id t + 1\<rparr>) s)"
  by (rule session_ok_update [OF assms]) (use session_ok_deref [OF assms] deref_Done [OF assms(2)] in simp_all)

lemma send_frame_ok:
  assumes "session_ok r e s"
  shows "allows (send_frame Q p n s) (session_ok r e)"
proof (rule allowsI)
  fix s'
  assume "send_frame Q p n s = Done s'"
  then obtain t buf0 h payload buf s1 ok where t: "deref p s = Done t"
    and h: "build_object_datagram_header (th_moq_track_alias t) (th_next_group_id t) (th_next_object_id t) 128
         (th_datagram_buffer t) = Done (buf0, h)"
    and pl: "mem_read (th_encode_output_buffer t) 0 n = Done payload" and w: "mem_write buf0 h payload = Done buf"
    and snd: "send_datagram Q buf (of_nat (h + n)) (update_track p (\<lambda>t. t\<lparr>th_datagram_buffer := buf\<rparr>) s) = Done (ok, s1)"
    and s': "s' = update_track p (\<lambda>t. t\<lparr>th_next_object_id := th_next_object_id t + 1\<rparr>) s1"
    by (auto simp: send_frame_def outcome_simps Let_def split: if_splits)
  let ?u = "update_track p (\<lambda>t. t\<lparr>th_datagram_buffer := buf\<rparr>) s"
  have "length buf = length (th_datagram_buffer t)"
    using mem_write_length [OF w] allowsD [OF build_header_length h] by simp
  then have ty: "track_typed (t\<lparr>th_datagram_buffer := buf\<rparr>)"
    using session_ok_deref [OF assms t] by (simp add: track_typed_datagram)
  have u: "session_ok r e ?u" "deref p ?u = Done (t\<lparr>th_datagram_buffer := buf\<rparr>)"
    using session_ok_update [OF assms t, of "\<lambda>t. t\<lparr>th_datagram_buffer := buf\<rparr>"] ty deref_Done [OF t]
      deref_update [OF t, of "\<lambda>t. t\<lparr>th_datagram_buffer := buf\<rparr>"] by simp_all
  have "unat (of_nat (h + n) :: u32) \<le> h + n"
    by (simp add: unat_of_nat del: of_nat_add)
  moreover have "h + n \<le> length buf"
    using pl w by (auto simp: mem_read_def mem_write_def split: if_splits)
  ultimately have "session_ok r e s1 \<and> same_client ?u s1"
    using allowsD [OF send_datagram_ok [OF u(1)] snd] by simp
  then show "session_ok r e s'"
    using next_object_ok [of r e s1 p] deref_client [of ?u s1 p] u(2) by (simp add: s')
qed

lemma opus_round_ok:
  assumes "session_ok r e s"
  shows "allows (opus_round L Q p n s) (session_ok r e)"
proof (rule allowsI)
  fix s'
  assume "opus_round L Q p n s = Done s'"
  then obtain t s1 enc k out enc' where tf: "take_frame p n s = Done (t, s1)" and enc: "th_encoder t = Some enc"
    and en: "encoder_encode L (th_pcm_read_buffer t) n (th_encode_output_buffer t)
               (of_nat (length (th_encode_output_buffer t))) enc = Done (k, out, enc')"
    and s': "(if k \<le> 0 then Done (update_track p (\<lambda>t. t\<lparr>th_encode_output_buffer := out, th_encoder := Some enc'\<rparr>) s1)
      else send_frame Q p (nat k) (update_track p (\<lambda>t. t\<lparr>th_encode_output_buffer := out, th_encoder := Some enc'\<rparr>) s1))
      = Done s'"
    by (auto simp: opus_round_def outcome_simps Let_def split: option.splits)
  have f: "session_ok r e s1" "deref p s1 = Done t" "track_typed t"
    using allowsD [OF take_frame_ok [OF assms] tf] by simp_all
  have "track_typed (t\<lparr>th_encode_output_buffer := out, th_encoder := Some enc'\<rparr>)"
    using allowsD [OF encoder_encode_length en] f(3) enc track_typed_encoder [OF track_typed_output [OF f(3)]] by simp
  then have "session_ok r e (update_track p (\<lambda>t. t\<lparr>th_encode_output_buffer := out, th_encoder := Some enc'\<rparr>) s1)"
    using deref_Done [OF f(2)] by (intro session_ok_update [OF f(1,2)]) simp_all
  then show "session_ok r e s'"
    using s' allowsD [OF send_frame_ok] by (auto split: if_splits)
qed

lemma pcm_round_ok:
  assumes "session_ok r e s"
  shows "allows (pcm_round Q p n s) (session_ok r e)"
proof (rule allowsI)
  fix s'
  assume "pcm_round Q p n s = Done s'"
  then obtain t s1 k out where tf: "take_frame p n s = Done (t, s1)"
    and en: "pcm_frame (th_pcm_read_buffer t) n (cfg_channels (th_config t)) (th_encode_output_buffer t) = Done (k, out)"
    and s': "send_frame Q p (unat k) (update_track p (\<lambda>t. t\<lparr>th_encode_output_buffer := out\<rparr>) s1) = Done s'"
    by (auto simp: pcm_round_def outcome_simps)
  have f: "session_ok r e s1" "deref p s1 = Done t" "track_typed t"
    using allowsD [OF take_frame_ok [OF assms] tf] by simp_all
  have "session_ok r e (update_track p (\<lambda>t. t\<lparr>th_encode_output_buffer := out\<rparr>) s1)"
    using deref_Done [OF f(2)] track_typed_output [OF f(3)] allowsD [OF pcm_frame_length en]
    by (intro session_ok_update [OF f(1,2)]) simp_all
  from allowsD [OF send_frame_ok [OF this] s'] show "session_ok r e s'" .
qed

lemma poll_track_ok: "session_ok r e s \<Longrightarrow> maybe_allows (poll_track L Q p s) (session_ok r e)"
  by (auto simp: poll_track_def send_audio_frame_def send_pcm_frame_def Let_def split: option.split
      intro!: maybe_allows_deref maybe_allows_loop opus_round_ok pcm_round_ok)

lemma poll_tracks_ok: "session_ok r e s \<Longrightarrow> maybe_allows (poll_tracks L Q ps s) (session_ok r e)"
proof (induction ps arbitrary: s)
  case (Cons p ps)
  then show ?case
    by (auto intro!: maybe_allows_then [OF poll_track_ok])
qed simp

lemma process_incoming_ok:
  assumes "session_ok r e s" and "ss_transport s"
  shows "allows (process_incoming Q (session_handler L Q now) s) (session_ok r e)"
proof -
  have "transport_inv s" "session_like True r e s"
    using assms by (simp_all add: session_ok_def)
  note both = allows_conj [OF session.drain_and_parse_keeps [OF this(1), folded process_incoming_def]
      session.process_incoming_inv [OF this(2)]]
  show ?thesis
    by (rule allows_mono [OF both]) (rule session_okI [where b = True], simp_all)
qed

lemma orchestrate_if_ready_ok: "session_ok r False s \<Longrightarrow> allows (orchestrate_if_ready Q P s) (session_ok r False)"
  by (simp add: orchestrate_if_ready_def start_orchestration_ok)

lemma session_round_ok:
  assumes "session_ok r False s"
  shows "maybe_allows (session_round L Q P now s) (session_ok r False)"
proof -
  have "maybe_allows (Some (if reconnect_due now s then attempt_reconnect L Q now s else Done s)) (session_ok r False)"
    using assms by (simp add: attempt_reconnect_ok)
  then show ?thesis
    unfolding session_round_def
    by (rule maybe_allows_then)
      (auto intro!: maybe_allows_then [of "Some (process_incoming _ _ _)" "session_ok r False"] process_incoming_ok
        maybe_allows_then [of "Some (orchestrate_if_ready _ _ _)" "session_ok r False"] orchestrate_if_ready_ok
        simp: poll_outbound_tracks_def poll_tracks_ok)
qed

section \<open>Reachable states\<close>

inductive session_reach :: "'h opus_lib \<Rightarrow> environment \<Rightarrow> 'h Session \<Rightarrow> bool"
  for L :: "'h opus_lib" and Q :: environment where
  sr_new: "session_reach L Q new_SessionManager"
| sr_configure: "session_reach L Q s \<Longrightarrow> \<not> ss_session_running s \<Longrightarrow> configure L config s = Done s' \<Longrightarrow> session_reach L Q s'"
| sr_update_jwt: "session_reach L Q s \<Longrightarrow> session_reach L Q (update_jwt jwt s)"
| sr_connect: "session_reach L Q s \<Longrightarrow> session_connect L Q now s = Done s' \<Longrightarrow> session_reach L Q s'"
| sr_disconnect: "session_reach L Q s \<Longrightarrow> session_disconnect L Q now s = Done s' \<Longrightarrow> session_reach L Q s'"
| sr_round: "session_reach L Q s \<Longrightarrow> ss_session_running s \<Longrightarrow> session_round L Q P now s = Some (Done s') \<Longrightarrow> session_reach L Q s'"
| sr_write: "session_reach L Q s \<Longrightarrow> write_audio track samples n s = Done s' \<Longrightarrow> session_reach L Q s'"
| sr_read: "session_reach L Q s \<Longrightarrow> read_audio track buffer n s = Done (k, buffer', s') \<Longrightarrow> session_reach L Q s'"
| sr_send: "session_reach L Q s \<Longrightarrow> send_data Q track data n s = Done s' \<Longrightarrow> session_reach L Q s'"
| sr_stream_event: "session_reach L Q s \<Longrightarrow> ss_transport s \<Longrightarrow> stream_event_possible ev s
    \<Longrightarrow> on_stream_event ev s = Done s' \<Longrightarrow> session_reach L Q s'"
| sr_connection_event: "session_reach L Q s \<Longrightarrow> ss_transport s \<Longrightarrow> connection_event_possible cev s
    \<Longrightarrow> on_connection_event Q (session_handler L Q now) cev s = Done s' \<Longrightarrow> session_reach L Q s'"

lemma session_inv_new: "session_inv new_SessionManager"
proof -
  have "Transport.truncate new_SessionManager = new_MoqTransport"
    by (simp add: new_SessionManager_def new_MoqTransport_def Transport.truncate_def Transport.extend_def Session.fields_def)
  then have "transport_inv new_SessionManager"
    by (intro fresh_transport_inv) (simp add: fresh_transport_def)
  then show ?thesis
    by (intro session_ok_states(2)) (simp add: session_ok_def session_like_def session_typed_def track_ptrs_def
        new_SessionManager_def new_MoqTransport_def Transport.extend_def Session.fields_def handles_of_def)
qed

lemma msquic_event_ok:
  assumes "session_inv s" and "ss_transport s" and "allows m transport_inv"
    and "allows m (session_like True (ss_session_running s) (\<not> ss_session_running s))"
  shows "allows m session_inv"
  by (rule allows_mono [OF allows_conj [OF assms(3,4)]])
    (rule session_ok_inv [of "ss_session_running s"], rule session_okI [where b = True], simp_all)

lemma session_invD:
  assumes "session_inv s"
  shows "transport_inv s" and "session_like (ss_transport s) (ss_session_running s) (\<not> ss_session_running s) s"
  using assms by (simp_all add: session_inv_def session_ok_def)

lemma session_reach_inv: "session_reach L Q s \<Longrightarrow> session_inv s"
proof (induction rule: session_reach.induct)
  case sr_new
  show ?case by (rule session_inv_new)
next
  case (sr_configure s config s')
  then show ?case using allowsD [OF configure_ok] by blast
next
  case (sr_update_jwt s jwt)
  then show ?case by (simp add: session_inv_def update_jwt_def)
next
  case (sr_connect s now s')
  then show ?case using allowsD [OF session_connect_ok] by blast
next
  case (sr_disconnect s now s')
  then show ?case using allowsD [OF session_disconnect_ok] by blast
next
  case (sr_round s P now s')
  then show ?case
    using session_round_ok [of True s L Q P now] session_ok_states(1) by (simp add: session_inv_def)
next
  case (sr_write s track samples n s')
  then show ?case using allowsD [OF write_audio_ok] session_ok_inv by (simp add: session_inv_def) blast
next
  case (sr_read s track buffer n k buffer' s')
  then show ?case using allowsD [OF read_audio_ok] session_ok_inv by (simp add: session_inv_def) blast
next
  case (sr_send s track data n s')
  then show ?case using allowsD [OF send_data_ok] session_ok_inv by (simp add: session_inv_def) blast
next
  case (sr_stream_event s ev s')
  note i = session_invD [OF sr_stream_event.IH]
  have l: "session_like True (ss_session_running s) (\<not> ss_session_running s) s"
    using i(2) sr_stream_event.hyps(2) by simp
  have "allows (on_stream_event ev s) session_inv"
    by (rule msquic_event_ok [OF sr_stream_event.IH sr_stream_event.hyps(2)
          yields_allows [OF on_stream_event_keeps [OF i(1) sr_stream_event.hyps(3)]] session.on_stream_event_inv [OF l]])
  then show ?case using sr_stream_event.hyps(4) by simp
next
  case (sr_connection_event s cev now s')
  note i = session_invD [OF sr_connection_event.IH]
  have l: "session_like True (ss_session_running s) (\<not> ss_session_running s) s"
    using i(2) sr_connection_event.hyps(2) by simp
  have "allows (on_connection_event Q (session_handler L Q now) cev s) session_inv"
    by (rule msquic_event_ok [OF sr_connection_event.IH sr_connection_event.hyps(2)
          session.on_connection_event_keeps [OF i(1) sr_connection_event.hyps(3)] session.on_connection_event_inv [OF l]])
  then show ?case using sr_connection_event.hyps(4) by simp
qed

section \<open>Properties\<close>

text \<open>C12: in every state a session can reach, whatever the host, msquic and the server do, a track has exactly the
  buffers and codecs of its kind, of the sizes given by its configuration.\<close>

theorem session_tracks_typed:
  assumes "session_reach L Q s" and "t \<in> set (ss_tracks s)"
  shows "track_typed t"
  using session_invD(2) [OF session_reach_inv [OF assms(1)]] assms(2) by (simp add: session_like_def session_typed_def)

text \<open>C2: in every state a session can reach, the maps of requests, of inbound aliases and of names hold pointers to
  existing tracks (so that following one does not fault), the calls made to msquic were admissible and
  left open exactly the handles of the current transport object, none without one, and no memory given
  to msquic is lost.\<close>

theorem session_safe:
  assumes "session_reach L Q s"
  shows "(\<forall>p\<in>ran (ss_request_id_map s) \<union> ran (ss_inbound_alias_map s) \<union> ran (ss_name_map s). \<exists>t. deref p s = Done t)
     \<and> replay (tr_calls s) [] = Some (handles_of s) \<and> (\<not> ss_transport s \<longrightarrow> handles_of s = []) \<and> mem_ok s"
proof -
  note i = session_reach_inv [OF assms]
  have "ran (ss_request_id_map s) \<union> ran (ss_inbound_alias_map s) \<union> ran (ss_name_map s) \<subseteq> set (track_ptrs s)"
    using session_invD(2) [OF i] by (simp add: session_like_def session_typed_def)
  then have "\<forall>p\<in>ran (ss_request_id_map s) \<union> ran (ss_inbound_alias_map s) \<union> ran (ss_name_map s). \<exists>t. deref p s = Done t"
    using deref_exists [of _ s] by blast
  moreover have "\<not> ss_transport s \<longrightarrow> handles_of s = []"
    using i by (simp add: session_inv_def session_ok_def)
  ultimately show ?thesis
    using session_invD(1) [OF i] by (simp add: transport_inv_def handles_inv_def)
qed

text \<open>A session with one data track that the host looks up.\<close>

definition chat_config :: SessionConfig where
  "chat_config = default_SessionConfig
     \<lparr>sc_tracks := [default_TrackConfig [0x63] [[0x63]] [0x63] Inbound], sc_data_recv_callback := True, sc_server_url := [0x68]\<rparr>"

definition chat_track :: "'h TrackHandle" where
  "chat_track = new_TrackHandle 0 (default_TrackConfig [0x63] [[0x63]] [0x63] Inbound)"

definition chat_session :: "'h Session" where
  "chat_session = new_SessionManager\<lparr>ss_tracks := [chat_track], ss_name_map := [[0x63] \<mapsto> 0],
     ss_config := chat_config, ss_state := CS_Disconnected, ss_next_ptr := 1\<rparr>"

lemmas new_session_simps = new_SessionManager_def new_MoqTransport_def Transport.extend_def Session.fields_def

lemma configure_chat: "configure L chat_config new_SessionManager = Done chat_session"
  by (simp add: configure_def chat_config_def add_track_def make_track_def default_TrackConfig_def new_session_simps
      chat_session_def chat_track_def new_TrackHandle_def)

lemma session_reach_chat: "session_reach L Q chat_session"
  by (rule sr_configure [OF sr_new _ configure_chat]) (simp add: new_session_simps)

theorem session_tracks_typed_witness: "track_typed (chat_track :: nat TrackHandle)"
  by (rule session_tracks_typed [OF session_reach_chat [where L = counting_opus and Q = all_well]])
    (simp add: chat_session_def)

theorem session_safe_witness:
  "configure counting_opus chat_config new_SessionManager = Done chat_session
     \<and> get_track [0x63] (chat_session :: nat Session) = Some 0 \<and> (\<exists>t. deref 0 (chat_session :: nat Session) = Done t)"
proof -
  have g: "get_track [0x63] (chat_session :: nat Session) = Some 0"
    by (simp add: get_track_def chat_session_def)
  then have "0 \<in> ran (ss_name_map (chat_session :: nat Session))"
    unfolding get_track_def by (rule ranI)
  then show ?thesis
    using session_safe [OF session_reach_chat [where L = counting_opus and Q = all_well]] configure_chat g by blast
qed

end
