(* ===== verification/Subscription.thy ===== *)
theory Subscription
  imports SessionInvariant
begin

text \<open>
  The MOQ conversation of a session: it receives the control messages of the byte stream whole and in
  order, subscribes and announces its tracks with distinct even request ids, and delivers the datagrams
  of an alias to the track whose SUBSCRIBE the server answered with it.
\<close>

section \<open>The session as a client that returns\<close>

text \<open>The contents whose parser stays in its buffer, and the events the session returns from.\<close>

definition content_ok :: "u64 \<Rightarrow> bytes \<Rightarrow> bool" where
  "content_ok type c \<longleftrightarrow>
     (case type_of_code type of
        MT_SubscribeOk \<Rightarrow> no_crash (parse_subscribe_ok c)
      | MT_SubscribeError \<Rightarrow> no_crash (parse_subscribe_error c)
      | MT_Subscribe \<Rightarrow> no_crash (parse_subscribe c)
      | MT_Announce \<Rightarrow> no_crash (parse_announce c)
      | MT_AnnounceOk \<Rightarrow> no_crash (parse_announce_ok c)
      | MT_SubscribeAnnounces \<Rightarrow> no_crash (parse_subscribe_announces c)
      | _ \<Rightarrow> True)"

definition session_event_ok :: "transport_event \<Rightarrow> bool" where
  "session_event_ok ev \<longleftrightarrow>
     (case ev of StateChanged _ _ \<Rightarrow> True | ControlMessage type c \<Rightarrow> content_ok type c | _ \<Rightarrow> False)"

lemma send_framed_returns:
  fixes s s' :: "'h Session"
  assumes "mem_ok s" and "Transport.truncate s' = Transport.truncate s" and "ss_transport s'"
  shows "yields (send_framed Q framed s') (\<lambda>_. True)"
proof -
  have "mem_ok s'"
    using assms(1) truncate_eqD(2) [OF assms(2)] by simp
  from send_control_yields [OF this unat_of_nat_length_le, of Q framed] show ?thesis
    using assms(3) by (auto simp: send_framed_def elim!: yields_mono)
qed

lemma on_parsed_yields: "no_crash m \<Longrightarrow> P s \<Longrightarrow> (\<And>r. m = Done r \<Longrightarrow> yields (f r) P) \<Longrightarrow> yields (on_parsed m s f) P"
  by (cases m) (simp_all add: on_parsed_def)

lemma ss_transport_updates [simp]:
  "ss_transport (update_track p f s) = ss_transport s"
  by (simp add: update_track_def)

lemma handle_control_message_returns:
  assumes "mem_ok s" and "session_like True r e s" and "content_ok type c"
  shows "yields (handle_control_message Q type c s) (\<lambda>_. True)"
proof -
  have d: "yields (deref p s) (\<lambda>_. True)" if "ss_request_id_map s k = Some p" for k p
  proof -
    have "p \<in> set (track_ptrs s)"
      using that assms(2) by (auto simp: session_like_def session_typed_def intro: ranI)
    then show ?thesis
      using deref_exists by fastforce
  qed
  have t: "ss_transport s"
    using assms(2) by (simp add: session_like_def)
  show ?thesis
    using assms(3) d t send_framed_returns [OF assms(1), of _ Q]
    by (auto simp: content_ok_def handle_control_message_def on_subscribe_ok_def on_subscribe_error_def on_subscribe_def
        on_announce_def on_announce_ok_def on_subscribe_announces_def name_request_def Let_def
        split: MessageType.split option.split intro!: on_parsed_yields)
qed

interpretation session_stream: stream_client "session_handler L Q now" "session_like True r e" session_event_ok
  for L Q now r e
proof unfold_locales
  fix t :: "'a Session" and ev
  assume "mem_ok t" "session_like True r e t" "session_event_ok ev"
  then show "\<exists>t'. session_handler L Q now ev t = Done t'"
    using handle_control_message_returns [of t r e _ _ Q]
    by (cases ev) (auto simp: session_handler_def session_event_ok_def elim!: yieldsE)
qed (simp add: session_event_ok_def)

text \<open>C1: the session as a whole: whatever the chunks in which the server's control stream arrives and however often
  the session thread polls in between, the session returns, and it has handled exactly the messages of
  the byte sequence, in order; the bytes of an unfinished message are kept.\<close>

theorem session_stream_exact:
  assumes "session_reach L Q s" and "ss_transport s" and "cb_on_control_message (tr_callbacks s)"
    and "length (waiting s @ arrived acts) < 2147483648"
    and "split_stream (waiting s @ arrived acts) = (ms, rest)"
    and "list_all (\<lambda>m. setup_ok m \<and> content_ok (type_code (fst m)) (snd m)) ms"
  shows "\<exists>s'. rx_run Q (session_handler L Q now) (acts @ [Poll]) s = Done s' \<and> waiting s' = rest
     \<and> delivered s' = delivered s @ map coded ms"
proof -
  have l: "session_stream.live (ss_session_running s) (\<not> ss_session_running s) s"
    using session_invD [OF session_reach_inv [OF assms(1)]] assms(2) by (simp add: session_stream.live_def)
  have m: "list_all session_stream.msg_ok ms"
    using assms(6) by (simp add: session_stream.msg_ok_def [abs_def] session_event_ok_def)
  from yieldsE [OF session_stream.rx_run_yields [OF l assms(3-5) m, of Q L Q now]] show ?thesis
    by blast
qed

text \<open>The session with one data track, connected: the handshake is under way.\<close>

lemma parse_url_chat: "parse_url [0x68] [] 443 = Done (True, [0x68], 443)"
  by code_simp

definition connecting_chat :: "nat Session" where
  "connecting_chat =
     (case session_connect counting_opus all_well 0 chat_session of Done s \<Rightarrow> s | _ \<Rightarrow> chat_session)"

lemma connect_chat:
  "session_connect counting_opus all_well 0 chat_session = Done connecting_chat"
  "ss_transport connecting_chat" "tr_callbacks connecting_chat = session_callbacks" "waiting connecting_chat = []"
  "delivered connecting_chat = []" "ss_session_running connecting_chat" "ss_state connecting_chat = CS_Connecting"
  by (simp_all add: connecting_chat_def session_connect_def chat_session_def chat_config_def new_session_simps
      default_SessionConfig_def parse_url_chat destroy_transport_def connect_new_def new_transport_def connect_simps
      all_well_def session_callbacks_def session_handler_def handle_transport_state_change_def notify_def
      start_session_thread_def waiting_def delivered_def List.map_filter_def transport_config_def)

theorem session_stream_exact_witness:
  "\<exists>s'. rx_run all_well (session_handler counting_opus all_well 5) [Arrive [[0x07]], Poll, Arrive [[0, 2], [10, 11]], Poll]
       connecting_chat = Done s' \<and> delivered s' = [(0x07, [10, 11])]"
proof -
  let ?acts = "[Arrive [[0x07]], Poll, Arrive [[0, 2], [10, 11]]]"
  have "split_stream [0x07, 0, 2, 10, 11] = ([(MT_AnnounceOk, [10, 11])], [])"
    using split_stream_step [OF parse_announce_ok_frame(1)] split_stream_stop [of "[]"] parse_announce_ok_frame(2)
    by simp
  then have s: "split_stream (waiting connecting_chat @ arrived ?acts) = ([(MT_AnnounceOk, [10, 11])], [])"
    by (simp add: connect_chat)
  have "no_crash (parse_announce_ok [10, 11])"
    by code_simp
  then have "content_ok 7 [10, 11]"
    by (simp add: content_ok_def type_of_code_def)
  with session_stream_exact [OF sr_connect [OF session_reach_chat connect_chat(1)] connect_chat(2) _ _ s] show ?thesis
    by (auto simp: connect_chat session_callbacks_def setup_ok_def coded_def)
qed

section \<open>Requests\<close>

text \<open>The data of the stream sends msquic accepted.\<close>

fun stream_data :: "sys_call \<times> bool \<Rightarrow> bytes option" where
  "stream_data (StreamSend ctx c data, True) = Some data"
| "stream_data _ = None"

definition stream_contents :: "'z Transport_scheme \<Rightarrow> bytes list" where
  "stream_contents t = List.map_filter stream_data (tr_calls t)"

text \<open>The length of a message is passed as a \<open>uint32_t\<close>.\<close>

definition as_sent :: "bytes \<Rightarrow> bytes" where
  "as_sent m = take (unat (of_nat (length m) :: u32)) m"

lemma as_sent_whole: "length m < 4294967296 \<Longrightarrow> as_sent m = m"
  by (simp add: as_sent_def unsigned_of_nat take_bit_nat_eq_self)

definition can_send :: "'h Session \<Rightarrow> bool" where
  "can_send s \<longleftrightarrow> ss_transport s \<and> TS_Connected \<le> tr_current_state s \<and> tr_control_stream s \<and> tr_msquic s"

lemma send_framed_all_well:
  assumes "can_send s"
  shows "yields (send_framed all_well m s) (\<lambda>s'. stream_contents s' = stream_contents s @ [as_sent m]
     \<and> same_client s s' \<and> can_send s')"
proof -
  have "\<not> tr_current_state s < TS_Connected"
    using assms by (simp add: can_send_def not_less)
  then show ?thesis
    using assms by (simp add: send_framed_def can_send_def send_control_def send_on_control_stream_def malloc_def sys_def
        all_well_def mem_read_Done unat_of_nat_length_le stream_contents_def List.map_filter_def as_sent_def same_client_def Let_def)
qed

definition track_configs :: "'h Session \<Rightarrow> (nat \<times> TrackConfig) list" where
  "track_configs s = map (\<lambda>t. (th_ptr t, th_config t)) (ss_tracks s)"

lemma deref_config:
  assumes "(p, tc) \<in> set (track_configs s)" and "distinct (map fst (track_configs s))"
  obtains t where "deref p s = Done t" and "th_config t = tc" and "th_ptr t = p"
proof -
  obtain u where u: "u \<in> set (ss_tracks s)" "th_ptr u = p" "th_config u = tc"
    using assms(1) by (auto simp: track_configs_def)
  have "p \<in> set (track_ptrs s)"
    using u by (auto simp: track_ptrs_def)
  then obtain t where t: "deref p s = Done t"
    using deref_exists by blast
  have "distinct (map th_ptr (ss_tracks s))"
    using assms(2) by (simp add: track_configs_def comp_def)
  then have "t = u"
    using deref_Done [OF t] u by (auto simp: distinct_map dest: inj_onD)
  then show thesis
    using that t u by blast
qed

lemma track_configs_update [simp]:
  "(\<And>t. th_ptr (f t) = th_ptr t \<and> th_config (f t) = th_config t) \<Longrightarrow> track_configs (update_track p f s) = track_configs s"
  by (auto simp: track_configs_def update_track_def)

text \<open>The ids a list of pointers gets from \<open>n\<close> on.\<close>

fun assign_ids :: "u64 \<Rightarrow> nat list \<Rightarrow> (u64 \<rightharpoonup> nat) \<Rightarrow> (u64 \<rightharpoonup> nat)" where
  "assign_ids n [] m = m"
| "assign_ids n (p # ps) m = assign_ids (n + 2) ps (m(n \<mapsto> p))"

lemma assign_ids_append: "assign_ids n (ps @ qs) m = assign_ids (n + 2 * of_nat (length ps)) qs (assign_ids n ps m)"
  by (induction ps arbitrary: n m) (simp_all add: algebra_simps)

text \<open>What a request loop leaves unchanged, and the requests it has numbered.\<close>

definition requested :: "nat list \<Rightarrow> 'h Session \<Rightarrow> 'h Session \<Rightarrow> bool" where
  "requested ps s s' \<longleftrightarrow>
     track_configs s' = track_configs s \<and> ss_config s' = ss_config s \<and> can_send s' \<and>
     ss_next_request_id s' = ss_next_request_id s + 2 * of_nat (length ps) \<and>
     ss_request_id_map s' = assign_ids (ss_next_request_id s) ps (ss_request_id_map s)"

lemma requested_trans: "requested ps s u \<Longrightarrow> requested qs u v \<Longrightarrow> requested (ps @ qs) s v"
  by (simp add: requested_def assign_ids_append algebra_simps)

lemma requested_Nil: "can_send s \<Longrightarrow> requested [] s s"
  by (simp add: requested_def)

lemma assign_send:
  assumes "can_send s"
  shows "yields (send_framed all_well m (assign_request_id p s)) (\<lambda>s'. requested [p] s s'
     \<and> stream_contents s' = stream_contents s @ [as_sent m] \<and> ss_first_subscribe_sent s' = ss_first_subscribe_sent s)"
proof -
  have "can_send (assign_request_id p s)" "stream_contents (assign_request_id p s) = stream_contents s"
    using assms by (simp_all add: can_send_def assign_request_id_def update_track_def stream_contents_def Let_def)
  moreover have "requested [p] s s'" "ss_first_subscribe_sent s' = ss_first_subscribe_sent s"
    if "same_client (assign_request_id p s) s'" "can_send s'" for s'
    using that same_client_session [OF that(1)]
    by (simp_all add: requested_def assign_request_id_def Let_def track_configs_def update_track_def comp_def if_distrib cong: if_cong)
  ultimately show ?thesis
    using send_framed_all_well [of "assign_request_id p s" m] by (auto elim!: yields_mono)
qed

text \<open>The subscriptions sent for a list of inbound tracks, and the announcements for outbound ones.\<close>

fun subscribes :: "(nat \<Rightarrow> SubscribeParam list) \<Rightarrow> SessionConfig \<Rightarrow> bool \<Rightarrow> u64 \<Rightarrow> (nat \<times> TrackConfig) list \<Rightarrow> SubscribeConfig list" where
  "subscribes P c attached n [] = []"
| "subscribes P c attached n ((p, tc) # ts) =
     default_SubscribeConfig
     \<lparr>subc_request_id := n, subc_track_namespace := cfg_moq_namespace tc, subc_track_name := cfg_moq_track_name tc,
      subc_filter_type := kFilterLatestGroup, subc_forward := 1, subc_group_order := 1,
      subc_authorization := (if attached then [] else sc_jwt c),
      subc_extra_params := (if sc_subscribe_params_callback c then map host_param (P p) else [])\<rparr>
     # subscribes P c (attached \<or> sc_jwt c \<noteq> []) (n + 2) ts"

fun announces :: "u64 \<Rightarrow> (nat \<times> TrackConfig) list \<Rightarrow> AnnounceConfig list" where
  "announces n [] = []"
| "announces n ((p, tc) # ts) =
     \<lparr>annc_request_id = n, annc_track_namespace = cfg_moq_namespace tc\<rparr> # announces (n + 2) ts"

abbreviation inbound_of :: "(nat \<times> TrackConfig) list \<Rightarrow> (nat \<times> TrackConfig) list" where
  "inbound_of ts \<equiv> filter (\<lambda>(p, tc). cfg_direction tc = Inbound) ts"

abbreviation outbound_of :: "(nat \<times> TrackConfig) list \<Rightarrow> (nat \<times> TrackConfig) list" where
  "outbound_of ts \<equiv> filter (\<lambda>(p, tc). cfg_direction tc = Outbound) ts"

text \<open>A loop over tracks does what its rounds do, composed.\<close>

lemma track_loop:
  assumes nil: "\<And>s. loop [] s = Done s" and step: "\<And>p ps s. loop (p # ps) s = and_then (body p s) (loop ps)"
    and G_nil: "\<And>s. can_send s \<Longrightarrow> G [] s s"
    and G_cons: "\<And>pt ts s u v. G [pt] s u \<Longrightarrow> G ts u v \<Longrightarrow> G (pt # ts) s v"
    and G_keeps: "\<And>ts s u. G ts s u \<Longrightarrow> can_send u \<and> track_configs u = track_configs s"
    and body: "\<And>p t s. can_send s \<Longrightarrow> deref p s = Done t \<Longrightarrow> yields (body p s) (G [(p, th_config t)] s)"
    and start: "can_send s" "distinct (map fst (track_configs s))" "set ts \<subseteq> set (track_configs s)"
  shows "yields (loop (map fst ts) s) (G ts (s :: 'h Session))"
  using start
proof (induction ts arbitrary: s)
  case Nil
  then show ?case by (simp add: nil G_nil)
next
  case (Cons pt ts)
  obtain p tc where pt: "pt = (p, tc)" by (cases pt)
  obtain t where t: "deref p s = Done t" "th_config t = tc"
    using deref_config [of p tc s] Cons.prems(2,3) pt by auto
  have "yields (body p s) (\<lambda>u. yields (loop (map fst ts) u) (G (pt # ts) s))"
  proof (rule yields_mono [OF body [OF Cons.prems(1) t(1)]])
    fix u
    assume u: "G [(p, th_config t)] s u"
    have "yields (loop (map fst ts) u) (G ts u)"
      using Cons.prems G_keeps [OF u] by (intro Cons.IH) simp_all
    then show "yields (loop (map fst ts) u) (G (pt # ts) s)"
      by (rule yields_mono) (use G_cons [OF u] pt t(2) in simp)
  qed
  then show ?case
    by (simp add: pt step)
qed

definition subscribed :: "(nat \<Rightarrow> SubscribeParam list) \<Rightarrow> (nat \<times> TrackConfig) list \<Rightarrow> 'h Session \<Rightarrow> 'h Session \<Rightarrow> bool" where
  "subscribed P ts s s' \<longleftrightarrow>
     requested (map fst (inbound_of ts)) s s' \<and>
     stream_contents s' = stream_contents s @ map (as_sent \<circ> build_subscribe)
       (subscribes P (ss_config s) (ss_first_subscribe_sent s) (ss_next_request_id s) (inbound_of ts)) \<and>
     ss_first_subscribe_sent s' = (ss_first_subscribe_sent s \<or> inbound_of ts \<noteq> [] \<and> sc_jwt (ss_config s) \<noteq> [])"

definition announced :: "(nat \<times> TrackConfig) list \<Rightarrow> 'h Session \<Rightarrow> 'h Session \<Rightarrow> bool" where
  "announced ts s s' \<longleftrightarrow>
     requested (map fst (outbound_of ts)) s s' \<and>
     stream_contents s' = stream_contents s @ map (as_sent \<circ> build_announce)
       (announces (ss_next_request_id s) (outbound_of ts))"

lemma requested_cons: "requested [p] s u \<Longrightarrow> requested ps u v \<Longrightarrow> requested (p # ps) s v"
  using requested_trans [of "[p]" s u ps v] by simp

lemma requestedD:
  "requested ps s u \<Longrightarrow> can_send u \<and> track_configs u = track_configs s \<and> ss_config u = ss_config s \<and>
     ss_next_request_id u = ss_next_request_id s + 2 * of_nat (length ps)"
  by (simp add: requested_def)

lemma subscribe_track_spec:
  assumes "can_send s" and "deref p s = Done t"
  shows "yields (subscribe_track all_well P p s) (subscribed P [(p, th_config t)] s)"
proof (cases "cfg_direction (th_config t) = Inbound")
  case True
  let ?s = "if attaches_jwt s then s\<lparr>ss_first_subscribe_sent := True\<rparr> else s"
  have ptr: "th_ptr t = p"
    using deref_Done [OF assms(2)] by simp
  have u: "can_send ?s" "stream_contents ?s = stream_contents s"
    "ss_first_subscribe_sent ?s = (ss_first_subscribe_sent s \<or> sc_jwt (ss_config s) \<noteq> [])"
    using assms(1) by (auto simp: can_send_def stream_contents_def attaches_jwt_def)
  have r: "requested [p] ?s s' = requested [p] s s'" for s'
    by (simp add: requested_def track_configs_def)
  have "subscribes P (ss_config s) (ss_first_subscribe_sent s) (ss_next_request_id s) [(p, th_config t)]
      = [subscribe_config P t s]"
    by (simp add: subscribe_config_def attaches_jwt_def ptr)
  then have "yields (send_framed all_well (build_subscribe (subscribe_config P t s)) (assign_request_id p ?s))
      (subscribed P [(p, th_config t)] s)"
    using True u by (intro yields_mono [OF assign_send [OF u(1)]]) (simp add: subscribed_def r del: subscribes.simps)
  then show ?thesis
    using True assms(2) by (simp add: subscribe_track_def Let_def)
next
  case False
  then show ?thesis
    using assms by (simp add: subscribe_track_def subscribed_def requested_Nil)
qed

lemma announce_track_spec:
  assumes "can_send s" and "deref p s = Done t"
  shows "yields (announce_track all_well p s) (announced [(p, th_config t)] s)"
proof (cases "cfg_direction (th_config t) = Outbound")
  case True
  then show ?thesis
    using assms by (auto simp: announce_track_def announced_def Let_def intro!: yields_mono [OF assign_send])
next
  case False
  then show ?thesis
    using assms by (simp add: announce_track_def announced_def requested_Nil)
qed

lemma subscribed_cons:
  assumes "subscribed P [pt] s u" and "subscribed P ts u v"
  shows "subscribed P (pt # ts) s v"
proof (cases "cfg_direction (snd pt) = Inbound")
  case True
  then have r: "requested [fst pt] s u"
    using assms(1) by (simp add: subscribed_def case_prod_unfold)
  show ?thesis
    using assms r True requestedD [OF r] requested_cons [OF r]
    by (cases pt) (auto simp: subscribed_def)
next
  case False
  then have r: "requested [] s u"
    using assms(1) by (simp add: subscribed_def case_prod_unfold)
  show ?thesis
    using assms r False requestedD [OF r] requested_trans [OF r] by (simp add: subscribed_def case_prod_unfold)
qed

lemma announced_cons:
  assumes "announced [pt] s u" and "announced ts u v"
  shows "announced (pt # ts) s v"
proof (cases "cfg_direction (snd pt) = Outbound")
  case True
  then have r: "requested [fst pt] s u"
    using assms(1) by (simp add: announced_def case_prod_unfold)
  show ?thesis
    using assms r True requestedD [OF r] requested_cons [OF r] by (cases pt) (simp add: announced_def)
next
  case False
  then have r: "requested [] s u"
    using assms(1) by (simp add: announced_def case_prod_unfold)
  show ?thesis
    using assms r False requestedD [OF r] requested_trans [OF r] by (simp add: announced_def case_prod_unfold)
qed

lemma subscribe_tracks_spec:
  assumes "can_send s" and "distinct (map fst (track_configs s))" and "set ts \<subseteq> set (track_configs s)"
  shows "yields (subscribe_tracks all_well P (map fst ts) s) (subscribed P ts s)"
  by (rule track_loop [where body = "subscribe_track all_well P", OF _ _ _ subscribed_cons _ subscribe_track_spec assms])
    (auto simp: subscribed_def requested_Nil dest: requestedD)

lemma announce_tracks_spec:
  assumes "can_send s" and "distinct (map fst (track_configs s))" and "set ts \<subseteq> set (track_configs s)"
  shows "yields (announce_tracks all_well (map fst ts) s) (announced ts s)"
  by (rule track_loop [where body = "announce_track all_well", OF _ _ _ announced_cons _ announce_track_spec assms])
    (auto simp: announced_def requested_Nil dest: requestedD)

lemma length_subscribes [simp]: "length (subscribes P c attached n ts) = length ts"
  by (induction ts arbitrary: attached n) auto

lemma length_announces [simp]: "length (announces n ts) = length ts"
  by (induction ts arbitrary: n) auto

lemma subscribes_fields:
  "map (\<lambda>c. (subc_track_namespace c, subc_track_name c, subc_forward c)) (subscribes P c attached n ts)
     = map (\<lambda>(p, tc). (cfg_moq_namespace tc, cfg_moq_track_name tc, 1)) ts"
  by (induction ts arbitrary: attached n) auto

lemma announces_fields: "map annc_track_namespace (announces n ts) = map (\<lambda>(p, tc). cfg_moq_namespace tc) ts"
  by (induction ts arbitrary: n) auto

lemma subscribes_nth:
  "k < length ts \<Longrightarrow> subc_request_id (subscribes P c attached n ts ! k) = n + 2 * of_nat k
     \<and> subc_authorization (subscribes P c attached n ts ! k) = (if k = 0 \<and> \<not> attached then sc_jwt c else [])"
proof (induction ts arbitrary: attached n k)
  case (Cons pt ts)
  then show ?case
    by (cases pt; cases k) (auto simp: algebra_simps)
qed simp

lemma announces_nth: "k < length ts \<Longrightarrow> annc_request_id (announces n ts ! k) = n + 2 * of_nat k"
proof (induction ts arbitrary: n k)
  case (Cons pt ts)
  then show ?case
    by (cases pt; cases k) (auto simp: algebra_simps)
qed simp

lemma twice_distinct:
  assumes "0 < j" and "j < 9223372036854775808"
  shows "(2 * of_nat j :: u64) \<noteq> 0"
proof -
  have "unat (2 * of_nat j :: u64) = 2 * j"
    using assms(2) by (simp add: unat_word_ariths unsigned_of_nat take_bit_nat_eq_self)
  then show ?thesis
    using assms(1) by auto
qed

lemma assign_ids_other: "(\<And>j. j < length ps \<Longrightarrow> x \<noteq> n + 2 * of_nat j) \<Longrightarrow> assign_ids n ps m x = m x"
proof (induction ps arbitrary: n m)
  case (Cons p ps)
  have "x \<noteq> n"
    using Cons.prems [of 0] by simp
  moreover have "x \<noteq> n + 2 + 2 * of_nat j" if "j < length ps" for j
    using Cons.prems [of "Suc j"] that by (simp add: algebra_simps)
  ultimately show ?case
    using Cons.IH [of "n + 2"] by simp
qed simp

lemma assign_ids_nth:
  "k < length ps \<Longrightarrow> length ps < 9223372036854775808 \<Longrightarrow> assign_ids n ps m (n + 2 * of_nat k) = Some (ps ! k)"
proof (induction ps arbitrary: n m k)
  case (Cons p ps)
  show ?case
  proof (cases k)
    case 0
    have "n \<noteq> n + 2 + 2 * of_nat j" if "j < length ps" for j
      using twice_distinct [of "Suc j"] that Cons.prems(2) by (simp add: algebra_simps)
    then show ?thesis
      using 0 assign_ids_other [of ps n "n + 2" "m(n \<mapsto> p)"] by simp
  next
    case (Suc i)
    have e: "n + 2 * of_nat (Suc i) = n + 2 + 2 * of_nat i"
      by (simp add: algebra_simps)
    show ?thesis
      unfolding Suc e assign_ids.simps nth_Cons_Suc by (rule Cons.IH) (use Suc Cons.prems in simp_all)
  qed
qed simp

text \<open>C7: what \<open>start_orchestration\<close> asks the server for, when its sends succeed: a SUBSCRIBE for every inbound
  track, then an ANNOUNCE for every outbound one, in the order of the configuration, with the track's
  names, the request ids 0, 2, 4, ... and the token on the first SUBSCRIBE only; every id is bound to its
  track.\<close>

theorem orchestration_requests:
  assumes "session_reach L Q s" and "can_send s" and "ss_next_request_id s = 0" and "\<not> ss_first_subscribe_sent s"
    and "length (ss_tracks s) < 9223372036854775808"
  shows "\<exists>s' subs anns. start_orchestration all_well P s = Done s'
    \<and> stream_contents s' = stream_contents s @ map (as_sent \<circ> build_subscribe) subs @ map (as_sent \<circ> build_announce) anns
    \<and> map (\<lambda>c. (subc_track_namespace c, subc_track_name c, subc_forward c)) subs
        = map (\<lambda>(p, tc). (cfg_moq_namespace tc, cfg_moq_track_name tc, 1)) (inbound_of (track_configs s))
    \<and> (\<forall>k<length subs. subc_request_id (subs ! k) = 2 * of_nat k
        \<and> subc_authorization (subs ! k) = (if k = 0 then sc_jwt (ss_config s) else []))
    \<and> map annc_track_namespace anns = map (\<lambda>(p, tc). cfg_moq_namespace tc) (outbound_of (track_configs s))
    \<and> (\<forall>k<length anns. annc_request_id (anns ! k) = 2 * of_nat (length subs + k))
    \<and> (let ps = map fst (inbound_of (track_configs s) @ outbound_of (track_configs s)) in
        \<forall>k<length ps. ss_request_id_map s' (2 * of_nat k) = Some (ps ! k))"
proof -
  let ?s = "s\<lparr>ss_orchestration_started := True\<rparr>" and ?ts = "track_configs s"
  have d: "distinct (map fst (track_configs ?s))"
    using session_invD(2) [OF session_reach_inv [OF assms(1)]]
    by (simp add: session_like_def session_typed_def track_ptrs_def track_configs_def comp_def)
  have ts: "track_configs ?s = ?ts" "can_send ?s" "map th_ptr (ss_tracks ?s) = map fst ?ts"
    using assms(2) by (simp_all add: track_configs_def can_send_def comp_def)
  obtain u where u: "subscribe_tracks all_well P (map fst ?ts) ?s = Done u" "subscribed P ?ts ?s u"
    using yieldsE [OF subscribe_tracks_spec [OF ts(2) d, of ?ts P]] ts(1) by auto
  then have k: "can_send u" "track_configs u = ?ts"
    using requestedD [of "map fst (inbound_of ?ts)" ?s u] ts(1) by (simp_all add: subscribed_def)
  obtain v where v: "announce_tracks all_well (map fst ?ts) u = Done v" "announced ?ts u v"
    using yieldsE [OF announce_tracks_spec [OF k(1), of ?ts]] k(2) d ts(1) by auto
  let ?subs = "subscribes P (ss_config s) False 0 (inbound_of ?ts)"
  let ?anns = "announces (2 * of_nat (length ?subs)) (outbound_of ?ts)"
  have r: "requested (map fst (inbound_of ?ts)) ?s u" "requested (map fst (outbound_of ?ts)) u v"
    using u(2) v(2) by (simp_all add: subscribed_def announced_def)
  note rv = requested_trans [OF r]
  have n: "ss_next_request_id u = 2 * of_nat (length ?subs)"
    using requestedD [OF r(1)] assms(3) by simp
  have run: "start_orchestration all_well P s = Done v"
    using u(1) v(1) by (simp add: start_orchestration_def ts(3) [simplified])
  have sent: "stream_contents v = stream_contents s @ map (as_sent \<circ> build_subscribe) ?subs @ map (as_sent \<circ> build_announce) ?anns"
    using u(2) v(2) n assms(3,4) by (simp add: subscribed_def announced_def stream_contents_def)
  have len: "length (inbound_of ?ts @ outbound_of ?ts) < 9223372036854775808"
  proof -
    have "length (inbound_of ts) + length (outbound_of ts) \<le> length ts" for ts
      by (induction ts) auto
    from this [of ?ts] have "length (inbound_of ?ts) + length (outbound_of ?ts) \<le> length ?ts" .
    then show ?thesis
      using assms(5) by (simp add: track_configs_def)
  qed
  have ids: "ss_request_id_map v = assign_ids 0 (map fst (inbound_of ?ts @ outbound_of ?ts)) (ss_request_id_map s)"
    using rv assms(3) by (simp add: requested_def)
  have "ss_request_id_map v (2 * of_nat k) = Some (map fst (inbound_of ?ts @ outbound_of ?ts) ! k)"
    if "k < length (map fst (inbound_of ?ts @ outbound_of ?ts))" for k
    unfolding ids using assign_ids_nth [OF that, of 0] len by (simp only: length_map add_0_left)
  then show ?thesis
    using run sent by (intro exI [of _ v] exI [of _ ?subs] exI [of _ ?anns])
      (simp add: subscribes_fields announces_fields subscribes_nth announces_nth algebra_simps Let_def del: length_append)
qed

text \<open>The session of the example once the QUIC connection is up and CLIENT\_SETUP is sent.\<close>

definition arriving_chat :: "nat Session" where
  "arriving_chat = connecting_chat\<lparr>tr_pending_connected := True\<rparr>"

definition connected_chat :: "nat Session" where
  "connected_chat =
     (case session_round counting_opus all_well (\<lambda>_. []) 0 arriving_chat of Some (Done s) \<Rightarrow> s | _ \<Rightarrow> arriving_chat)"

lemmas connecting_simps = connecting_chat_def session_connect_def chat_session_def chat_config_def new_session_simps
  default_SessionConfig_def parse_url_chat destroy_transport_def connect_new_def new_transport_def connect_simps
  all_well_def session_callbacks_def session_handler_def handle_transport_state_change_def notify_def
  start_session_thread_def transport_config_def

lemmas polling_simps = session_round_def reconnect_due_def process_incoming_def drain_and_parse_def take_connected_def
  start_moq_session_def send_on_control_stream_def malloc_def mem_read_def length_default_client_setup
  take_transport_shutdown_def take_peer_shutdown_def take_chunks_def parse_received_def orchestrate_if_ready_def

lemma round_chat:
  "session_round counting_opus all_well (\<lambda>_. []) 0 arriving_chat = Some (Done connected_chat)"
  "ss_transport connected_chat" "tr_current_state connected_chat = TS_Connected" "tr_control_stream connected_chat"
  "tr_msquic connected_chat" "ss_next_request_id connected_chat = 0" "\<not> ss_first_subscribe_sent connected_chat"
  "ss_tracks connected_chat = [chat_track]" "stream_contents connected_chat = [default_client_setup]"
  "sc_subscribe_params_callback (ss_config connected_chat) = False"
  by (simp_all add: connected_chat_def arriving_chat_def connecting_simps polling_simps stream_contents_def
      List.map_filter_def)

lemma session_reach_connected_chat: "session_reach counting_opus all_well connected_chat"
proof (rule sr_round [OF sr_connection_event [OF sr_connect [OF session_reach_chat connect_chat(1)] connect_chat(2)] _ round_chat(1)])
  show "on_connection_event all_well (session_handler counting_opus all_well 0) CE_Connected connecting_chat
      = Done arriving_chat"
    by (simp add: on_connection_event_def arriving_chat_def)
  show "ss_session_running arriving_chat"
    using connect_chat(6) by (simp add: arriving_chat_def)
  show "connection_event_possible CE_Connected connecting_chat"
    by (simp add: connection_event_possible_def connecting_simps)
qed

theorem orchestration_requests_witness:
  "\<exists>s' m. start_orchestration all_well (\<lambda>_. []) connected_chat = Done s'
    \<and> stream_contents s' = [default_client_setup, m] \<and> ss_request_id_map s' 0 = Some 0"
proof -
  have c: "can_send connected_chat"
    by (simp add: can_send_def round_chat)
  have t: "track_configs connected_chat = [(0, default_TrackConfig [0x63] [[0x63]] [0x63] Inbound)]"
    by (simp add: track_configs_def round_chat chat_track_def new_TrackHandle_def)
  have i: "inbound_of (track_configs connected_chat) = [(0, default_TrackConfig [0x63] [[0x63]] [0x63] Inbound)]"
    "outbound_of (track_configs connected_chat) = []"
    by (simp_all add: t default_TrackConfig_def)
  have "\<exists>s' subs. start_orchestration all_well (\<lambda>_. []) connected_chat = Done s'
      \<and> stream_contents s' = [default_client_setup] @ map (as_sent \<circ> build_subscribe) subs
      \<and> length subs = 1 \<and> ss_request_id_map s' 0 = Some 0"
    using orchestration_requests [OF session_reach_connected_chat c round_chat(6,7), of "\<lambda>_. []"]
    by (fastforce simp add: i round_chat dest!: map_eq_imp_length_eq)
  then show ?thesis
    by (auto simp: length_Suc_conv)
qed

end
