(* ===== verification/SessionReconnect.thy ===== *)
theory SessionReconnect
  imports Subscription
begin

text \<open>
  The life cycle of a session whatever msquic answers: connecting, disconnecting and a reconnection attempt
  always return, and what each leaves behind. Lemmas: the transport's part of an operation leaves the
  session alone but for the state changes it announces. Properties: disconnecting, the delay between
  attempts, and how a reconnection cycle without success ends.
\<close>

section \<open>What the transport does to the session\<close>

text \<open>The handler for a state change is a function of the session's own part of the state.\<close>

lemma same_client_more:
  assumes "same_client s s'"
  shows "ss_reconnect_deadline s' = ss_reconnect_deadline s" "ss_total_reconnect_count s' = ss_total_reconnect_count s"
    "ss_manual_disconnect s' = ss_manual_disconnect s" "ss_orchestration_started s' = ss_orchestration_started s"
    "ss_parsed_host s' = ss_parsed_host s" "ss_parsed_port s' = ss_parsed_port s"
    "ss_data_received s' = ss_data_received s"
  using assms by (cases s; cases s'; simp add: same_client_def)+

lemmas client_simps = same_client_session same_client_more

lemma handle_state_change_client:
  assumes "same_client s u"
  shows "same_client (handle_transport_state_change now ts m s) (handle_transport_state_change now ts m u)"
  using assms
  by (cases s; cases u) (auto simp: same_client_def handle_transport_state_change_def reconnecting_state_change_def
      notify_def calculate_reconnect_delay_ms_def split: TransportState.split)

lemma handle_state_change_callbacks: "tr_callbacks (handle_transport_state_change now ts m s) = tr_callbacks s"
  by (simp add: handle_transport_state_change_def reconnecting_state_change_def notify_def split: TransportState.split)

lemma set_state_session:
  "yields (set_state (session_handler L Q now) ts m s)
     (\<lambda>s'. same_client (if cb_on_state_changed (tr_callbacks s) then handle_transport_state_change now ts m s else s) s'
       \<and> tr_callbacks s' = tr_callbacks s)"
proof -
  have "same_client (handle_transport_state_change now ts m s) (handle_transport_state_change now ts m
      (s\<lparr>tr_current_state := ts, tr_events := tr_events s @ [StateChanged ts m]\<rparr>))"
    by (rule handle_state_change_client) (simp add: same_client_def)
  then show ?thesis
    by (simp add: set_state_def fire_def session_handler_def Let_def handle_state_change_callbacks)
      (simp add: same_client_def)
qed

lemma cleanup_quic_callbacks: "tr_callbacks (cleanup_quic Q t) = tr_callbacks t"
  by (simp add: cleanup_quic_def reset_transport_state_def close_stream_def close_connection_def
      close_configuration_def close_registration_def close_api_def sys_def Let_def)

lemma init_quic_rest:
  "init_quic Q config t = (ok, t') \<Longrightarrow> tr_callbacks t' = tr_callbacks t \<and> (ok \<longrightarrow> tr_msquic t')"
  by (auto simp: init_quic_def sys_def Let_def split: if_splits)

lemma start_connection_rest:
  "tr_msquic t \<Longrightarrow> yields (start_connection Q config t) (\<lambda>(ok, t'). same_client t t' \<and> tr_callbacks t' = tr_callbacks t)"
  by (simp add: start_connection_def sys_def Let_def same_client_def)

lemma transport_disconnect_session:
  "yields (transport_disconnect Q (session_handler L Q now) s)
     (\<lambda>s'. same_client (if cb_on_state_changed (tr_callbacks s)
          then handle_transport_state_change now TS_Disconnected ''Disconnected'' s else s) s'
       \<and> tr_callbacks s' = tr_callbacks s)"
proof -
  let ?u = "cleanup_quic Q (s\<lparr>tr_disconnecting := True\<rparr>)"
  have u: "same_client s ?u"
    using cleanup_quic_same_client [of "s\<lparr>tr_disconnecting := True\<rparr>" Q] by (simp add: same_client_def)
  show ?thesis
    unfolding transport_disconnect_def
    by (rule yields_mono [OF set_state_session])
      (use u in \<open>auto simp: cleanup_quic_callbacks split: if_splits
        intro: same_client_trans [OF handle_state_change_client] same_client_trans\<close>)
qed

text \<open>A failed step of connecting announces the failure; the session sees nothing else of it.\<close>

lemma connect_failed_session:
  "yields (connect_failed Q (session_handler L Q now) msg u)
     (\<lambda>(ok, s'). \<not> ok \<and> tr_callbacks s' = tr_callbacks u
       \<and> same_client (if cb_on_state_changed (tr_callbacks u) then handle_transport_state_change now TS_Failed msg u else u) s')"
  unfolding connect_failed_def
  by (simp only: yields_simps, rule yields_mono [OF set_state_session])
    (auto simp: cleanup_quic_callbacks intro: same_client_trans [OF _ cleanup_quic_same_client] split: if_splits)

lemma open_connection_session:
  assumes "cb_on_state_changed (tr_callbacks u)"
  shows "yields (open_connection Q (session_handler L Q now) config u)
     (\<lambda>(ok, s'). tr_callbacks s' = tr_callbacks u
       \<and> (\<exists>msg. same_client (if ok then u else handle_transport_state_change now TS_Failed msg u) s'))"
proof -
  have failed: "yields (connect_failed Q (session_handler L Q now) msg v)
     (\<lambda>(ok, s'). tr_callbacks s' = tr_callbacks u
       \<and> (\<exists>msg. same_client (if ok then u else handle_transport_state_change now TS_Failed msg u) s'))"
    if "same_client u v" "tr_callbacks v = tr_callbacks u" for v msg
    by (rule yields_mono [OF connect_failed_session])
      (use assms that in \<open>auto intro: same_client_trans [OF handle_state_change_client]\<close>)
  obtain ok v where v: "init_quic Q config u = (ok, v)"
    by fastforce
  note r = init_quic_same_client [OF v] init_quic_rest [OF v]
  show ?thesis
  proof (cases ok)
    case True
    have "yields (start_connection Q config v) (\<lambda>(ok, t'). same_client u t' \<and> tr_callbacks t' = tr_callbacks u)"
      by (rule yields_mono [OF start_connection_rest]) (use r True in \<open>auto intro: same_client_trans\<close>)
    then obtain a w where w: "start_connection Q config v = Done (a, w)" "same_client u w" "tr_callbacks w = tr_callbacks u"
      by (auto elim: yieldsE)
    show ?thesis
      using failed [OF w(2,3)] v True w by (cases a) (simp_all add: open_connection_def)
  next
    case False
    then show ?thesis
      using v r failed by (simp add: open_connection_def)
  qed
qed


section \<open>Connecting\<close>

lemma connect_new_session:
  "yields (connect_new L Q now s)
     (\<lambda>(ok, s'). cb_on_state_changed (tr_callbacks s')
       \<and> (\<exists>msg. same_client (let c = handle_transport_state_change now TS_Connecting ''Connecting'' (new_transport s) in
            if ok then c else handle_transport_state_change now TS_Failed msg c) s'))"
proof -
  let ?u = "(new_transport s)\<lparr>tr_disconnecting := False, tr_callbacks := session_callbacks\<rparr>"
  let ?c = "handle_transport_state_change now TS_Connecting ''Connecting'' (new_transport s)"
  have fresh: "tr_current_state (new_transport s) = TS_Disconnected" "cb_on_state_changed session_callbacks"
    by (simp_all add: new_transport_def session_callbacks_def)
  have "same_client (new_transport s) ?u"
    by (simp add: same_client_def)
  then obtain v where v: "set_state (session_handler L Q now) TS_Connecting ''Connecting'' ?u = Done v"
    "same_client ?c v" "tr_callbacks v = session_callbacks"
    using set_state_session [of L Q now TS_Connecting "''Connecting''" ?u] fresh(2)
    by (auto elim!: yieldsE intro: same_client_trans [OF handle_state_change_client])
  have failed: "\<exists>msg. same_client (handle_transport_state_change now TS_Failed msg ?c) b"
    if "same_client (handle_transport_state_change now TS_Failed msg v) b" for msg b
    using same_client_trans [OF handle_state_change_client [OF v(2)] that] by blast
  have "yields (open_connection Q (session_handler L Q now) (transport_config s) v)
     (\<lambda>(ok, s'). cb_on_state_changed (tr_callbacks s')
       \<and> (\<exists>msg. same_client (let c = ?c in if ok then c else handle_transport_state_change now TS_Failed msg c) s'))"
    by (rule yields_mono [OF open_connection_session])
      (use v fresh(2) failed in \<open>auto simp: Let_def intro: same_client_trans\<close>)
  then show ?thesis
    using v(1) fresh(1) by (simp add: connect_new_def transport_connect_def)
qed

text \<open>Whether connecting succeeds is up to msquic: not if the library cannot be opened, and yes if every call succeeds.\<close>

definition refuses_open :: "environment \<Rightarrow> bool" where
  "refuses_open Q \<longleftrightarrow> (\<forall>cs. \<not> Q cs MsQuicOpen2)"

lemma connect_new_refused:
  assumes "refuses_open Q"
  shows "allows (connect_new L Q now s) (\<lambda>(ok, s'). \<not> ok)"
  using assms
  by (auto simp: refuses_open_def connect_new_def transport_connect_def new_transport_def open_connection_def init_quic_def
      sys_def connect_failed_def intro!: allowsI)

lemma init_quic_succeeds: "(\<And>cs c. Q cs c) \<Longrightarrow> fst (init_quic Q config t)"
  by (simp add: init_quic_def sys_def Let_def)

lemma connect_new_accepted:
  assumes "\<And>cs c. Q cs c"
  shows "allows (connect_new L Q now s) (\<lambda>(ok, s'). ok)"
proof (rule allowsI)
  fix r
  assume "connect_new L Q now s = Done r"
  then obtain u where "open_connection Q (session_handler L Q now) (transport_config s) u = Done r"
    by (auto simp: connect_new_def transport_connect_def new_transport_def outcome_simps)
  then show "case r of (ok, s') \<Rightarrow> ok"
    using init_quic_succeeds [of Q "transport_config s" u] assms
    by (auto simp: open_connection_def start_connection_def sys_def Let_def outcome_simps split: prod.splits if_splits)
qed

lemma handle_state_change_fields:
  "ss_transport (handle_transport_state_change now ts m s) = ss_transport s"
  "ss_session_running (handle_transport_state_change now ts m s) = ss_session_running s"
  "ss_session_thread (handle_transport_state_change now ts m s) = ss_session_thread s"
  "ss_config (handle_transport_state_change now ts m s) = ss_config s"
  "ss_total_reconnect_count (handle_transport_state_change now ts m s) = ss_total_reconnect_count s"
  by (simp_all add: handle_transport_state_change_def reconnecting_state_change_def notify_def split: TransportState.split)

text \<open>Destroying the transport, and the whole tear-down, always return.\<close>

lemma destroy_transport_session:
  "yields (destroy_transport L Q now s)
     (\<lambda>s'. \<not> ss_transport s' \<and> tr_callbacks s' = tr_callbacks s \<and>
       (if ss_transport s \<and> cb_on_state_changed (tr_callbacks s)
        then same_client (handle_transport_state_change now TS_Disconnected ''Disconnected'' (s\<lparr>ss_transport := False\<rparr>)) s'
        else same_client (s\<lparr>ss_transport := False\<rparr>) s'))"
proof (cases "ss_transport s")
  case True
  then show ?thesis
    by (auto simp: destroy_transport_def handle_state_change_fields dest: same_client_session(6)
        intro!: yields_mono [OF transport_disconnect_session] split: if_splits)
next
  case False
  then have "same_client (s\<lparr>ss_transport := False\<rparr>) s"
    by (cases s) (simp add: same_client_def)
  with False show ?thesis
    by (simp add: destroy_transport_def)
qed

text \<open>What no tear-down changes; while reconnecting it is not even noticed.\<close>

definition same_life :: "'h Session \<Rightarrow> 'h Session \<Rightarrow> bool" where
  "same_life s s' \<longleftrightarrow>
     ss_session_running s' = ss_session_running s \<and> ss_session_thread s' = ss_session_thread s \<and>
     ss_config s' = ss_config s \<and> ss_total_reconnect_count s' = ss_total_reconnect_count s \<and>
     (ss_reconnecting s \<longrightarrow> ss_reconnecting s' \<and> ss_state s' = ss_state s \<and> ss_status s' = ss_status s
        \<and> ss_reconnect_attempt s' = ss_reconnect_attempt s \<and> ss_reconnect_deadline s' = ss_reconnect_deadline s)"

lemma ignored_disconnect:
  "ss_reconnecting s \<Longrightarrow> handle_transport_state_change now TS_Disconnected m s = s"
  by (simp add: handle_transport_state_change_def reconnecting_state_change_def)

lemma same_life_client:
  assumes "same_client (if b then handle_transport_state_change now TS_Disconnected m s else s) s'"
  shows "same_life s s'"
  using client_simps [OF assms]
  by (cases "ss_reconnecting s") (simp_all add: same_life_def handle_state_change_fields ignored_disconnect)

lemma destroy_transport_thread:
  "yields (destroy_transport L Q now s) (\<lambda>s'. ss_session_thread s' = ss_session_thread s)"
  by (rule yields_mono [OF destroy_transport_session])
    (auto dest: same_client_session(8) simp: handle_state_change_fields split: if_splits)

lemma tear_down_session:
  "yields (tear_down L Q now s) (\<lambda>s'. \<not> ss_transport s' \<and> same_life s s')"
proof (cases "ss_transport s")
  case True
  have "yields (destroy_transport L Q now u) (\<lambda>s'. \<not> ss_transport s' \<and> same_life s s')"
    if "same_life s u" for u
  proof (rule yields_mono [OF destroy_transport_session])
    let ?b = "ss_transport u \<and> cb_on_state_changed (tr_callbacks u)" and ?v = "u\<lparr>ss_transport := False\<rparr>"
    fix x
    assume "\<not> ss_transport x \<and> tr_callbacks x = tr_callbacks u \<and>
       (if ?b then same_client (handle_transport_state_change now TS_Disconnected ''Disconnected'' ?v) x else same_client ?v x)"
    then have "\<not> ss_transport x" and "same_life ?v x"
      using same_life_client [of ?b now "''Disconnected''" ?v x] by simp_all
    then show "\<not> ss_transport x \<and> same_life s x"
      using that by (auto simp: same_life_def)
  qed
  then show ?thesis
    using True
    by (simp add: tear_down_def) (rule yields_mono [OF transport_disconnect_session], use same_life_client in blast)
next
  case False
  then show ?thesis
    by (simp add: tear_down_def same_life_def)
qed

section \<open>Disconnecting\<close>

lemma reset_all_fields:
  "ss_transport (flush_outbound (reset_moq_state s)) = ss_transport s"
  "ss_session_running (flush_outbound (reset_moq_state s)) = ss_session_running s"
  "ss_session_thread (flush_outbound (reset_moq_state s)) = ss_session_thread s"
  "ss_config (flush_outbound (reset_moq_state s)) = ss_config s"
  "ss_state (flush_outbound (reset_moq_state s)) = ss_state s"
  "ss_status (flush_outbound (reset_moq_state s)) = ss_status s"
  "ss_reconnecting (flush_outbound (reset_moq_state s)) = ss_reconnecting s"
  "ss_reconnect_attempt (flush_outbound (reset_moq_state s)) = ss_reconnect_attempt s"
  "ss_total_reconnect_count (flush_outbound (reset_moq_state s)) = ss_total_reconnect_count s"
  "ss_reconnect_deadline (flush_outbound (reset_moq_state s)) = ss_reconnect_deadline s"
  "tr_callbacks (flush_outbound (reset_moq_state s)) = tr_callbacks s"
  by (simp_all add: flush_outbound_def reset_moq_state_def)

text \<open>Nothing of the last connection is left in the session's own state.\<close>

definition forgotten :: "'h Session \<Rightarrow> bool" where
  "forgotten s \<longleftrightarrow>
     ss_request_id_map s = Map.empty \<and> ss_inbound_alias_map s = Map.empty \<and> ss_outbound_alias_map s = Map.empty \<and>
     ss_next_request_id s = 0 \<and> ss_next_track_alias s = 1 \<and>
     \<not> ss_orchestration_started s \<and> \<not> ss_first_subscribe_sent s \<and>
     (\<forall>t\<in>set (ss_tracks s). th_moq_track_alias t = 0 \<and> th_next_object_id t = 0 \<and>
        (\<forall>r. th_ring_buffer t = Some r \<longrightarrow> rb_buffered r = 0))"

lemma forgotten_reset: "forgotten (flush_outbound (reset_moq_state s))"
  by (auto simp: forgotten_def flush_outbound_def reset_moq_state_def reset_track_def rb_flush_def)

text \<open>C9: from every state a session can reach, \<open>disconnect\<close> returns, whatever msquic answers: the session is then
  disconnected with neither a transport nor a running thread, all handles of msquic are closed, no request or inbound alias is
  known, a second \<open>disconnect\<close> changes nothing, and \<open>connect\<close> is not refused. If there was anything to
  disconnect, the aliases, object ids and buffered audio of the tracks are gone too and the host is told
  last that the session is disconnected.\<close>

theorem disconnect_completes:
  assumes "session_reach L Q s"
  shows "\<exists>s'. session_disconnect L Q now s = Done s'
    \<and> ss_state s' = CS_Disconnected \<and> \<not> ss_transport s' \<and> \<not> ss_session_running s' \<and> \<not> ss_session_thread s'
    \<and> handles_of s' = [] \<and> ss_request_id_map s' = Map.empty \<and> ss_inbound_alias_map s' = Map.empty
    \<and> session_disconnect L Q now' s' = Done s'
    \<and> (if ss_state s = CS_Disconnected \<and> \<not> ss_session_running s \<and> \<not> ss_transport s then s' = s
       else forgotten s' \<and> (sc_status_callback (ss_config s')
         \<longrightarrow> (\<exists>before. ss_status s' = before @ [(CS_Disconnected, Some ''Disconnected'')])))"
proof (cases "ss_state s = CS_Disconnected \<and> \<not> ss_session_running s \<and> \<not> ss_transport s")
  case True
  moreover have "session_like False False True s" "handles_of s = []"
    using session_reach_inv [OF assms] True by (simp_all add: session_inv_def session_ok_def)
  ultimately show ?thesis
    by (simp add: session_disconnect_def session_like_def)
next
  case False
  let ?r = "s\<lparr>ss_manual_disconnect := True, ss_reconnecting := False\<rparr>"
  define w where "w = (if ss_session_running ?r then ?r\<lparr>ss_session_running := False, ss_session_thread := False\<rparr> else ?r)"
  have "\<not> ss_session_running w"
    by (simp add: w_def)
  then obtain u where u: "tear_down L Q now w = Done u" "\<not> ss_transport u" "\<not> ss_session_running u"
    using yieldsE [OF tear_down_session [of L Q now w]] unfolding same_life_def by metis
  define v where "v = notify CS_Disconnected (Some ''Disconnected'') ((flush_outbound (reset_moq_state u))\<lparr>ss_state := CS_Disconnected\<rparr>)"
  have d: "session_disconnect L Q now s = Done v"
    by (simp only: session_disconnect_def Let_def if_not_P [OF False] u(1) and_then.simps flip: w_def v_def)
  have v: "ss_state v = CS_Disconnected" "\<not> ss_transport v" "\<not> ss_session_running v" "forgotten v"
    "sc_status_callback (ss_config v) \<longrightarrow> (\<exists>before. ss_status v = before @ [(CS_Disconnected, Some ''Disconnected'')])"
    using u(2,3) forgotten_reset [of u] by (simp_all add: v_def notify_def reset_all_fields forgotten_def)
  have "session_inv v"
    by (rule session_reach_inv [OF sr_disconnect [OF assms d]])
  then have "session_like False False True v" "handles_of v = []"
    using v(2,3) by (simp_all add: session_inv_def session_ok_def)
  then show ?thesis
    unfolding if_not_P [OF False] using d v by (intro exI [of _ v]) (simp add: session_like_def session_disconnect_def)
qed

section \<open>The delay between attempts\<close>

text \<open>C39: the delay before the next attempt is the base delay doubled for every attempt made and capped, provided
  the base is within the cap and the cap leaves room for one more doubling.\<close>

theorem reconnect_delay_exact:
  assumes "sc_reconnect_base_delay_ms (ss_config s) \<le> sc_reconnect_max_delay_ms (ss_config s)"
    and "unat (sc_reconnect_max_delay_ms (ss_config s)) < 2 ^ 31"
  shows "unat (calculate_reconnect_delay_ms s)
    = min (unat (sc_reconnect_base_delay_ms (ss_config s)) * 2 ^ unat (ss_reconnect_attempt s))
        (unat (sc_reconnect_max_delay_ms (ss_config s)))"
proof -
  have "unat (reconnect_delay n d m) = min (unat d * 2 ^ n) (unat m)" if "d \<le> m" "unat m < 2 ^ 31" for n d m
    using that(1)
  proof (induction n arbitrary: d)
    case 0
    then show ?case by (simp add: word_le_nat_alt)
  next
    case (Suc n)
    have "unat d < 2 ^ 31"
      using Suc.prems that(2) by (simp add: word_le_nat_alt)
    then have d: "unat (d * 2) = unat d * 2"
      by (simp add: unat_word_ariths)
    show ?case
    proof (cases "d * 2 \<ge> m")
      case True
      then have "unat m \<le> unat d * 2"
        using d by (simp add: word_le_nat_alt)
      also have "\<dots> \<le> unat d * 2 * 2 ^ n"
        by simp
      finally show ?thesis
        using True by simp
    next
      case False
      then show ?thesis
        using Suc.IH [of "d * 2"] d by simp
    qed
  qed
  from this [OF assms] show ?thesis
    by (simp add: calculate_reconnect_delay_ms_def)
qed

theorem reconnect_delay_exact_witness:
  "unat (calculate_reconnect_delay_ms ((new_SessionManager :: nat Session)\<lparr>ss_reconnect_attempt := 7\<rparr>)) = 10000"
proof -
  let ?s = "(new_SessionManager :: nat Session)\<lparr>ss_reconnect_attempt := 7\<rparr>"
  have c: "ss_config ?s = default_SessionConfig" "ss_reconnect_attempt ?s = 7"
    by (simp_all add: new_session_simps)
  show ?thesis
    using reconnect_delay_exact [of ?s] unfolding c by (simp add: default_SessionConfig_def)
qed

section \<open>Reconnecting\<close>

text \<open>The state changes a failing connection announces while the session reconnects.\<close>

lemma reconnecting_failed:
  assumes "ss_reconnecting s"
  shows "handle_transport_state_change now TS_Failed msg (handle_transport_state_change now TS_Connecting m s)
    = (if ss_reconnect_attempt s < sc_max_reconnect_attempts (ss_config s)
       then s\<lparr>ss_reconnect_deadline := now + unat (calculate_reconnect_delay_ms s)\<rparr>
       else notify CS_Failed (Some ''Reconnection failed'') (s\<lparr>ss_reconnecting := False, ss_state := CS_Failed\<rparr>))"
  using assms by (simp add: handle_transport_state_change_def reconnecting_state_change_def)

lemma reconnecting_connecting:
  "ss_reconnecting s \<Longrightarrow> handle_transport_state_change now TS_Connecting m s = s"
  by (simp add: handle_transport_state_change_def reconnecting_state_change_def)

lemma new_transport_fields:
  "ss_transport (new_transport s)" "ss_session_running (new_transport s) = ss_session_running s"
  "ss_session_thread (new_transport s) = ss_session_thread s" "ss_config (new_transport s) = ss_config s"
  "ss_state (new_transport s) = ss_state s" "ss_status (new_transport s) = ss_status s"
  "ss_reconnecting (new_transport s) = ss_reconnecting s" "ss_reconnect_attempt (new_transport s) = ss_reconnect_attempt s"
  "ss_total_reconnect_count (new_transport s) = ss_total_reconnect_count s"
  "ss_reconnect_deadline (new_transport s) = ss_reconnect_deadline s"
  by (simp_all add: new_transport_def)

text \<open>What one attempt leads to: a transport that connects, a further attempt scheduled, or the end of the cycle.\<close>

definition life_kept :: "'h Session \<Rightarrow> 'h Session \<Rightarrow> bool" where
  "life_kept s s' \<longleftrightarrow>
     ss_session_running s' = ss_session_running s \<and> ss_session_thread s' = ss_session_thread s \<and>
     ss_config s' = ss_config s \<and>
     ss_reconnect_attempt s' = ss_reconnect_attempt s + 1 \<and> ss_total_reconnect_count s' = ss_total_reconnect_count s + 1"

definition still_trying :: "'h Session \<Rightarrow> 'h Session \<Rightarrow> bool" where
  "still_trying s s' \<longleftrightarrow> ss_reconnecting s' \<and> ss_state s' = ss_state s \<and> ss_status s' = ss_status s"

definition given_up :: "'h Session \<Rightarrow> 'h Session \<Rightarrow> bool" where
  "given_up s s' \<longleftrightarrow>
     \<not> ss_reconnecting s' \<and> \<not> ss_transport s' \<and> ss_state s' = CS_Disconnected \<and>
     ss_status s' = ss_status s @ (if sc_status_callback (ss_config s)
       then [(CS_Failed, Some ''Reconnection failed''), (CS_Disconnected, Some ''Disconnected'')] else [])"

definition attempt_outcome :: "nat \<Rightarrow> 'h Session \<Rightarrow> 'h Session \<Rightarrow> bool" where
  "attempt_outcome now s s' \<longleftrightarrow>
     life_kept s s' \<and>
     (if ss_transport s' then still_trying s s' \<and> ss_reconnect_deadline s' = ss_reconnect_deadline s
      else if ss_reconnect_attempt s' < sc_max_reconnect_attempts (ss_config s)
      then still_trying s s' \<and> ss_reconnect_deadline s' = now + unat (calculate_reconnect_delay_ms s')
      else given_up s s')"

lemma calculate_delay_deadline [simp]:
  "calculate_reconnect_delay_ms (s\<lparr>ss_reconnect_deadline := d\<rparr>) = calculate_reconnect_delay_ms s"
  by (simp add: calculate_reconnect_delay_ms_def)

lemma calculate_delay_client: "same_client s s' \<Longrightarrow> calculate_reconnect_delay_ms s' = calculate_reconnect_delay_ms s"
  by (simp add: calculate_reconnect_delay_ms_def client_simps)

text \<open>A new transport that fails to connect, and its destruction, seen from a reconnecting session.\<close>

definition failed_outcome :: "'h Session \<Rightarrow> 'h Session \<Rightarrow> bool" where
  "failed_outcome w x \<longleftrightarrow>
     \<not> ss_transport x \<and> ss_session_running x = ss_session_running w \<and> ss_session_thread x = ss_session_thread w \<and>
     ss_config x = ss_config w \<and> ss_reconnect_attempt x = ss_reconnect_attempt w \<and>
     ss_total_reconnect_count x = ss_total_reconnect_count w \<and>
     (if ss_reconnect_attempt w < sc_max_reconnect_attempts (ss_config w) then still_trying w x else given_up w x)"

lemma destroy_connected:
  assumes "ss_transport v" and "cb_on_state_changed (tr_callbacks v)"
  shows "yields (destroy_transport L Q now v) (\<lambda>x. \<not> ss_transport x
    \<and> same_client (handle_transport_state_change now TS_Disconnected ''Disconnected'' (v\<lparr>ss_transport := False\<rparr>)) x)"
  by (rule yields_mono [OF destroy_transport_session]) (use assms in simp)

lemma failed_connection:
  assumes "ss_reconnecting w" and "cb_on_state_changed (tr_callbacks v)"
    and "same_client (handle_transport_state_change now TS_Failed msg
           (handle_transport_state_change now TS_Connecting m (new_transport w))) v"
  shows "yields (destroy_transport L Q now v) (failed_outcome w)"
proof (cases "ss_reconnect_attempt w < sc_max_reconnect_attempts (ss_config w)")
  case True
  then have v: "same_client ((new_transport w)\<lparr>ss_reconnect_deadline := now + unat (calculate_reconnect_delay_ms (new_transport w))\<rparr>) v"
    using assms(1,3) by (simp add: reconnecting_failed new_transport_fields)
  then have w: "ss_transport v" "ss_reconnecting v"
    using assms(1) by (simp_all add: client_simps [OF v] new_transport_fields)
  have "failed_outcome w x" if "\<not> ss_transport x" and x: "same_client (v\<lparr>ss_transport := False\<rparr>) x" for x
    using True that(1) assms(1)
    by (simp add: client_simps [OF x] client_simps [OF v] new_transport_fields failed_outcome_def still_trying_def)
  then show ?thesis
    using w(2) by (intro yields_mono [OF destroy_connected [OF w(1) assms(2)]]) (simp add: ignored_disconnect)
next
  case False
  then have v: "same_client (notify CS_Failed (Some ''Reconnection failed'')
      ((new_transport w)\<lparr>ss_reconnecting := False, ss_state := CS_Failed\<rparr>)) v"
    using assms(1,3) by (simp add: reconnecting_failed new_transport_fields)
  have t: "ss_transport v" "\<not> ss_reconnecting v"
    by (simp_all add: client_simps [OF v] new_transport_fields notify_def)
  have "failed_outcome w x" if "\<not> ss_transport x" and x: "same_client (notify CS_Disconnected (Some ''Disconnected'')
        (v\<lparr>ss_transport := False, ss_state := CS_Disconnected\<rparr>)) x" for x
    using False that(1)
    by (simp add: client_simps [OF x] client_simps [OF v] new_transport_fields failed_outcome_def given_up_def notify_def)
  then show ?thesis
    using t(2) by (intro yields_mono [OF destroy_connected [OF t(1) assms(2)]])
      (simp add: handle_transport_state_change_def)
qed

lemma attempt_reconnect_session:
  assumes "ss_reconnecting s" and "ss_reconnect_attempt s < sc_max_reconnect_attempts (ss_config s)"
  shows "yields (attempt_reconnect L Q now s) (attempt_outcome now s)"
proof -
  define a where "a = s\<lparr>ss_reconnect_attempt := ss_reconnect_attempt s + 1,
      ss_total_reconnect_count := ss_total_reconnect_count s + 1\<rparr>"
  have af: "ss_reconnecting a" "ss_config a = ss_config s" "ss_reconnect_attempt a = ss_reconnect_attempt s + 1"
    "\<not> ss_reconnect_attempt a > sc_max_reconnect_attempts (ss_config a)"
    using assms by (simp_all add: a_def inc_le not_less)
  have tail: "yields (and_then (connect_new L Q now (flush_outbound (reset_moq_state u))) (\<lambda>(ok, s).
          if \<not> ok then
            and_then (destroy_transport L Q now s) (\<lambda>s.
              Done (s\<lparr>ss_reconnect_deadline := now + unat (calculate_reconnect_delay_ms s)\<rparr>))
          else Done s)) (attempt_outcome now s)" if u: "\<not> ss_transport u" "same_life a u" for u
  proof (simp only: yields_simps, rule yields_mono [OF connect_new_session], clarify)
    let ?w = "flush_outbound (reset_moq_state u)"
    have w: "ss_reconnecting ?w" "ss_config ?w = ss_config s" "ss_session_running ?w = ss_session_running s"
      "ss_session_thread ?w = ss_session_thread s" "ss_state ?w = ss_state s" "ss_status ?w = ss_status s"
      "ss_reconnect_attempt ?w = ss_reconnect_attempt s + 1" "ss_reconnect_deadline ?w = ss_reconnect_deadline s"
      "ss_total_reconnect_count ?w = ss_total_reconnect_count s + 1"
      using u(2) af(1) by (simp_all add: same_life_def reset_all_fields a_def)
    fix ok v msg
    assume cb: "cb_on_state_changed (tr_callbacks v)"
      and sc: "same_client (let c = handle_transport_state_change now TS_Connecting ''Connecting'' (new_transport ?w) in
            if ok then c else handle_transport_state_change now TS_Failed msg c) v"
    show "yields (if \<not> ok then and_then (destroy_transport L Q now v) (\<lambda>s.
              Done (s\<lparr>ss_reconnect_deadline := now + unat (calculate_reconnect_delay_ms s)\<rparr>)) else Done v) (attempt_outcome now s)"
    proof (cases ok)
      case True
      then have v: "same_client (new_transport ?w) v"
        using sc w(1) by (simp add: reconnecting_connecting new_transport_fields)
      show ?thesis
        using True w by (simp add: attempt_outcome_def life_kept_def still_trying_def client_simps [OF v] new_transport_fields)
    next
      case False
      then have "yields (destroy_transport L Q now v) (failed_outcome ?w)"
        using sc by (intro failed_connection [OF w(1) cb]) (simp add: Let_def)
      then show ?thesis
        using False w by (auto simp: attempt_outcome_def failed_outcome_def life_kept_def still_trying_def given_up_def
            elim!: yields_mono)
    qed
  qed
  obtain u where u: "tear_down L Q now a = Done u" "\<not> ss_transport u" "same_life a u"
    using yieldsE [OF tear_down_session [of L Q now a]] by blast
  show ?thesis
    using tail [OF u(2,3)] by (simp only: attempt_reconnect_def Let_def if_not_P [OF af(4)] u(1) and_then.simps flip: a_def)
qed

text \<open>Rounds of the session thread, each some time after the deadline of the reconnection.\<close>

fun late_rounds :: "'h opus_lib \<Rightarrow> environment \<Rightarrow> (nat \<Rightarrow> SubscribeParam list) \<Rightarrow> nat list \<Rightarrow> 'h Session
    \<Rightarrow> 'h Session outcome option" where
  "late_rounds L Q P [] s = Some (Done s)"
| "late_rounds L Q P (w # ws) s =
     then_maybe (session_round L Q P (ss_reconnect_deadline s + w) s) (late_rounds L Q P ws)"

lemma attempt_refused:
  assumes "refuses_open Q" and "ss_reconnect_attempt s < sc_max_reconnect_attempts (ss_config s)"
  shows "allows (attempt_reconnect L Q now s) (\<lambda>s'. \<not> ss_transport s')"
proof -
  have d: "allows (destroy_transport L Q now v) (\<lambda>s'. \<not> ss_transport s')" for v
    by (rule yields_allows [OF yields_mono [OF destroy_transport_session]]) simp
  have c: "allows (connect_new L Q now w) (\<lambda>(ok, v). \<not> ok)" for w
    by (rule connect_new_refused [OF assms(1)])
  have "\<not> sc_max_reconnect_attempts (ss_config s) < ss_reconnect_attempt s + 1"
    using assms(2) by (simp add: inc_le not_less)
  then show ?thesis
    by (auto simp: attempt_reconnect_def Let_def d intro!: allowsI [of "tear_down _ _ _ _"] allows_mono [OF c])
qed

lemma refused_round:
  assumes "refuses_open Q" and "ss_reconnecting s"
    and "ss_reconnect_attempt s < sc_max_reconnect_attempts (ss_config s)"
  shows "\<exists>s'. session_round L Q P (ss_reconnect_deadline s + w) s = Some (Done s') \<and> \<not> ss_transport s'
    \<and> attempt_outcome (ss_reconnect_deadline s + w) s s'"
proof -
  obtain s' where s': "attempt_reconnect L Q (ss_reconnect_deadline s + w) s = Done s'"
    "attempt_outcome (ss_reconnect_deadline s + w) s s'"
    using attempt_reconnect_session [OF assms(2,3)] by (rule yieldsE)
  have "\<not> ss_transport s'"
    using allowsD [OF attempt_refused [OF assms(1,3)] s'(1)] by simp
  then show ?thesis
    using s' assms(2) by (simp add: session_round_def reconnect_due_def)
qed

text \<open>When the QUIC library cannot be opened, exactly as many late rounds of the
  session thread as there are attempts left, however late, bring the session out of reconnecting. The
  attempts are used up and the host is told of the failure; the state the session ends in is Disconnected (the transport
  that is destroyed last announces it), with the session thread still running.\<close>

theorem reconnect_refused_ends:
  assumes "refuses_open Q" and "ss_reconnecting s" and "ws \<noteq> []"
    and "unat (ss_reconnect_attempt s) + length ws = unat (sc_max_reconnect_attempts (ss_config s))"
  shows "\<exists>s'. late_rounds L Q P ws s = Some (Done s') \<and> given_up s s'
    \<and> ss_reconnect_attempt s' = sc_max_reconnect_attempts (ss_config s)
    \<and> ss_session_running s' = ss_session_running s \<and> ss_session_thread s' = ss_session_thread s"
  using assms(2-4)
proof (induction ws arbitrary: s)
  case (Cons w ws)
  have less: "ss_reconnect_attempt s < sc_max_reconnect_attempts (ss_config s)"
    using Cons.prems(3) by (simp add: word_less_nat_alt)
  obtain u where u: "session_round L Q P (ss_reconnect_deadline s + w) s = Some (Done u)" "\<not> ss_transport u"
    "attempt_outcome (ss_reconnect_deadline s + w) s u"
    using refused_round [OF assms(1) Cons.prems(1) less] by blast
  have k: "life_kept s u"
    using u(3) by (simp add: attempt_outcome_def)
  have "unat (ss_reconnect_attempt s + 1) = unat (ss_reconnect_attempt s) + 1"
    using less unsigned_less [of "sc_max_reconnect_attempts (ss_config s)", where 'a = nat]
    by (simp add: word_less_nat_alt unat_word_ariths)
  then have a: "unat (ss_reconnect_attempt u) = unat (ss_reconnect_attempt s) + 1"
    using k by (simp add: life_kept_def)
  show ?case
  proof (cases "ws = []")
    case True
    then have "ss_reconnect_attempt u = sc_max_reconnect_attempts (ss_config s)"
      using a Cons.prems(3) by (simp add: word_unat_eq_iff)
    then show ?thesis
      using True u k by (simp add: attempt_outcome_def life_kept_def)
  next
    case False
    then have l: "ss_reconnect_attempt u < sc_max_reconnect_attempts (ss_config s)"
      using a Cons.prems(3) by (cases ws) (simp_all add: word_less_nat_alt)
    then have t: "still_trying s u" "ss_config u = ss_config s"
      using u(2,3) k by (simp_all add: attempt_outcome_def life_kept_def)
    obtain s' where "late_rounds L Q P ws u = Some (Done s')" "given_up u s'"
      "ss_reconnect_attempt s' = sc_max_reconnect_attempts (ss_config u)"
      "ss_session_running s' = ss_session_running u" "ss_session_thread s' = ss_session_thread u"
      using Cons.IH [of u] t a False Cons.prems(3) by (auto simp: still_trying_def)
    then show ?thesis
      using u(1) t k by (intro exI [of _ s']) (simp add: given_up_def still_trying_def life_kept_def)
  qed
qed simp

text \<open>A session with two attempts left whose QUIC library does not open.\<close>

definition lost_chat :: "nat Session" where
  "lost_chat = chat_session\<lparr>ss_config := chat_config\<lparr>sc_max_reconnect_attempts := 2, sc_status_callback := True\<rparr>,
     ss_state := CS_Reconnecting, ss_reconnecting := True, ss_session_running := True, ss_session_thread := True\<rparr>"

theorem reconnect_refused_ends_witness:
  "\<exists>s'. late_rounds counting_opus (\<lambda>cs c. c \<noteq> MsQuicOpen2) (\<lambda>_. []) [0, 30] lost_chat = Some (Done s')
    \<and> ss_status s' = [(CS_Failed, Some ''Reconnection failed''), (CS_Disconnected, Some ''Disconnected'')]
    \<and> ss_state s' = CS_Disconnected \<and> ss_session_running s'"
proof -
  have l: "ss_reconnecting lost_chat" "ss_status lost_chat = []" "sc_status_callback (ss_config lost_chat)"
    "ss_reconnect_attempt lost_chat = 0" "sc_max_reconnect_attempts (ss_config lost_chat) = 2" "ss_session_running lost_chat"
    by (simp_all add: lost_chat_def chat_session_def new_session_simps)
  show ?thesis
    using reconnect_refused_ends [of "\<lambda>cs c. c \<noteq> MsQuicOpen2" lost_chat "[0, 30]" counting_opus "\<lambda>_. []"] l
    by (auto simp: refuses_open_def given_up_def)
qed

section \<open>Connecting again\<close>

text \<open>When the QUIC library does not open, \<open>connect\<close> of a session that may reconnect leaves it Reconnecting
  with neither a transport nor a session thread to reconnect it, and every further \<open>connect\<close> is refused: only
  \<open>disconnect\<close> helps.\<close>

theorem connect_failure_is_stuck:
  assumes "refuses_open Q" and "ss_state s = CS_Disconnected \<or> ss_state s = CS_Failed"
    and "\<not> ss_session_running s" and "\<not> ss_session_thread s" and "\<not> ss_transport s"
    and "parse_url (sc_server_url (ss_config s)) (ss_parsed_host s) (ss_parsed_port s) = Done (True, host, port)"
    and "sc_max_reconnect_attempts (ss_config s) > 0"
  shows "\<exists>s'. session_connect L Q now s = Done s' \<and> ss_state s' = CS_Reconnecting \<and> ss_reconnecting s'
    \<and> \<not> ss_transport s' \<and> \<not> ss_session_running s' \<and> (\<forall>Q' now'. session_connect L Q' now' s' = Done s')"
proof -
  define r where "r = s\<lparr>ss_parsed_host := host, ss_parsed_port := port, ss_manual_disconnect := False,
      ss_reconnecting := False, ss_reconnect_attempt := 0, ss_total_reconnect_count := 0\<rparr>"
  have r: "\<not> ss_transport r" "sc_max_reconnect_attempts (ss_config r) > 0" "\<not> ss_manual_disconnect r"
    "\<not> ss_reconnecting r" "\<not> ss_session_running r"
    using assms by (simp_all add: r_def)
  obtain ok v where v: "connect_new L Q now r = Done (ok, v)"
    using yieldsE [OF connect_new_session [of L Q now r]] by (metis surj_pair)
  have "\<not> ok"
    using allowsD [OF connect_new_refused [OF assms(1)] v] by simp
  then obtain msg where c: "cb_on_state_changed (tr_callbacks v)"
    "same_client (handle_transport_state_change now TS_Failed msg
       (handle_transport_state_change now TS_Connecting ''Connecting'' (new_transport r))) v"
    using connect_new_session [of L Q now r] v by (auto simp: Let_def)
  have vf: "ss_transport v" "ss_reconnecting v" "ss_state v = CS_Reconnecting" "\<not> ss_session_running v"
    using r by (simp_all add: client_simps [OF c(2)] handle_transport_state_change_def notify_def new_transport_fields
        new_transport_def)
  obtain x where x: "destroy_transport L Q now v = Done x" "\<not> ss_transport x" "same_client (v\<lparr>ss_transport := False\<rparr>) x"
    using yieldsE [OF destroy_connected [OF vf(1) c(1), of L Q now]] vf(2) by (auto simp: ignored_disconnect)
  have "ss_state s \<noteq> CS_Connecting \<and> ss_state s \<noteq> CS_Connected \<and> ss_state s \<noteq> CS_Reconnecting"
    using assms(2) by auto
  moreover have "destroy_transport L Q now r = Done r"
    using r(1) by (simp add: destroy_transport_def)
  ultimately have "session_connect L Q now s = Done x"
    using assms(6) v \<open>\<not> ok\<close> x(1) by (simp add: session_connect_def flip: r_def)
  moreover have "ss_state x = CS_Reconnecting" "ss_reconnecting x" "\<not> ss_session_running x"
    using vf by (simp_all add: client_simps [OF x(3)])
  ultimately show ?thesis
    using x(2) by (simp add: session_connect_def)
qed

text \<open>\<open>connect\<close> of a session whose thread still runs, as it does after a reconnection cycle has failed, ends
  the program once msquic works again: the new thread object is assigned over the joinable old one.\<close>

theorem connect_over_thread_terminates:
  assumes "\<And>cs c. Q cs c" and "ss_state s = CS_Disconnected \<or> ss_state s = CS_Failed" and "ss_session_thread s"
    and "parse_url (sc_server_url (ss_config s)) (ss_parsed_host s) (ss_parsed_port s) = Done (True, host, port)"
  shows "session_connect L Q now s = Crash Terminated"
proof -
  define r where "r = s\<lparr>ss_parsed_host := host, ss_parsed_port := port, ss_manual_disconnect := False,
      ss_reconnecting := False, ss_reconnect_attempt := 0, ss_total_reconnect_count := 0\<rparr>"
  have r: "ss_session_thread r"
    using assms by (simp add: r_def)
  obtain u where u: "destroy_transport L Q now r = Done u" "ss_session_thread u"
    using destroy_transport_thread [of L Q now r] r by (auto elim: yieldsE)
  obtain ok v where v: "connect_new L Q now u = Done (ok, v)"
    using yieldsE [OF connect_new_session [of L Q now u]] by (metis surj_pair)
  have "ok"
    using allowsD [OF connect_new_accepted v] assms(1) by simp
  then have "ss_session_thread v"
    using connect_new_session [of L Q now u] v u(2)
    by (auto dest!: same_client_session(8) simp: handle_state_change_fields new_transport_fields)
  moreover have "ss_state s \<noteq> CS_Connecting \<and> ss_state s \<noteq> CS_Connected \<and> ss_state s \<noteq> CS_Reconnecting"
    using assms(2) by auto
  ultimately show ?thesis
    using assms(4) u(1) v \<open>ok\<close> by (simp add: session_connect_def start_session_thread_def flip: r_def)
qed

theorem connect_failure_is_stuck_witness:
  "\<exists>s'. session_connect counting_opus (\<lambda>cs c. c \<noteq> MsQuicOpen2) 0 (chat_session :: nat Session) = Done s'
    \<and> ss_state s' = CS_Reconnecting \<and> (\<forall>now'. session_connect counting_opus all_well now' s' = Done s')"
proof -
  let ?s = "chat_session :: nat Session"
  have c: "ss_state ?s = CS_Disconnected" "\<not> ss_session_running ?s" "\<not> ss_session_thread ?s" "\<not> ss_transport ?s"
    "sc_server_url (ss_config ?s) = [0x68]" "sc_max_reconnect_attempts (ss_config ?s) = 10"
    "ss_parsed_host ?s = []" "ss_parsed_port ?s = 443"
    by (simp_all add: chat_session_def new_session_simps chat_config_def default_SessionConfig_def)
  have "refuses_open (\<lambda>cs c. c \<noteq> MsQuicOpen2)"
    by (simp add: refuses_open_def)
  from connect_failure_is_stuck [OF this _ c(2,3,4), of "[0x68]" 443 counting_opus 0] show ?thesis
    using c(1,5-8) by (auto simp: parse_url_chat)
qed

theorem connect_over_thread_terminates_witness:
  "session_connect counting_opus (\<lambda>_ _. True) 0 ((chat_session :: nat Session)\<lparr>ss_session_running := True, ss_session_thread := True\<rparr>)
    = Crash Terminated"
  by (rule connect_over_thread_terminates [where host = "[0x68]" and port = 443])
    (simp_all add: chat_session_def new_session_simps chat_config_def default_SessionConfig_def parse_url_chat)

theorem disconnect_completes_witness:
  "\<exists>s'. session_disconnect counting_opus all_well 0 connecting_chat = Done s' \<and> ss_state s' = CS_Disconnected
    \<and> handles_of s' = [] \<and> forgotten s'"
  using disconnect_completes [OF sr_connect [OF session_reach_chat connect_chat(1)], of 0 0] connect_chat(2)
  by auto

end
