(* ===== verification/DataPath.thy ===== *)
theory DataPath
  imports Subscription
begin

text \<open>
  Data tracks end to end: what the SUBSCRIBE\_OK of the server makes of a request, what the datagrams of
  a subscribed track do, and what \<open>send_data\<close> puts on the wire. Properties: a subscribed data track
  delivers its datagrams to the host, and what one session sends another receives.
\<close>

section \<open>Receiving\<close>

lemma deref_update_other: "deref p (s\<lparr>ss_inbound_alias_map := m\<rparr>) = deref p s"
  by (simp add: deref_def)

lemma on_subscribe_ok_bound:
  assumes "parse_subscribe_ok content = Done r" and "ss_request_id_map s (okr_request_id r) = Some p"
    and "deref p s = Done t"
  shows "\<exists>s'. on_subscribe_ok content s = Done s' \<and> ss_inbound_alias_map s' (okr_track_alias r) = Some p
    \<and> deref p s' = Done (t\<lparr>th_moq_track_alias := okr_track_alias r\<rparr>) \<and> ss_config s' = ss_config s
    \<and> ss_data_received s' = ss_data_received s \<and> tr_callbacks s' = tr_callbacks s"
  using deref_update [OF assms(3), of "\<lambda>t. t\<lparr>th_moq_track_alias := okr_track_alias r\<rparr>"] deref_Done [OF assms(3)] assms
  by (simp add: on_subscribe_ok_def on_parsed_def deref_update_other) (simp add: update_track_def)

lemma receive_data:
  assumes "parse_object_datagram raw = Done dg" and "ss_inbound_alias_map s (dg_track_alias dg) = Some p"
    and "deref p s = Done t" and "cfg_type (th_config t) = TT_Data" and "sc_data_recv_callback (ss_config s)"
    and "cb_on_datagram (tr_callbacks s)" and "dg_payload dg \<noteq> []"
  shows "\<exists>s'. on_connection_event Q (session_handler L Q now) (CE_DatagramReceived raw) s = Done s'
    \<and> ss_data_received s' = ss_data_received s @ [(p, dg_payload dg)]"
proof -
  have "deref p (s\<lparr>tr_events := tr_events s @ [DatagramObject dg]\<rparr>) = Done t"
    using assms(3) by (simp add: deref_def)
  then show ?thesis
    using assms by (simp add: on_connection_event_def fire_def session_handler_def on_datagram_def dispatch_data_datagram_def)
qed

text \<open>C13: the server's SUBSCRIBE\_OK for a request of a data track binds the alias it names to the track: each
  non-empty datagram with this alias that arrives then reaches the host's data callback, with the track
  and the payload as sent.\<close>

theorem subscription_delivers:
  assumes "ss_request_id_map s (okc_request_id c) = Some p" and "deref p s = Done t"
    and "cfg_type (th_config t) = TT_Data" and "sc_data_recv_callback (ss_config s)" and "cb_on_datagram (tr_callbacks s)"
    and "okc_request_id c \<le> varint_max" and "okc_track_alias c \<le> varint_max" and "okc_expires_ms c \<le> varint_max"
    and "okc_largest_group_id c \<le> varint_max" and "okc_largest_object_id c \<le> varint_max"
    and "fits_i32 (subscribe_ok_content c)" and "g \<le> varint_max" and "ob \<le> varint_max" and "payload \<noteq> []"
  shows "\<exists>s1 s2. handle_control_message Q (type_code MT_SubscribeOk) (subscribe_ok_content c) s = Done s1
    \<and> and_then (build_object_datagram (okc_track_alias c) g ob pr (Some payload) (int (length payload)))
        (\<lambda>raw. on_connection_event Q (session_handler L Q now) (CE_DatagramReceived raw) s1) = Done s2
    \<and> ss_data_received s2 = ss_data_received s @ [(p, payload)]"
proof -
  obtain r where r: "parse_subscribe_ok (subscribe_ok_content c) = Done r" "okr_request_id r = okc_request_id c"
    "okr_track_alias r = okc_track_alias c"
    using parse_subscribe_ok_result [OF assms(6-11)] by simp
  obtain s1 where s1: "on_subscribe_ok (subscribe_ok_content c) s = Done s1"
    "ss_inbound_alias_map s1 (okc_track_alias c) = Some p" "deref p s1 = Done (t\<lparr>th_moq_track_alias := okc_track_alias c\<rparr>)"
    "ss_config s1 = ss_config s" "ss_data_received s1 = ss_data_received s" "tr_callbacks s1 = tr_callbacks s"
    using on_subscribe_ok_bound [OF r(1) _ assms(2)] assms(1) r(2,3) by auto
  have "handle_control_message Q (type_code MT_SubscribeOk) (subscribe_ok_content c) s = Done s1"
    using s1(1) by (simp add: handle_control_message_def type_of_code_def)
  moreover obtain s2 where "on_connection_event Q (session_handler L Q now)
      (CE_DatagramReceived (object_datagram_header (okc_track_alias c) g ob pr @ payload)) s1 = Done s2"
    "ss_data_received s2 = ss_data_received s1 @ [(p, payload)]"
    using receive_data [OF parse_object_datagram_header [OF assms(7,12,13)] _ s1(3), of pr payload Q L now] s1 assms(3-5,14)
    by auto
  ultimately show ?thesis
    using s1(5) by (simp add: build_object_datagram_eq)
qed

text \<open>The example's session with its first request sent.\<close>

definition requesting_chat :: "nat Session" where
  "requesting_chat = chat_session\<lparr>ss_request_id_map := [0 \<mapsto> 0], tr_callbacks := session_callbacks\<rparr>"

lemma requesting_chat:
  "deref 0 requesting_chat = Done chat_track" "cfg_type (th_config (chat_track :: nat TrackHandle)) = TT_Data"
  "ss_request_id_map requesting_chat 0 = Some 0" "sc_data_recv_callback (ss_config requesting_chat)"
  "cb_on_datagram (tr_callbacks requesting_chat)" "ss_data_received requesting_chat = []"
  by (simp_all add: requesting_chat_def chat_session_def chat_track_def new_TrackHandle_def default_TrackConfig_def
      deref_def chat_config_def session_callbacks_def new_session_simps)

theorem subscription_delivers_witness:
  "\<exists>s1 s2. handle_control_message all_well 4 (subscribe_ok_content (default_SubscribeOkConfig\<lparr>okc_track_alias := 5\<rparr>))
      requesting_chat = Done s1
    \<and> and_then (build_object_datagram 5 0 1 128 (Some [1, 2, 3]) 3)
        (\<lambda>raw. on_connection_event all_well (session_handler counting_opus all_well 0) (CE_DatagramReceived raw) s1) = Done s2
    \<and> ss_data_received s2 = [(0, [1, 2, 3])]"
proof -
  let ?c = "default_SubscribeOkConfig\<lparr>okc_track_alias := 5\<rparr>"
  have "length (subscribe_ok_content ?c) \<le> 63"
    by code_simp
  then have "fits_i32 (subscribe_ok_content ?c)"
    by (simp add: fits_i32_def i32_max_def)
  then show ?thesis
    using subscription_delivers [of requesting_chat ?c 0 chat_track 0 1 "[1, 2, 3]" all_well 128 counting_opus 0] requesting_chat
    by (simp add: default_SubscribeOkConfig_def varint_max_def type_code.simps)
qed

section \<open>Sending\<close>

text \<open>The datagrams msquic accepted.\<close>

fun datagram_data :: "sys_call \<times> bool \<Rightarrow> bytes option" where
  "datagram_data (DatagramSend block data, True) = Some data"
| "datagram_data _ = None"

definition datagram_contents :: "'z Transport_scheme \<Rightarrow> bytes list" where
  "datagram_contents t = List.map_filter datagram_data (tr_calls t)"

definition can_send_datagrams :: "'z Transport_scheme \<Rightarrow> bool" where
  "can_send_datagrams t \<longleftrightarrow> TS_Connected \<le> tr_current_state t \<and> tr_msquic t \<and> tr_connection t"

lemma send_datagram_all_well:
  assumes "can_send_datagrams t" and "len \<noteq> 0" and "unat len \<le> length data"
  shows "yields (send_datagram all_well data len t)
    (\<lambda>(ok, t'). ok \<and> same_client t t' \<and> can_send_datagrams t'
      \<and> datagram_contents t' = datagram_contents t @ [take (unat len) data])"
proof -
  have "\<not> tr_current_state t < TS_Connected"
    using assms(1) by (simp add: can_send_datagrams_def not_less)
  then show ?thesis
    using assms by (simp add: send_datagram_def send_datagram_impl_def can_send_datagrams_def malloc_def sys_def all_well_def
        mem_read_Done datagram_contents_def List.map_filter_def same_client_def Let_def)
qed

lemma datagram_contents_update [simp]:
  "datagram_contents (update_track p f s) = datagram_contents s"
  "can_send_datagrams (update_track p f s) = can_send_datagrams s"
  by (simp_all add: update_track_def datagram_contents_def can_send_datagrams_def)

lemma unat_of_nat_u32: "n < 4294967296 \<Longrightarrow> unat (of_nat n :: u32) = n"
  by (simp add: unsigned_of_nat take_bit_nat_eq_self)

lemma of_nat_u32_nonzero: "0 < n \<Longrightarrow> n < 4294967296 \<Longrightarrow> (of_nat n :: u32) \<noteq> 0"
  using unat_of_nat_u32 [of n] by (metis neq0_conv unsigned_0)

text \<open>A built datagram goes out whole.\<close>

lemma send_datagram_whole:
  assumes "can_send_datagrams t" and "data \<noteq> []" and "length data < 4294967296"
  shows "yields (send_datagram all_well data (of_nat (length data)) t)
    (\<lambda>(ok, t'). ok \<and> same_client t t' \<and> can_send_datagrams t' \<and> datagram_contents t' = datagram_contents t @ [data])"
  using send_datagram_all_well [OF assms(1) of_nat_u32_nonzero, of "length data" data] assms(2,3)
  by (simp add: unat_of_nat_u32)

lemma length_header_bounds:
  "object_datagram_header a g ob pr \<noteq> []" "length xs < 2147483648 \<Longrightarrow> length (object_datagram_header a g ob pr @ xs) < 4294967296"
  using length_object_datagram_header [of a g ob pr] by (auto simp: object_datagram_header_def)

lemma send_data_datagram:
  assumes "deref p s = Done t" and "cfg_type (th_config t) = TT_Data" and "th_moq_track_alias t \<noteq> 0"
    and "ss_state s = CS_Connected" and "ss_transport s" and "can_send_datagrams s" and "length data < 2147483648"
  shows "yields (send_data all_well (Some p) (Some data) (of_nat (length data)) s)
    (\<lambda>s'. deref p s' = Done (t\<lparr>th_next_object_id := th_next_object_id t + 1\<rparr>)
      \<and> datagram_contents s' = datagram_contents s
          @ [object_datagram_header (th_moq_track_alias t) (th_next_group_id t) (th_next_object_id t) 128 @ data])"
proof -
  let ?u = "update_track p (\<lambda>t. t\<lparr>th_next_object_id := th_next_object_id t + 1\<rparr>) s"
  let ?dg = "object_datagram_header (th_moq_track_alias t) (th_next_group_id t) (th_next_object_id t) 128 @ data"
  have l: "sint (of_nat (length data) :: u32) = int (length data)"
    using assms(7) sint_u32_small [of "of_nat (length data)"] by (simp add: unat_of_nat_u32)
  have u: "deref p ?u = Done (t\<lparr>th_next_object_id := th_next_object_id t + 1\<rparr>)"
    using deref_update [OF assms(1), of "\<lambda>t. t\<lparr>th_next_object_id := th_next_object_id t + 1\<rparr>"] deref_Done [OF assms(1)] by simp
  have "send_data all_well (Some p) (Some data) (of_nat (length data)) s
      = and_then (send_datagram all_well ?dg (of_nat (length ?dg)) ?u) (\<lambda>(ok, s). Done s)"
    using assms(1-5) by (simp add: send_data_def Let_def l build_object_datagram_eq del: length_append)
  moreover have "yields (send_datagram all_well ?dg (of_nat (length ?dg)) ?u)
      (\<lambda>(ok, s'). same_client ?u s' \<and> datagram_contents s' = datagram_contents s @ [?dg])"
    by (rule yields_mono [OF send_datagram_whole]) (use assms(6,7) length_header_bounds in auto)
  ultimately show ?thesis
    using u by (auto simp: deref_client elim!: yields_mono)
qed

text \<open>C11: what \<open>send_data\<close> of a connected session puts on the wire is one datagram, numbered by the track's object id,
  and a session whose data track is subscribed under the same alias hands its host exactly the bytes that were sent.\<close>

theorem data_sent_is_received:
  assumes "deref p s = Done t" and "cfg_type (th_config t) = TT_Data" and "th_moq_track_alias t \<noteq> 0"
    and "ss_state s = CS_Connected" and "ss_transport s" and "can_send_datagrams s"
    and "data \<noteq> []" and "length data < 2147483648"
    and "th_moq_track_alias t \<le> varint_max" and "th_next_group_id t \<le> varint_max" and "th_next_object_id t \<le> varint_max"
    and "ss_inbound_alias_map r (th_moq_track_alias t) = Some q" and "deref q r = Done u" and "cfg_type (th_config u) = TT_Data"
    and "sc_data_recv_callback (ss_config r)" and "cb_on_datagram (tr_callbacks r)"
  shows "\<exists>s' raw r'. send_data all_well (Some p) (Some data) (of_nat (length data)) s = Done s'
    \<and> datagram_contents s' = datagram_contents s @ [raw]
    \<and> deref p s' = Done (t\<lparr>th_next_object_id := th_next_object_id t + 1\<rparr>)
    \<and> on_connection_event Q (session_handler L Q now) (CE_DatagramReceived raw) r = Done r'
    \<and> ss_data_received r' = ss_data_received r @ [(q, data)]"
proof -
  let ?raw = "object_datagram_header (th_moq_track_alias t) (th_next_group_id t) (th_next_object_id t) 128 @ data"
  obtain s' where "send_data all_well (Some p) (Some data) (of_nat (length data)) s = Done s'"
    "deref p s' = Done (t\<lparr>th_next_object_id := th_next_object_id t + 1\<rparr>)"
    "datagram_contents s' = datagram_contents s @ [?raw]"
    using yieldsE [OF send_data_datagram [OF assms(1-6,8)]] by blast
  moreover obtain r' where "on_connection_event Q (session_handler L Q now) (CE_DatagramReceived ?raw) r = Done r'"
    "ss_data_received r' = ss_data_received r @ [(q, data)]"
    using receive_data [OF parse_object_datagram_header [OF assms(9-11)] _ assms(13-16), of 128 data Q L now] assms(7,12) by auto
  ultimately show ?thesis
    by blast
qed

text \<open>The example's track as a sender: connected and with the alias 5, and as a receiver under the same alias.\<close>

definition talking_chat :: "nat Session" where
  "talking_chat = chat_session\<lparr>ss_tracks := [chat_track\<lparr>th_moq_track_alias := 5\<rparr>], ss_inbound_alias_map := [5 \<mapsto> 0],
     ss_state := CS_Connected, ss_transport := True, tr_current_state := TS_Ready, tr_msquic := True, tr_connection := True,
     tr_callbacks := session_callbacks\<rparr>"

theorem data_sent_is_received_witness:
  "\<exists>s' raw r'. send_data all_well (Some 0) (Some [1, 2]) 2 talking_chat = Done s'
    \<and> datagram_contents s' = [raw]
    \<and> on_connection_event all_well (session_handler counting_opus all_well 0) (CE_DatagramReceived raw) talking_chat = Done r'
    \<and> ss_data_received r' = [(0, [1, 2])]"
proof -
  let ?t = "chat_track\<lparr>th_moq_track_alias := 5\<rparr> :: nat TrackHandle"
  have t: "deref 0 talking_chat = Done ?t" "cfg_type (th_config ?t) = TT_Data" "th_moq_track_alias ?t = 5"
    "th_next_group_id ?t = 0" "th_next_object_id ?t = 0" "ss_state talking_chat = CS_Connected" "ss_transport talking_chat"
    "can_send_datagrams talking_chat" "ss_inbound_alias_map talking_chat 5 = Some 0" "sc_data_recv_callback (ss_config talking_chat)"
    "cb_on_datagram (tr_callbacks talking_chat)" "ss_data_received talking_chat = []" "datagram_contents talking_chat = []"
    by (simp_all add: talking_chat_def chat_session_def chat_track_def new_TrackHandle_def default_TrackConfig_def deref_def
        chat_config_def session_callbacks_def new_session_simps can_send_datagrams_def less_eq_TransportState_def
        datagram_contents_def List.map_filter_def)
  show ?thesis
    using data_sent_is_received [OF t(1,2) _ t(6,7,8), of "[1, 2]" talking_chat 0 ?t all_well counting_opus 0] t
    by (auto simp: varint_max_def)
qed

end
