(* ===== verification/SessionAudio.thy ===== *)
theory SessionAudio
  imports DataPath
begin

text \<open>
  The PCM sender: what the session thread makes of the samples the host wrote to the ring buffer of an
  outbound track. Lemmas: one round of the loop sends one datagram with one frame. Properties: the loop
  sends every whole frame, in order, and ends; with a frame of no samples it never does.
\<close>

section \<open>A track that sends PCM\<close>

definition queued :: "'h TrackHandle \<Rightarrow> sample list" where
  "queued t = rb_content (the (th_ring_buffer t))"

definition frame_floats :: "u32 \<Rightarrow> 'h TrackHandle \<Rightarrow> nat" where
  "frame_floats frame_size t = unat frame_size * unat (cfg_channels (th_config t))"

text \<open>The buffers as \<open>configure\<close> sizes them, for frames whose bytes can be counted in 32 bits.\<close>

definition pcm_sender :: "u32 \<Rightarrow> 'h TrackHandle \<Rightarrow> bool" where
  "pcm_sender frame_size t \<longleftrightarrow>
     (\<exists>r. th_ring_buffer t = Some r \<and> rb_ok r \<and> rb_channels r = cfg_channels (th_config t)) \<and>
     length (th_pcm_read_buffer t) = frame_floats frame_size t \<and>
     length (th_encode_output_buffer t) = 4 * frame_floats frame_size t \<and>
     length (th_datagram_buffer t) = 34 + 4 * frame_floats frame_size t \<and>
     34 + 4 * frame_floats frame_size t < 4294967296"

lemma frame_ready_spec:
  assumes "deref p s = Done t" and "pcm_sender n t"
  shows "frame_ready p n s = Done (frame_floats n t \<le> length (queued t))"
proof -
  obtain r where r: "th_ring_buffer t = Some r" "rb_ok r" "rb_channels r = cfg_channels (th_config t)"
    using assms(2) by (auto simp: pcm_sender_def)
  have "0 < unat (rb_channels r)"
    by (rule rb_ok_channels [OF r(2)])
  then show ?thesis
    using assms(1) r by (simp add: frame_ready_def rb_read_available_def u32_div_Done word_le_nat_alt unat_div_distrib
        less_eq_div_iff_mult_less_eq frame_floats_def queued_def)
qed

lemma mem_write_all: "length xs = length blk \<Longrightarrow> mem_write blk 0 xs = Done xs"
  by (simp add: mem_write_def)

text \<open>The track after the frame has been taken from the ring.\<close>

lemma take_frame_spec:
  assumes "deref p s = Done t" and "pcm_sender n t" and "frame_floats n t \<le> length (queued t)"
  shows "\<exists>r. rb_ok r \<and> rb_channels r = cfg_channels (th_config t) \<and> rb_content r = drop (frame_floats n t) (queued t)
    \<and> take_frame p n s = Done (t\<lparr>th_ring_buffer := Some r, th_pcm_read_buffer := take (frame_floats n t) (queued t)\<rparr>,
        update_track p (\<lambda>_. t\<lparr>th_ring_buffer := Some r, th_pcm_read_buffer := take (frame_floats n t) (queued t)\<rparr>) s)"
proof -
  obtain r0 where r0: "th_ring_buffer t = Some r0" "rb_ok r0" "rb_channels r0 = cfg_channels (th_config t)"
    using assms(2) by (auto simp: pcm_sender_def)
  have m: "unat n * unat (rb_channels r0) = frame_floats n t" and q: "rb_content r0 = queued t"
    using r0 by (simp_all add: frame_floats_def queued_def)
  have "frame_floats n t < 4294967296"
    using assms(2) by (simp add: pcm_sender_def)
  from rb_read_spec [OF r0(2), of n, unfolded m q, OF this] obtain k r where r: "rb_ok r" "rb_shape r = rb_shape r0"
    "rb_content r = drop (frame_floats n t) (queued t)" "rb_read n r0 = Done (take (frame_floats n t) (queued t), k, r)"
    by blast
  have "mem_write (th_pcm_read_buffer t) 0 (take (frame_floats n t) (queued t)) = Done (take (frame_floats n t) (queued t))"
    using assms(2,3) by (intro mem_write_all) (simp add: pcm_sender_def)
  then show ?thesis
    using r r0(1,3) assms(1) by (intro exI [of _ r]) (simp add: take_frame_def rb_shape_def Let_def)
qed

section \<open>One round\<close>

lemma update_track_transport: "ss_transport (update_track p f s) = ss_transport s"
  by (simp add: update_track_def)

text \<open>Sending the first \<open>n\<close> bytes of the output buffer.\<close>

lemma send_frame_spec:
  assumes "deref p s = Done t" and "ss_transport s" and "can_send_datagrams s"
    and "n = length (th_encode_output_buffer t)" and "length (th_datagram_buffer t) = 34 + n" and "34 + n < 4294967296"
  shows "yields (send_frame all_well p n s) (\<lambda>s'. ss_transport s' \<and> can_send_datagrams s'
    \<and> datagram_contents s' = datagram_contents s
        @ [object_datagram_header (th_moq_track_alias t) (th_next_group_id t) (th_next_object_id t) 128 @ th_encode_output_buffer t]
    \<and> (\<exists>buf. length buf = length (th_datagram_buffer t)
        \<and> deref p s' = Done (t\<lparr>th_datagram_buffer := buf, th_next_object_id := th_next_object_id t + 1\<rparr>)))"
proof -
  let ?h = "object_datagram_header (th_moq_track_alias t) (th_next_group_id t) (th_next_object_id t) 128"
  let ?o = "th_encode_output_buffer t"
  define b where "b = ?h @ ?o @ drop (length ?h + n) (th_datagram_buffer t)"
  define u where "u = update_track p (\<lambda>t. t\<lparr>th_datagram_buffer := b\<rparr>) s"
  have hl: "length ?h \<le> 26" "0 < length ?h"
    using length_object_datagram_header length_header_bounds(1) by simp_all
  have head: "build_object_datagram_header (th_moq_track_alias t) (th_next_group_id t) (th_next_object_id t) 128
      (th_datagram_buffer t) = Done (?h @ drop (length ?h) (th_datagram_buffer t), length ?h)"
    using hl assms(5) by (simp add: build_object_datagram_header_def mem_write_def Let_def)
  have pay: "mem_read ?o 0 n = Done ?o"
    using assms(4) by (simp add: mem_read_def)
  have body: "mem_write (?h @ drop (length ?h) (th_datagram_buffer t)) (length ?h) ?o = Done b"
    using hl assms(4,5) by (simp add: mem_write_def add.commute b_def)
  have len: "length b = length (th_datagram_buffer t)"
    using hl assms(4,5) by (simp add: b_def)
  have u: "deref p u = Done (t\<lparr>th_datagram_buffer := b\<rparr>)" "ss_transport u"
    using deref_update [OF assms(1), of "\<lambda>t. t\<lparr>th_datagram_buffer := b\<rparr>"] deref_Done [OF assms(1)] assms(2)
    by (simp_all add: u_def update_track_transport)
  have nxt: "deref p (update_track p (\<lambda>t. t\<lparr>th_next_object_id := th_next_object_id t + 1\<rparr>) v)
      = Done (t\<lparr>th_datagram_buffer := b, th_next_object_id := th_next_object_id t + 1\<rparr>)" if "same_client u v" for v
    using deref_update [of p v "t\<lparr>th_datagram_buffer := b\<rparr>" "\<lambda>t. t\<lparr>th_next_object_id := th_next_object_id t + 1\<rparr>"]
      deref_client [OF that] u deref_Done [OF u(1)] by simp
  have snd: "yields (send_datagram all_well b (of_nat (length ?h + n)) u) (\<lambda>(ok, v). same_client u v
      \<and> can_send_datagrams v \<and> datagram_contents v = datagram_contents s @ [?h @ ?o])"
  proof -
    have c: "length ?h + n < 4294967296" "0 < length ?h + n" "length ?h + n \<le> length b"
      using hl assms(5,6) len by linarith+
    note k = unat_of_nat_u32 [OF c(1)] of_nat_u32_nonzero [OF c(2,1)]
    have "can_send_datagrams u"
      using assms(3) by (simp add: u_def)
    from send_datagram_all_well [OF this k(2), unfolded k, OF c(3)] show ?thesis
      using assms(4) by (auto simp: b_def u_def elim!: yields_mono)
  qed
  have "send_frame all_well p n s = and_then (send_datagram all_well b (of_nat (length ?h + n)) u)
      (\<lambda>(ok, s). Done (update_track p (\<lambda>t. t\<lparr>th_next_object_id := th_next_object_id t + 1\<rparr>) s))"
    by (simp only: send_frame_def assms(1) and_then.simps prod.case head pay body Let_def u(2) not_True_eq_False if_False
        flip: u_def)
  then show ?thesis
    by (simp only: yields_simps, intro yields_mono [OF snd])
      (use nxt len u(2) in \<open>auto simp: same_client_session(6) update_track_transport\<close>)
qed

text \<open>The datagram of a frame: the header with the track's numbers and the bytes of the samples.\<close>

definition pcm_datagram :: "'h TrackHandle \<Rightarrow> u64 \<Rightarrow> sample list \<Rightarrow> bytes" where
  "pcm_datagram t object_id xs =
     object_datagram_header (th_moq_track_alias t) (th_next_group_id t) object_id 128 @ concat (map le4 xs)"

text \<open>What \<open>k\<close> rounds of the loop have done to a track and to the datagrams sent.\<close>

definition track_after :: "nat \<Rightarrow> u32 \<Rightarrow> 'h TrackHandle \<Rightarrow> 'h TrackHandle \<Rightarrow> bool" where
  "track_after k n t t' \<longleftrightarrow>
     pcm_sender n t' \<and> th_config t' = th_config t \<and> th_moq_track_alias t' = th_moq_track_alias t \<and>
     th_next_group_id t' = th_next_group_id t \<and> th_next_object_id t' = th_next_object_id t + of_nat k \<and>
     queued t' = drop (k * frame_floats n t) (queued t)"

definition frames_sent :: "nat \<Rightarrow> nat \<Rightarrow> u32 \<Rightarrow> 'h TrackHandle \<Rightarrow> 'h Session \<Rightarrow> 'h Session \<Rightarrow> bool" where
  "frames_sent p k n t s s' \<longleftrightarrow>
     ss_transport s' \<and> can_send_datagrams s' \<and> (\<exists>t'. deref p s' = Done t' \<and> track_after k n t t') \<and>
     datagram_contents s' = datagram_contents s
       @ map (\<lambda>i. pcm_datagram t (th_next_object_id t + of_nat i)
            (take (frame_floats n t) (drop (i * frame_floats n t) (queued t)))) [0..<k]"

lemma pcm_round_spec:
  assumes "deref p s = Done t" and "pcm_sender n t" and "frame_floats n t \<le> length (queued t)"
    and "ss_transport s" and "can_send_datagrams s"
  shows "yields (pcm_round all_well p n s) (\<lambda>s'. ss_transport s' \<and> can_send_datagrams s'
    \<and> datagram_contents s' = datagram_contents s @ [pcm_datagram t (th_next_object_id t) (take (frame_floats n t) (queued t))]
    \<and> (\<exists>t'. deref p s' = Done t' \<and> track_after 1 n t t'))"
proof -
  let ?m = "frame_floats n t"
  define xs where "xs = take ?m (queued t)"
  have xs: "length xs = ?m"
    using assms(3) by (simp add: xs_def)
  obtain r where r: "rb_ok r" "rb_channels r = cfg_channels (th_config t)" "rb_content r = drop ?m (queued t)"
    "take_frame p n s = Done (t\<lparr>th_ring_buffer := Some r, th_pcm_read_buffer := xs\<rparr>,
        update_track p (\<lambda>_. t\<lparr>th_ring_buffer := Some r, th_pcm_read_buffer := xs\<rparr>) s)"
    using take_frame_spec [OF assms(1-3)] unfolding xs_def by blast
  define t1 where "t1 = t\<lparr>th_ring_buffer := Some r, th_pcm_read_buffer := xs\<rparr>"
  define s1 where "s1 = update_track p (\<lambda>_. t1) s"
  define out where "out = concat (map le4 xs)"
  have out: "length out = 4 * ?m"
    by (simp only: out_def length_le4s xs)
  have lens: "length (th_encode_output_buffer t) = 4 * ?m" "length (th_datagram_buffer t) = 34 + 4 * ?m" "34 + 4 * ?m < 4294967296"
    using assms(2) by (simp_all add: pcm_sender_def)
  obtain k where k: "unat k = 4 * ?m"
    "pcm_frame xs n (cfg_channels (th_config t)) (th_encode_output_buffer t) = Done (k, out)"
    using pcm_frame_Done [of n "cfg_channels (th_config t)" xs "th_encode_output_buffer t"] lens xs
    by (auto simp: out_def frame_floats_def)
  define s2 where "s2 = update_track p (\<lambda>t. t\<lparr>th_encode_output_buffer := out\<rparr>) s1"
  define t2 where "t2 = t1\<lparr>th_encode_output_buffer := out\<rparr>"
  have s1: "deref p s1 = Done t1"
    using deref_update [OF assms(1), of "\<lambda>_. t1"] deref_Done [OF assms(1)] by (simp add: s1_def t1_def)
  then have s2: "deref p s2 = Done t2"
    using deref_update [OF s1, of "\<lambda>t. t\<lparr>th_encode_output_buffer := out\<rparr>"] deref_Done [OF s1] by (simp add: s2_def t2_def)
  have run: "pcm_round all_well p n s = send_frame all_well p (4 * ?m) s2"
    using r(4) k by (simp add: pcm_round_def flip: t1_def s1_def s2_def) (simp add: t1_def flip: s2_def)
  have "ss_transport s2" "can_send_datagrams s2" "datagram_contents s2 = datagram_contents s"
    using assms(4,5) by (simp_all add: s1_def s2_def update_track_transport)
  note snd = send_frame_spec [OF s2 this(1,2), of "4 * ?m", unfolded this(3)]
  have "track_after 1 n t (t2\<lparr>th_datagram_buffer := buf, th_next_object_id := th_next_object_id t2 + 1\<rparr>)"
    if "length buf = length (th_datagram_buffer t2)" for buf
    using that r(1-3) lens xs out
    by (simp add: track_after_def pcm_sender_def t2_def t1_def frame_floats_def queued_def)
  then show ?thesis
    unfolding run
    by (intro yields_mono [OF snd]) (use lens out in \<open>auto simp: t2_def t1_def pcm_datagram_def out_def xs_def\<close>)
qed

section \<open>The loop\<close>

lemma frames_sent_0:
  "deref p s = Done t \<Longrightarrow> pcm_sender n t \<Longrightarrow> ss_transport s \<Longrightarrow> can_send_datagrams s \<Longrightarrow> frames_sent p 0 n t s s"
  by (simp add: frames_sent_def track_after_def)

lemma frames_sent_round:
  assumes "frames_sent p k n t s u" and "Suc k * frame_floats n t \<le> length (queued t)"
  shows "yields (pcm_round all_well p n u) (frames_sent p (Suc k) n t s)"
proof -
  obtain v where v: "deref p u = Done v" "track_after k n t v"
    using assms(1) by (auto simp: frames_sent_def)
  have m: "frame_floats n v = frame_floats n t" and q: "queued v = drop (k * frame_floats n t) (queued t)" and "pcm_sender n v"
    using v(2) by (simp_all add: track_after_def frame_floats_def)
  then have step: "yields (pcm_round all_well p n u) (\<lambda>s'. ss_transport s' \<and> can_send_datagrams s'
    \<and> datagram_contents s' = datagram_contents u @ [pcm_datagram v (th_next_object_id v) (take (frame_floats n v) (queued v))]
    \<and> (\<exists>t'. deref p s' = Done t' \<and> track_after 1 n v t'))"
    using assms by (intro pcm_round_spec [OF v(1)]) (simp_all add: frames_sent_def)
  have "pcm_datagram v (th_next_object_id v) xs = pcm_datagram t (th_next_object_id t + of_nat k) xs" for xs
    using v(2) by (simp add: pcm_datagram_def track_after_def)
  moreover have "track_after (Suc k) n t t'" if "track_after 1 n v t'" for t'
    using that v(2) m by (simp add: track_after_def)
  ultimately show ?thesis
    using assms(1) by (intro yields_mono [OF step]) (auto simp: frames_sent_def m q)
qed

lemma frames_sent_ready:
  assumes "frames_sent p k n t s u" and "k * frame_floats n t \<le> length (queued t)"
  shows "frame_ready p n u = Done (Suc k * frame_floats n t \<le> length (queued t))"
proof -
  obtain v where v: "deref p u = Done v" "track_after k n t v"
    using assms(1) by (auto simp: frames_sent_def)
  then show ?thesis
    using frame_ready_spec [OF v(1)] assms(2) by (auto simp: track_after_def frame_floats_def)
qed

lemma pcm_loop_sends_all:
  assumes "deref p s = Done t" and "pcm_sender n t" and "ss_transport s" and "can_send_datagrams s" and "0 < frame_floats n t"
  shows "\<exists>s'. loop_while (frame_ready p n) (pcm_round all_well p n) s = Some (Done s')
    \<and> frames_sent p (length (queued t) div frame_floats n t) n t s s'"
proof -
  let ?m = "frame_floats n t" and ?l = "length (queued t)"
  define left where "left u = (case deref p u of Done v \<Rightarrow> length (queued v) | _ \<Rightarrow> 0)" for u :: "'a Session"
  define I where "I u \<longleftrightarrow> (\<exists>k. frames_sent p k n t s u \<and> k * ?m \<le> ?l)" for u
  have left: "left u = ?l - k * ?m" if "frames_sent p k n t s u" for k u
    using that by (auto simp: frames_sent_def track_after_def left_def)
  have "\<exists>s'. loop_while (frame_ready p n) (pcm_round all_well p n) s = Some (Done s')
      \<and> I s' \<and> frame_ready p n s' = Done False"
  proof (rule loop_while_ends [where I = I and m = left])
    show "I s"
      using frames_sent_0 [OF assms(1-4)] by (auto simp: I_def intro: exI [of _ 0])
  next
    fix u
    assume "I u"
    then show "\<exists>go. frame_ready p n u = Done go"
      by (auto simp: I_def dest: frames_sent_ready)
  next
    fix u
    assume "I u" and ready: "frame_ready p n u = Done True"
    then obtain k where k: "frames_sent p k n t s u" "k * ?m \<le> ?l"
      by (auto simp: I_def)
    then have room: "Suc k * ?m \<le> ?l"
      using ready frames_sent_ready by fastforce
    then have "?l - Suc k * ?m < ?l - k * ?m"
      using assms(5) by simp
    then show "yields (pcm_round all_well p n u) (\<lambda>s'. I s' \<and> left s' < left u)"
      using left room k(1) by (intro yields_mono [OF frames_sent_round [OF k(1) room]]) (auto simp: I_def)
  qed
  then obtain s' k where s': "loop_while (frame_ready p n) (pcm_round all_well p n) s = Some (Done s')"
    "frames_sent p k n t s s'" "k * ?m \<le> ?l" "frame_ready p n s' = Done False"
    by (auto simp: I_def)
  then have "?l < Suc k * ?m"
    using frames_sent_ready by fastforce
  then have "k = ?l div ?m"
    using s'(3) assms(5) by (intro div_nat_eqI [symmetric]) (simp_all add: algebra_simps)
  with s' show ?thesis
    by blast
qed

lemma pcm_loop_diverges:
  assumes "deref p s = Done t" and "pcm_sender n t" and "ss_transport s" and "can_send_datagrams s" and "frame_floats n t = 0"
  shows "loop_while (frame_ready p n) (pcm_round all_well p n) s = None"
proof (rule loop_while_never_ends [where I = "\<lambda>u. \<exists>k. frames_sent p k n t s u"])
  show "\<exists>k. frames_sent p k n t s s"
    using frames_sent_0 [OF assms(1-4)] by blast
next
  fix u
  assume "\<exists>k. frames_sent p k n t s u"
  then obtain k where k: "frames_sent p k n t s u"
    by blast
  then show "frame_ready p n u = Done True \<and> yields (pcm_round all_well p n u) (\<lambda>u. \<exists>k. frames_sent p k n t s u)"
    using frames_sent_ready [OF k] frames_sent_round [OF k] assms(5) by (auto elim: yields_mono)
qed

section \<open>Properties\<close>

text \<open>A track as \<open>configure\<close> makes it, with a ring buffer in working order, is a PCM sender.\<close>

lemma pcm_sender_typed:
  assumes "track_typed t" and "cfg_type (th_config t) = TT_Audio" and "cfg_direction (th_config t) = Outbound"
    and "cfg_codec (th_config t) = Codec_PCM" and "th_ring_buffer t = Some r" and "rb_ok r"
    and "34 + 4 * frame_floats (frame_size_of (th_config t)) t < 4294967296"
  shows "pcm_sender (frame_size_of (th_config t)) t"
proof -
  have "unat (frame_size_of (th_config t) * cfg_channels (th_config t)) = frame_floats (frame_size_of (th_config t)) t"
    unfolding frame_floats_def by (rule unat_mult_no_wrap) (use assms(7) in \<open>unfold frame_floats_def, linarith\<close>)
  then show ?thesis
    using assms by (auto simp: track_typed_defs pcm_sender_def output_size_def rb_typed_def rb_shape_def)
qed

lemma send_pcm_frame_loop:
  assumes "deref p s = Done t" and "cfg_codec (th_config t) = Codec_PCM" and "th_ring_buffer t \<noteq> None"
  shows "send_pcm_frame Q p s
    = loop_while (frame_ready p (frame_size_of (th_config t))) (pcm_round Q p (frame_size_of (th_config t))) s"
  using assms(1,2) not_None_eq [THEN iffD1, OF assms(3)] by (auto simp: send_pcm_frame_def frame_size_of_def Let_def)

text \<open>C8: the PCM sender ends, and what it has sent then is every whole frame the host had written, in order: the
  \<open>i\<close>th datagram carries the track's alias and group, the object id \<open>i\<close> above the first, and the bytes of the
  \<open>i\<close>th frame. Less than a frame stays in the ring buffer.\<close>

theorem pcm_frames_sent:
  assumes "deref p s = Done t" and "track_typed t" and "cfg_type (th_config t) = TT_Audio"
    and "cfg_direction (th_config t) = Outbound" and "cfg_codec (th_config t) = Codec_PCM"
    and "th_ring_buffer t = Some r" and "rb_ok r" and "ss_transport s" and "can_send_datagrams s"
    and "n = frame_size_of (th_config t)" and "m = frame_floats n t" and "0 < m" and "34 + 4 * m < 4294967296"
  shows "\<exists>s' t'. send_pcm_frame all_well p s = Some (Done s')
    \<and> datagram_contents s' = datagram_contents s
        @ map (\<lambda>i. pcm_datagram t (th_next_object_id t + of_nat i) (take m (drop (i * m) (rb_content r))))
            [0..<length (rb_content r) div m]
    \<and> deref p s' = Done t' \<and> th_next_object_id t' = th_next_object_id t + of_nat (length (rb_content r) div m)
    \<and> queued t' = drop (length (rb_content r) div m * m) (rb_content r) \<and> length (queued t') < m"
proof -
  have q: "queued t = rb_content r"
    using assms(6) by (simp add: queued_def)
  have "pcm_sender n t"
    using assms by (auto intro: pcm_sender_typed)
  from pcm_loop_sends_all [OF assms(1) this assms(8,9)] assms(10-12)
  obtain s' where s': "send_pcm_frame all_well p s = Some (Done s')"
    "frames_sent p (length (rb_content r) div m) n t s s'"
    using send_pcm_frame_loop [OF assms(1,5), of all_well] assms(6) q by auto
  then obtain t' where t': "deref p s' = Done t'" "track_after (length (rb_content r) div m) n t t'"
    by (auto simp: frames_sent_def)
  have "length (rb_content r) - length (rb_content r) div m * m < m"
    using assms(12) by (simp add: minus_div_mult_eq_mod)
  then show ?thesis
    using s' t' assms(11) by (auto simp: frames_sent_def track_after_def q)
qed

text \<open>A PCM track whose frame duration and sample rate give a frame of no samples keeps the session thread in
  its sending loop forever, one empty datagram per round.\<close>

theorem pcm_empty_frame_diverges:
  assumes "deref p s = Done t" and "track_typed t" and "cfg_type (th_config t) = TT_Audio"
    and "cfg_direction (th_config t) = Outbound" and "cfg_codec (th_config t) = Codec_PCM"
    and "th_ring_buffer t = Some r" and "rb_ok r" and "ss_transport s" and "can_send_datagrams s"
    and "frame_size_of (th_config t) = 0"
  shows "send_pcm_frame all_well p s = None"
proof -
  have m: "frame_floats (frame_size_of (th_config t)) t = 0"
    by (simp add: frame_floats_def assms(10))
  then have "pcm_sender (frame_size_of (th_config t)) t"
    by (intro pcm_sender_typed [OF assms(2-7)]) simp
  then show ?thesis
    using pcm_loop_diverges [OF assms(1) _ assms(8,9) m] send_pcm_frame_loop [OF assms(1,5)] assms(6) by simp
qed

text \<open>A microphone of one channel and 15 samples per second: the ring buffer holds three samples, and with frames
  of 67 ms a frame is one sample.\<close>

definition mic_config :: "u32 \<Rightarrow> TrackConfig" where
  "mic_config ms = (default_TrackConfig [] [] [] Outbound)
     \<lparr>cfg_type := TT_Audio, cfg_codec := Codec_PCM, cfg_sample_rate := 15, cfg_pcm_frame_size_ms := ms\<rparr>"

definition mic_ring :: RingBuffer where
  "mic_ring = (case rb_write [7, 8] 2 (new_RingBuffer 3 1) of Done (r, k) \<Rightarrow> r | _ \<Rightarrow> new_RingBuffer 3 1)"

definition mic :: "u32 \<Rightarrow> nat TrackHandle" where
  "mic ms = (make_outbound_audio counting_opus (mic_config ms) (new_TrackHandle 0 (mic_config ms)))
     \<lparr>th_moq_track_alias := 5, th_ring_buffer := Some mic_ring\<rparr>"

definition mic_session :: "u32 \<Rightarrow> nat Session" where
  "mic_session ms = new_SessionManager\<lparr>ss_tracks := [mic ms], ss_transport := True, ss_state := CS_Connected,
     tr_current_state := TS_Ready, tr_msquic := True, tr_connection := True\<rparr>"

lemma mic_ring: "rb_ok mic_ring" "rb_content mic_ring = [7, 8]" "rb_typed (3, 1) mic_ring"
proof -
  have new: "rb_ok (new_RingBuffer 3 1)" "rb_content (new_RingBuffer 3 1) = []" "rb_shape (new_RingBuffer 3 1) = (3, 1)"
    "rb_channels (new_RingBuffer 3 1) = 1" "rb_capacity_floats (new_RingBuffer 3 1) = 3"
    using rb_ok_new [of 3 1] by (simp_all add: new_RingBuffer_def)
  then obtain r k where r: "rb_write [7, 8] 2 (new_RingBuffer 3 1) = Done (r, k)" "rb_ok r" "rb_content r = [7, 8]"
    using rb_write_spec [of "new_RingBuffer 3 1" 2 "[7, 8]"] by (auto simp: last_n_def)
  moreover have "rb_typed (3, 1) r"
    using allowsD [OF rb_typed_write [OF rb_typed_new] r(1)] by simp
  ultimately show "rb_ok mic_ring" "rb_content mic_ring = [7, 8]" "rb_typed (3, 1) mic_ring"
    by (simp_all add: mic_ring_def)
qed

lemma mic:
  "deref 0 (mic_session ms) = Done (mic ms)" "track_typed (mic ms)" "th_config (mic ms) = mic_config ms"
  "th_ring_buffer (mic ms) = Some mic_ring" "th_next_object_id (mic ms) = 0" "th_next_group_id (mic ms) = 0"
  "th_moq_track_alias (mic ms) = 5"
  "ss_transport (mic_session ms)" "can_send_datagrams (mic_session ms)" "datagram_contents (mic_session ms) = []"
  "cfg_type (mic_config ms) = TT_Audio" "cfg_direction (mic_config ms) = Outbound" "cfg_codec (mic_config ms) = Codec_PCM"
  "frame_size_of (mic_config ms) = ms * 15 div 1000" "cfg_channels (mic_config ms) = 1"
proof -
  have "rb_typed (cfg_sample_rate (mic_config ms) * RING_BUFFER_MS div 1000, cfg_channels (mic_config ms)) mic_ring"
    using mic_ring(3) by (simp add: mic_config_def default_TrackConfig_def RING_BUFFER_MS_def)
  then show "track_typed (mic ms)"
    using make_outbound_audio_typed [of counting_opus "mic_config ms" 0]
    by (simp add: track_typed_def mic_def sending_track_def Let_def) (simp add: make_outbound_audio_def mic_config_def
        new_TrackHandle_def Let_def default_TrackConfig_def)
qed (simp_all add: mic_def mic_session_def make_outbound_audio_def new_TrackHandle_def mic_config_def default_TrackConfig_def
    Let_def deref_def new_session_simps can_send_datagrams_def less_eq_TransportState_def datagram_contents_def
    List.map_filter_def frame_size_of_def)

theorem pcm_frames_sent_witness:
  "\<exists>s'. send_pcm_frame all_well 0 (mic_session 67) = Some (Done s')
    \<and> datagram_contents s' = [object_datagram_header 5 0 0 128 @ le4 7, object_datagram_header 5 0 1 128 @ le4 8]"
proof -
  have m: "frame_floats 1 (mic 67) = 1"
    by (simp add: frame_floats_def mic)
  show ?thesis
    using pcm_frames_sent [OF mic(1) [of 67] mic(2) _ _ _ mic(4) mic_ring(1) mic(8,9), of 1 1] m
    by (auto simp: mic mic_ring(2) pcm_datagram_def upt_rec)
qed

theorem pcm_empty_frame_diverges_witness: "send_pcm_frame all_well 0 (mic_session 66) = None"
  by (rule pcm_empty_frame_diverges [OF mic(1,2) _ _ _ mic(4) mic_ring(1) mic(8,9)]) (simp_all add: mic)

end
