(* ===== verification/SessionLiveness.thy ===== *)
theory SessionLiveness
  imports SessionReconnect SessionAudio
begin

text \<open>
  The session thread does not hang: whatever msquic, libopus, the server and the host do, a round of its
  loop returns when no outbound audio track has a frame of no samples. Lemmas: a round of a sending loop
  takes samples out of the ring buffer; every operation leaves the frame sizes alone.
\<close>

section \<open>Frames of some length\<close>

text \<open>
  What of a track never changes: where it is, its configuration, and the frame size of its encoder.
  \<open>tracks_stay K\<close> says that the session has the handles \<open>m\<close> and the tracks \<open>ps\<close>, and that \<open>D\<close> holds
  of the fixed part of each.
\<close>

definition fixed_part :: "'h TrackHandle \<Rightarrow> nat \<times> TrackConfig \<times> u32 option" where
  "fixed_part t = (th_ptr t, th_config t, map_option oe_frame_size_samples (th_encoder t))"

type_synonym fixed_tracks = "(bytes \<rightharpoonup> nat) \<times> nat list \<times> (nat \<times> TrackConfig \<times> u32 option \<Rightarrow> bool)"

definition tracks_stay :: "fixed_tracks \<Rightarrow> 'h Session \<Rightarrow> bool" where
  "tracks_stay K s \<longleftrightarrow>
     (case K of (m, ps, D) \<Rightarrow>
        ss_name_map s = m \<and> track_ptrs s = ps \<and> distinct ps \<and> (\<forall>t\<in>set (ss_tracks s). D (fixed_part t)))"

fun drained :: "nat \<times> TrackConfig \<times> u32 option \<Rightarrow> bool" where
  "drained (p, tc, n) \<longleftrightarrow>
     (cfg_type tc = TT_Audio \<and> cfg_direction tc = Outbound \<and> cfg_codec tc = Codec_PCM \<longrightarrow> frame_size_of tc \<noteq> 0) \<and> n \<noteq> Some 0"

definition drains :: "'h TrackHandle \<Rightarrow> bool" where
  "drains t \<longleftrightarrow> drained (fixed_part t)"

definition all_drain :: "'h Session \<Rightarrow> bool" where
  "all_drain s \<longleftrightarrow> distinct (track_ptrs s) \<and> (\<forall>t\<in>set (ss_tracks s). drains t)"

lemma fixed_part_fields [simp]:
  "fixed_part (t\<lparr>th_moq_track_alias := a\<rparr>) = fixed_part t" "fixed_part (t\<lparr>th_moq_request_id := a\<rparr>) = fixed_part t"
  "fixed_part (t\<lparr>th_next_object_id := a\<rparr>) = fixed_part t" "fixed_part (t\<lparr>th_next_group_id := a\<rparr>) = fixed_part t"
  "fixed_part (t\<lparr>th_ring_buffer := r\<rparr>) = fixed_part t" "fixed_part (t\<lparr>th_jitter_buffer := j\<rparr>) = fixed_part t"
  "fixed_part (t\<lparr>th_decoder := d\<rparr>) = fixed_part t" "fixed_part (t\<lparr>th_pcm_read_buffer := x\<rparr>) = fixed_part t"
  "fixed_part (t\<lparr>th_encode_output_buffer := b\<rparr>) = fixed_part t" "fixed_part (t\<lparr>th_datagram_buffer := b\<rparr>) = fixed_part t"
  "fixed_part (t\<lparr>th_decode_buffer := x\<rparr>) = fixed_part t" "fixed_part (reset_track t) = fixed_part t"
  by (simp_all add: fixed_part_def reset_track_def)

lemma fixed_part_ptr: "fixed_part t = fixed_part u \<Longrightarrow> th_ptr t = th_ptr u"
  by (simp add: fixed_part_def)

lemma reset_track_ptr [simp]: "th_ptr (reset_track t) = th_ptr t"
  by (simp add: reset_track_def)

lemma fixed_part_encoder:
  "th_encoder t = Some enc \<Longrightarrow> oe_frame_size_samples enc' = oe_frame_size_samples enc
    \<Longrightarrow> fixed_part (t\<lparr>th_encode_output_buffer := out, th_encoder := Some enc'\<rparr>) = fixed_part t"
  by (simp add: fixed_part_def)

lemma all_drain_stay: "all_drain s \<Longrightarrow> tracks_stay (ss_name_map s, track_ptrs s, drained) s"
  by (simp add: tracks_stay_def all_drain_def drains_def)

lemma stay_all_drain: "tracks_stay (m, ps, drained) s \<Longrightarrow> all_drain s"
  by (simp add: tracks_stay_def all_drain_def drains_def)

lemma tracks_stay_update:
  "tracks_stay K s \<Longrightarrow> (\<And>t. fixed_part (f t) = fixed_part t) \<Longrightarrow> tracks_stay K (update_track p f s)"
  by (auto simp: tracks_stay_def track_ptrs_def update_track_def fixed_part_ptr [of "f _"])

lemma tracks_stay_fixed:
  "tracks_stay (m, ps, D) s \<longleftrightarrow>
     ss_name_map s = m \<and> map fst (map fixed_part (ss_tracks s)) = ps \<and> distinct ps \<and>
     (\<forall>x\<in>set (map fixed_part (ss_tracks s)). D x)"
  by (simp add: tracks_stay_def track_ptrs_def fixed_part_def comp_def)

lemma tracks_stay_put:
  assumes "tracks_stay K s" and t: "deref p s = Done t" and f: "fixed_part (f t) = fixed_part t"
  shows "tracks_stay K (update_track p f s)"
proof -
  have "inj_on th_ptr (set (ss_tracks s))"
    using assms(1) by (auto simp: tracks_stay_def track_ptrs_def distinct_map)
  then have one: "u = t" if "u \<in> set (ss_tracks s)" "th_ptr u = p" for u
    using deref_Done [OF t] that by (blast dest: inj_onD)
  have "map fixed_part (ss_tracks (update_track p f s)) = map fixed_part (ss_tracks s)"
    using one f by (auto simp: update_track_def)
  moreover have "ss_name_map (update_track p f s) = ss_name_map s"
    by (simp add: update_track_def)
  ultimately show ?thesis
    using assms(1) by (cases K) (auto simp only: tracks_stay_fixed)
qed

lemma tracks_stay_client: "same_client s s' \<Longrightarrow> tracks_stay K s' = tracks_stay K s"
  by (simp add: tracks_stay_def track_ptrs_def same_client_session)

lemma tracks_stay_deref: "tracks_stay (m, ps, D) s \<Longrightarrow> deref p s = Done t \<Longrightarrow> D (fixed_part t)"
  using deref_Done by (fastforce simp: tracks_stay_def)

lemma tracks_stay_fields [simp]:
  "tracks_stay K (s\<lparr>ss_state := a\<rparr>) = tracks_stay K s" "tracks_stay K (s\<lparr>ss_transport := f\<rparr>) = tracks_stay K s"
  "tracks_stay K (s\<lparr>ss_reconnecting := f\<rparr>) = tracks_stay K s" "tracks_stay K (s\<lparr>ss_reconnect_attempt := k\<rparr>) = tracks_stay K s"
  "tracks_stay K (s\<lparr>ss_reconnect_deadline := l\<rparr>) = tracks_stay K s" "tracks_stay K (s\<lparr>ss_total_reconnect_count := k\<rparr>) = tracks_stay K s"
  "tracks_stay K (s\<lparr>ss_request_id_map := m\<rparr>) = tracks_stay K s" "tracks_stay K (s\<lparr>ss_inbound_alias_map := m\<rparr>) = tracks_stay K s"
  "tracks_stay K (s\<lparr>ss_outbound_alias_map := m\<rparr>) = tracks_stay K s" "tracks_stay K (s\<lparr>ss_next_track_alias := n\<rparr>) = tracks_stay K s"
  "tracks_stay K (s\<lparr>ss_next_request_id := n\<rparr>) = tracks_stay K s" "tracks_stay K (s\<lparr>ss_orchestration_started := f\<rparr>) = tracks_stay K s"
  "tracks_stay K (s\<lparr>ss_first_subscribe_sent := f\<rparr>) = tracks_stay K s" "tracks_stay K (s\<lparr>ss_data_received := x\<rparr>) = tracks_stay K s"
  "tracks_stay K (s\<lparr>ss_manual_disconnect := f\<rparr>) = tracks_stay K s" "tracks_stay K (s\<lparr>ss_session_running := f\<rparr>) = tracks_stay K s"
  "tracks_stay K (s\<lparr>ss_session_thread := f\<rparr>) = tracks_stay K s" "tracks_stay K (s\<lparr>ss_parsed_host := h\<rparr>) = tracks_stay K s"
  "tracks_stay K (s\<lparr>ss_parsed_port := w\<rparr>) = tracks_stay K s"
  "tracks_stay K (notify cs msg s) = tracks_stay K s" "tracks_stay K (new_transport s) = tracks_stay K s"
  "tracks_stay K (reset_moq_state s) = tracks_stay K s" "tracks_stay K (flush_outbound s) = tracks_stay K s"
  "tracks_stay K (handle_transport_state_change now ts m' s) = tracks_stay K s"
  by (simp_all add: tracks_stay_def track_ptrs_def comp_def notify_def new_transport_def reset_moq_state_def flush_outbound_def
      handle_transport_state_change_def reconnecting_state_change_def split: TransportState.split)

section \<open>The callbacks leave the frame sizes alone\<close>

lemma send_framed_stay: "tracks_stay K s \<Longrightarrow> allows (send_framed Q m s) (tracks_stay K)"
  by (auto simp: send_framed_def intro!: allows_mono [OF send_control_same_client] dest: tracks_stay_client)

lemma handle_control_message_stay: "tracks_stay K s \<Longrightarrow> allows (handle_control_message Q type content s) (tracks_stay K)"
  by (auto simp: handle_control_message_def on_subscribe_ok_def on_subscribe_error_def on_subscribe_def on_announce_def
      on_announce_ok_def on_subscribe_announces_def name_request_def Let_def intro!: on_parsed_allows allowsI [of "deref _ _"]
      send_framed_stay tracks_stay_update split: MessageType.split option.split)

lemma write_jitter_stay: "tracks_stay K s \<Longrightarrow> allows (write_jitter p n s) (tracks_stay K)"
  by (auto simp: write_jitter_def intro!: allowsI [of "deref _ _"] allowsI [of "jb_write _ _ _"] tracks_stay_update split: option.split)

lemma on_datagram_stay: "tracks_stay K s \<Longrightarrow> allows (on_datagram L dg s) (tracks_stay K)"
  by (auto simp: on_datagram_def dispatch_audio_datagram_def dispatch_data_datagram_def Let_def
      intro!: allowsI [of "deref _ _"] allowsI [of "decode_opus _ _ _ _"] allowsI [of "pcm_unframe _ _ _ _"] write_jitter_stay
        tracks_stay_update split: option.split prod.split)

lemma session_handler_stay: "tracks_stay K s \<Longrightarrow> allows (session_handler L Q now ev s) (tracks_stay K)"
  by (auto simp: session_handler_def handle_control_message_stay on_datagram_stay split: transport_event.split)

interpretation session_stay: client_state "session_handler L Q now" "tracks_stay K" for L Q now K
  by unfold_locales (use allowsD [OF session_handler_stay] tracks_stay_client in blast)+

section \<open>The sending loops make progress\<close>

text \<open>The samples in the ring buffer of a track.\<close>

definition ring_level :: "'h TrackHandle \<Rightarrow> nat" where
  "ring_level t = (case th_ring_buffer t of Some r \<Rightarrow> unat (rb_buffered r) | None \<Rightarrow> 0)"

definition level :: "nat \<Rightarrow> 'h Session \<Rightarrow> nat" where
  "level p s = (case deref p s of Done t \<Rightarrow> ring_level t | _ \<Rightarrow> 0)"

text \<open>Keeps the level of the ring and the frame sizes.\<close>

definition at_level :: "fixed_tracks \<Rightarrow> nat \<Rightarrow> nat \<Rightarrow> 'h Session \<Rightarrow> bool" where
  "at_level K p l s \<longleftrightarrow> tracks_stay K s \<and> level p s = l"

lemma level_update:
  "deref p s = Done t \<Longrightarrow> th_ptr (f t) = p \<Longrightarrow> level p (update_track p f s) = ring_level (f t)"
  by (simp add: level_def deref_update)

lemma at_level_client: "same_client s s' \<Longrightarrow> at_level K p l s' = at_level K p l s"
  by (simp add: at_level_def level_def tracks_stay_client deref_client)

lemma at_level_update:
  assumes "at_level K p l s" and "deref p s = Done t" and "th_ptr (f t) = p" and "ring_level (f t) = ring_level t"
    and "fixed_part (f t) = fixed_part t"
  shows "at_level K p l (update_track p f s)"
  using assms level_update [OF assms(2), of f] by (simp add: at_level_def tracks_stay_put [OF _ assms(2)]) (simp add: level_def)

text \<open>Reading a frame that is there and not empty.\<close>

lemma rb_read_lowers:
  assumes "rb_read_available r = Done w" and "n \<le> w" and "n \<noteq> 0"
  shows "allows (rb_read n r) (\<lambda>(xs, k, r'). unat (rb_buffered r') < unat (rb_buffered r))"
proof -
  have ch: "0 < unat (rb_channels r)" and w: "w = rb_buffered r div rb_channels r"
    using assms(1) by (auto simp: rb_read_available_def u32_div_def unat_gt_0 split: if_splits)
  have "unat n \<le> unat (rb_buffered r) div unat (rb_channels r)"
    using assms(2) by (simp add: w word_le_nat_alt unat_div_distrib)
  then have le: "unat n * unat (rb_channels r) \<le> unat (rb_buffered r)"
    using ch by (simp add: less_eq_div_iff_mult_less_eq)
  then have eq: "unat (n * rb_channels r) = unat n * unat (rb_channels r)"
    using unsigned_less [of "rb_buffered r", where 'a = nat] by (intro unat_mult_no_wrap) simp
  have m: "min (n * rb_channels r) (rb_buffered r) = n * rb_channels r"
    using le eq by (simp add: min_def word_le_nat_alt)
  have pos: "0 < unat n * unat (rb_channels r)"
    using assms(3) ch by (simp add: unat_gt_0)
  have "unat (rb_buffered r - n * rb_channels r) = unat (rb_buffered r) - unat n * unat (rb_channels r)"
    using le eq by (simp add: unat_sub word_le_nat_alt)
  then have "unat (rb_buffered r - n * rb_channels r) < unat (rb_buffered r)"
    using le pos by linarith
  then show ?thesis
    by (auto simp: rb_read_def m Let_def u32_mod_def u32_div_def assms(3) intro!: allowsI)
qed

lemma take_frame_lowers:
  assumes "tracks_stay K s"
  shows "allows (take_frame p n s) (\<lambda>(t, s'). deref p s' = Done t \<and> tracks_stay K s' \<and> (frame_ready p n s = Done True \<and> n \<noteq> 0 \<longrightarrow> level p s' < level p s))"
proof (rule allowsI, clarify)
  fix u s'
  assume "take_frame p n s = Done (u, s')"
  then obtain t r xs k r' buf where t: "deref p s = Done t" "th_ring_buffer t = Some r"
    and rd: "rb_read n r = Done (xs, k, r')" and u: "u = t\<lparr>th_ring_buffer := Some r', th_pcm_read_buffer := buf\<rparr>"
    and s': "s' = update_track p (\<lambda>_. u) s"
    by (auto simp: take_frame_def outcome_simps Let_def split: option.splits)
  have lower: "ring_level u < ring_level t" if ready: "frame_ready p n s = Done True" and n: "n \<noteq> 0"
  proof -
    obtain w where "rb_read_available r = Done w" "n \<le> w"
      using ready t by (auto simp: frame_ready_def outcome_simps)
    from allowsD [OF rb_read_lowers [OF this n] rd] show ?thesis
      by (simp add: ring_level_def u t(2))
  qed
  have "tracks_stay K s'"
    unfolding s' by (rule tracks_stay_put [OF assms t(1)]) (simp add: u)
  moreover have "th_ptr u = p"
    using deref_Done [OF t(1)] by (simp add: u)
  then have "deref p s' = Done u" "level p s' = ring_level u"
    using deref_update [OF t(1), of "\<lambda>_. u"] level_update [OF t(1), of "\<lambda>_. u"] by (simp_all add: s')
  ultimately show "deref p s' = Done u \<and> tracks_stay K s' \<and> (frame_ready p n s = Done True \<and> n \<noteq> 0 \<longrightarrow> level p s' < level p s)"
    using lower t(1) by (simp add: level_def)
qed

text \<open>Sending the frame and encoding it do not change that.\<close>

lemma send_frame_level:
  assumes "at_level K p l s"
  shows "allows (send_frame Q p n s) (at_level K p l)"
proof (rule allowsI)
  fix s'
  assume "send_frame Q p n s = Done s'"
  then obtain t buf0 h payload buf s1 ok where t: "deref p s = Done t"
    and snd: "send_datagram Q buf (of_nat (h + n)) (update_track p (\<lambda>t. t\<lparr>th_datagram_buffer := buf\<rparr>) s) = Done (ok, s1)"
    and s': "s' = update_track p (\<lambda>t. t\<lparr>th_next_object_id := th_next_object_id t + 1\<rparr>) s1"
    by (auto simp: send_frame_def outcome_simps Let_def split: if_splits)
  let ?u = "update_track p (\<lambda>t. t\<lparr>th_datagram_buffer := buf\<rparr>) s"
  have u: "at_level K p l ?u" "deref p ?u = Done (t\<lparr>th_datagram_buffer := buf\<rparr>)"
    using at_level_update [OF assms t, of "\<lambda>t. t\<lparr>th_datagram_buffer := buf\<rparr>"] deref_Done [OF t]
      deref_update [OF t, of "\<lambda>t. t\<lparr>th_datagram_buffer := buf\<rparr>"] by (simp_all add: ring_level_def)
  have c: "same_client ?u s1"
    using allowsD [OF send_datagram_same_client snd] by simp
  have s1: "at_level K p l s1" "deref p s1 = Done (t\<lparr>th_datagram_buffer := buf\<rparr>)"
    using u at_level_client [OF c] deref_client [OF c] by simp_all
  show "at_level K p l s'"
    unfolding s' by (rule at_level_update [OF s1]) (use deref_Done [OF t] in \<open>simp_all add: ring_level_def\<close>)
qed

lemma encoder_encode_frame_size:
  "allows (encoder_encode L pcm n out m enc) (\<lambda>(k, out', enc'). oe_frame_size_samples enc' = oe_frame_size_samples enc)"
  by (auto simp: encoder_encode_def split: option.split prod.split intro!: allowsI [of "mem_read _ _ _"] allowsI [of "mem_write _ _ _"])

lemma pcm_round_lowers:
  assumes "tracks_stay K s"
  shows "allows (pcm_round Q p n s) (\<lambda>s'. tracks_stay K s' \<and> (frame_ready p n s = Done True \<and> n \<noteq> 0 \<longrightarrow> level p s' < level p s))"
proof (rule allowsI)
  fix s'
  assume "pcm_round Q p n s = Done s'"
  then obtain t s1 k out where tf: "take_frame p n s = Done (t, s1)"
    and "pcm_frame (th_pcm_read_buffer t) n (cfg_channels (th_config t)) (th_encode_output_buffer t) = Done (k, out)"
    and s': "send_frame Q p (unat k) (update_track p (\<lambda>t. t\<lparr>th_encode_output_buffer := out\<rparr>) s1) = Done s'"
    by (auto simp: pcm_round_def outcome_simps)
  have f: "deref p s1 = Done t" "tracks_stay K s1" "(frame_ready p n s = Done True \<and> n \<noteq> 0 \<longrightarrow> level p s1 < level p s)"
    using allowsD [OF take_frame_lowers [OF assms] tf] by simp_all
  have "at_level K p (level p s1) (update_track p (\<lambda>t. t\<lparr>th_encode_output_buffer := out\<rparr>) s1)"
    by (rule at_level_update [OF _ f(1)]) (use f deref_Done [OF f(1)] in \<open>simp_all add: at_level_def ring_level_def\<close>)
  from allowsD [OF send_frame_level [OF this] s'] f(3) show "tracks_stay K s' \<and> (frame_ready p n s = Done True \<and> n \<noteq> 0 \<longrightarrow> level p s' < level p s)"
    by (simp add: at_level_def)
qed

lemma opus_round_lowers:
  assumes "tracks_stay K s"
  shows "allows (opus_round L Q p n s) (\<lambda>s'. tracks_stay K s' \<and> (frame_ready p n s = Done True \<and> n \<noteq> 0 \<longrightarrow> level p s' < level p s))"
proof (rule allowsI)
  fix s'
  assume "opus_round L Q p n s = Done s'"
  then obtain t s1 enc k out enc' where tf: "take_frame p n s = Done (t, s1)" and enc: "th_encoder t = Some enc"
    and en: "encoder_encode L (th_pcm_read_buffer t) n (th_encode_output_buffer t)
               (of_nat (length (th_encode_output_buffer t))) enc = Done (k, out, enc')"
    and s': "(if k \<le> 0 then Done (update_track p (\<lambda>t. t\<lparr>th_encode_output_buffer := out, th_encoder := Some enc'\<rparr>) s1)
      else send_frame Q p (nat k) (update_track p (\<lambda>t. t\<lparr>th_encode_output_buffer := out, th_encoder := Some enc'\<rparr>) s1))
      = Done s'"
    by (auto simp: opus_round_def outcome_simps Let_def split: option.splits)
  let ?f = "\<lambda>t. t\<lparr>th_encode_output_buffer := out, th_encoder := Some enc'\<rparr>"
  have f: "deref p s1 = Done t" "tracks_stay K s1" "(frame_ready p n s = Done True \<and> n \<noteq> 0 \<longrightarrow> level p s1 < level p s)"
    using allowsD [OF take_frame_lowers [OF assms] tf] by simp_all
  have size: "oe_frame_size_samples enc' = oe_frame_size_samples enc"
    using allowsD [OF encoder_encode_frame_size en] by simp
  have l: "at_level K p (level p s1) (update_track p ?f s1)"
    by (rule at_level_update [OF _ f(1)])
      (use f deref_Done [OF f(1)] fixed_part_encoder [OF enc size] in \<open>simp_all add: at_level_def ring_level_def\<close>)
  have "at_level K p (level p s1) s'"
    using s' l allowsD [OF send_frame_level [OF l]] by (auto split: if_splits)
  then show "tracks_stay K s' \<and> (frame_ready p n s = Done True \<and> n \<noteq> 0 \<longrightarrow> level p s' < level p s)"
    using f(3) by (simp add: at_level_def)
qed

text \<open>So the loops end, and so does a poll of the outbound tracks.\<close>

definition returns_staying :: "fixed_tracks \<Rightarrow> 'h Session outcome option \<Rightarrow> bool" where
  "returns_staying K m \<longleftrightarrow> (\<exists>r. m = Some r \<and> allows r (tracks_stay K))"

lemma returns_staying_Some [simp]: "returns_staying K (Some r) = allows r (tracks_stay K)"
  by (simp add: returns_staying_def)

lemma returns_staying_then:
  "returns_staying K m \<Longrightarrow> (\<And>s. tracks_stay K s \<Longrightarrow> returns_staying K (f s)) \<Longrightarrow> returns_staying K (then_maybe m f)"
  by (cases m, simp add: returns_staying_def, rename_tac r, case_tac r) (simp_all add: returns_staying_def)

lemma rounds_stay:
  assumes "tracks_stay K s"
  shows "allows (pcm_round Q p n s) (tracks_stay K)" and "allows (opus_round L Q p n s) (tracks_stay K)"
  using assms by (auto intro: allows_mono [OF pcm_round_lowers] allows_mono [OF opus_round_lowers])

lemma poll_track_stay: "tracks_stay K s \<Longrightarrow> maybe_allows (poll_track L Q p s) (tracks_stay K)"
  by (auto simp: poll_track_def send_audio_frame_def send_pcm_frame_def Let_def split: option.split
      intro!: maybe_allows_deref maybe_allows_loop rounds_stay)

lemma poll_tracks_stay: "tracks_stay K s \<Longrightarrow> maybe_allows (poll_tracks L Q ps s) (tracks_stay K)"
  by (induction ps arbitrary: s) (auto intro!: maybe_allows_then [OF poll_track_stay])

lemma loops_return:
  assumes "tracks_stay K s" and "n \<noteq> 0"
  shows "returns_staying K (loop_while (frame_ready p n) (pcm_round Q p n) s)"
    and "returns_staying K (loop_while (frame_ready p n) (opus_round L Q p n) s)"
  unfolding returns_staying_def
  by (rule loop_while_returns [where I = "tracks_stay K" and m = "level p", OF assms(1)];
      rule allows_mono [OF pcm_round_lowers] allows_mono [OF opus_round_lowers]; use assms(2) in simp)+

lemma poll_track_returns:
  assumes "tracks_stay (m, ps, drained) s"
  shows "returns_staying (m, ps, drained) (poll_track L Q p s)"
proof (cases "deref p s")
  case (Done t)
  then have d: "drained (fixed_part t)"
    using tracks_stay_deref [OF assms] by simp
  have "cfg_pcm_frame_size_ms (th_config t) * cfg_sample_rate (th_config t) div 1000 \<noteq> 0"
    if "cfg_type (th_config t) = TT_Audio" "cfg_direction (th_config t) = Outbound" "cfg_codec (th_config t) \<noteq> Codec_Opus"
    using that d by (cases "cfg_codec (th_config t)") (simp_all add: fixed_part_def frame_size_of_def)
  then show ?thesis
    using Done d assms loops_return [OF assms]
    by (auto simp: poll_track_def send_audio_frame_def send_pcm_frame_def Let_def fixed_part_def split: option.split)
qed (simp_all add: poll_track_def)

lemma poll_tracks_return:
  "tracks_stay (m, ps, drained) s \<Longrightarrow> returns_staying (m, ps, drained) (poll_tracks L Q ids s)"
  by (induction ids arbitrary: s) (auto intro!: returns_staying_then [OF poll_track_returns])

section \<open>The rest of a round\<close>

lemma destroy_transport_stay: "tracks_stay K s \<Longrightarrow> allows (destroy_transport L Q now s) (tracks_stay K)"
  by (simp add: destroy_transport_def session_stay.transport_disconnect_inv)

lemma tear_down_stay: "tracks_stay K s \<Longrightarrow> allows (tear_down L Q now s) (tracks_stay K)"
  by (auto simp: tear_down_def intro!: allows_mono [OF session_stay.transport_disconnect_inv] destroy_transport_stay)

lemma connect_new_stay: "tracks_stay K s \<Longrightarrow> allows (connect_new L Q now s) (\<lambda>(ok, s'). tracks_stay K s')"
  unfolding connect_new_def by (rule session_stay.transport_connect_inv) simp

lemma attempt_reconnect_stay: "tracks_stay K s \<Longrightarrow> allows (attempt_reconnect L Q now s) (tracks_stay K)"
  by (auto simp: attempt_reconnect_def Let_def intro!: allows_mono [OF tear_down_stay] allows_mono [OF connect_new_stay]
      allows_mono [OF destroy_transport_stay])

lemma assign_request_id_stay: "tracks_stay K s \<Longrightarrow> tracks_stay K (assign_request_id p s)"
  by (simp add: assign_request_id_def Let_def tracks_stay_update)

lemma start_orchestration_stay: "tracks_stay K s \<Longrightarrow> allows (start_orchestration Q P s) (tracks_stay K)"
proof -
  have sub: "tracks_stay K s \<Longrightarrow> allows (subscribe_tracks Q P ps s) (tracks_stay K)" for ps s
    by (induction ps arbitrary: s)
      (auto simp: subscribe_track_def Let_def intro!: allowsI [of "deref _ _"] assign_request_id_stay
        allows_mono [OF send_framed_stay])
  have ann: "tracks_stay K s \<Longrightarrow> allows (announce_tracks Q ps s) (tracks_stay K)" for ps s
    by (induction ps arbitrary: s)
      (auto simp: announce_track_def Let_def intro!: allowsI [of "deref _ _"] assign_request_id_stay
        allows_mono [OF send_framed_stay])
  assume "tracks_stay K s"
  then show ?thesis
    by (auto simp: start_orchestration_def Let_def intro!: allows_mono [OF sub] ann)
qed

lemma orchestrate_if_ready_stay: "tracks_stay K s \<Longrightarrow> allows (orchestrate_if_ready Q P s) (tracks_stay K)"
  by (simp add: orchestrate_if_ready_def start_orchestration_stay)

lemma session_round_stay:
  assumes "tracks_stay K s"
  shows "maybe_allows (session_round L Q P now s) (tracks_stay K)"
  using assms unfolding session_round_def
  by (intro maybe_allows_then [where P = "tracks_stay K"])
    (auto simp: attempt_reconnect_stay session_stay.process_incoming_inv orchestrate_if_ready_stay poll_outbound_tracks_def
      poll_tracks_stay intro!: maybe_allows_then [of "Some _" "tracks_stay K"])

lemma session_round_returns_staying:
  assumes "tracks_stay (m, ps, drained) s"
  shows "returns_staying (m, ps, drained) (session_round L Q P now s)"
  using assms unfolding session_round_def
  by (intro returns_staying_then)
    (auto simp: attempt_reconnect_stay session_stay.process_incoming_inv orchestrate_if_ready_stay
      poll_outbound_tracks_def poll_tracks_return intro!: returns_staying_then [of _ "Some _"])

section \<open>The host's calls\<close>

lemma session_connect_stay: "tracks_stay K s \<Longrightarrow> allows (session_connect L Q now s) (tracks_stay K)"
  by (auto simp: session_connect_def start_session_thread_def Let_def intro!: allowsI [of "parse_url _ _ _"]
      allows_mono [OF destroy_transport_stay] allows_mono [OF connect_new_stay])

lemma session_disconnect_stay: "tracks_stay K s \<Longrightarrow> allows (session_disconnect L Q now s) (tracks_stay K)"
  by (auto simp: session_disconnect_def Let_def intro!: allows_mono [OF tear_down_stay])

lemma update_jwt_stay [simp]: "tracks_stay K (update_jwt jwt s) = tracks_stay K s"
  by (simp add: tracks_stay_def track_ptrs_def update_jwt_def)

lemma write_audio_stay: "tracks_stay K s \<Longrightarrow> allows (write_audio track samples n s) (tracks_stay K)"
  by (auto simp: write_audio_def intro!: allowsI [of "deref _ _"] allowsI [of "rb_write _ _ _"] tracks_stay_update
      split: option.split)

lemma read_audio_stay: "tracks_stay K s \<Longrightarrow> allows (read_audio track buffer n s) (\<lambda>(k, buffer', s'). tracks_stay K s')"
  by (auto simp: read_audio_def intro!: allowsI [of "deref _ _"] allowsI [of "jb_read _ _ _"] tracks_stay_update
      split: option.split)

lemma send_data_stay: "tracks_stay K s \<Longrightarrow> allows (send_data Q track data n s) (tracks_stay K)"
  by (auto simp: send_data_def Let_def tracks_stay_client tracks_stay_update split: option.split
      intro!: allowsI [of "deref _ _"] allowsI [of "build_object_datagram _ _ _ _ _ _"]
        allows_mono [OF send_datagram_same_client])

section \<open>Properties\<close>

text \<open>C3: the session thread never hangs: if the tracks have distinct addresses and no outbound audio track has a
  frame of no samples, a round of its loop returns, for every behaviour of msquic, libopus, \<open>malloc\<close>, the
  host's callback and the server, and the tracks still satisfy the condition after it, so that every later
  round returns too.\<close>

theorem session_round_returns:
  assumes "all_drain s"
  shows "\<exists>r. session_round L Q P now s = Some r \<and> allows r all_drain"
  using session_round_returns_staying [OF all_drain_stay [OF assms], of L Q P now]
  unfolding returns_staying_def by (auto elim!: allows_mono dest: stay_all_drain)

theorem session_round_returns_witness:
  "\<exists>r. session_round counting_opus all_well (\<lambda>_. []) 0 (mic_session 67) = Some r"
proof -
  have "th_encoder (mic 67) = None"
    by (simp add: mic_def make_outbound_audio_def mic_config_def new_TrackHandle_def Let_def)
  then have "all_drain (mic_session 67)"
    by (simp add: all_drain_def mic_session_def drains_def fixed_part_def track_ptrs_def mic)
  from session_round_returns [OF this] show ?thesis
    by blast
qed

end
