(* ===== verification/Facade.thy ===== *)
theory Facade
  imports SessionLiveness
begin

text \<open>
  \<open>PanaudiaCore\<close> of \<open>core.h\<close> and \<open>panaudia_core.cpp\<close>, the interface of the library: an object that owns a
  session and passes every call on to it. Here also: a whole life of the object, as a list of the host's
  calls, the rounds of the session thread and the events of msquic, in any order. Properties: it can
  always be deleted, the handles of the tracks stay valid, and what configuring a running session does.
\<close>

section \<open>The object\<close>

text \<open>\<open>None\<close> is an object that was deleted.\<close>

record 'h PanaudiaCore =
  core_impl :: "'h Session option"

definition new_PanaudiaCore :: "'h PanaudiaCore" where
  "new_PanaudiaCore = \<lparr>core_impl = Some new_SessionManager\<rparr>"

definition with_impl :: "('h Session \<Rightarrow> 'a outcome) \<Rightarrow> 'h PanaudiaCore \<Rightarrow> 'a outcome" where
  "with_impl f c = (case core_impl c of None \<Rightarrow> Crash UseAfterFree | Some s \<Rightarrow> f s)"

definition on_impl :: "('h Session \<Rightarrow> 'h Session outcome) \<Rightarrow> 'h PanaudiaCore \<Rightarrow> 'h PanaudiaCore outcome" where
  "on_impl f c = with_impl (\<lambda>s. and_then (f s) (\<lambda>s'. Done (c\<lparr>core_impl := Some s'\<rparr>))) c"

text \<open>
  The session is destroyed: it disconnects, and then its members go, the thread object among them; to
  destroy a thread object whose thread was not joined calls \<open>std::terminate\<close>. The value is the state in which
  the session left the libraries.
\<close>

definition destroy_SessionManager :: "'h opus_lib \<Rightarrow> environment \<Rightarrow> nat \<Rightarrow> 'h Session \<Rightarrow> 'h Session outcome" where
  "destroy_SessionManager L Q now s =
     and_then (session_disconnect L Q now s) (\<lambda>s.
       if ss_session_thread s then Crash Terminated else destroy_transport L Q now s)"

definition delete_PanaudiaCore :: "'h opus_lib \<Rightarrow> environment \<Rightarrow> nat \<Rightarrow> 'h PanaudiaCore
    \<Rightarrow> ('h Session \<times> 'h PanaudiaCore) outcome" where
  "delete_PanaudiaCore L Q now c =
     with_impl (\<lambda>s. and_then (destroy_SessionManager L Q now s) (\<lambda>s'. Done (s', c\<lparr>core_impl := None\<rparr>))) c"

section \<open>The calls\<close>

definition core_configure :: "'h opus_lib \<Rightarrow> SessionConfig \<Rightarrow> 'h PanaudiaCore \<Rightarrow> 'h PanaudiaCore outcome" where
  "core_configure L config = on_impl (configure L config)"

definition core_connect :: "'h opus_lib \<Rightarrow> environment \<Rightarrow> nat \<Rightarrow> 'h PanaudiaCore \<Rightarrow> 'h PanaudiaCore outcome" where
  "core_connect L Q now = on_impl (session_connect L Q now)"

definition core_disconnect :: "'h opus_lib \<Rightarrow> environment \<Rightarrow> nat \<Rightarrow> 'h PanaudiaCore \<Rightarrow> 'h PanaudiaCore outcome" where
  "core_disconnect L Q now = on_impl (session_disconnect L Q now)"

definition core_update_jwt :: "bytes \<Rightarrow> 'h PanaudiaCore \<Rightarrow> 'h PanaudiaCore outcome" where
  "core_update_jwt jwt = on_impl (\<lambda>s. Done (update_jwt jwt s))"

definition core_get_track :: "bytes \<Rightarrow> 'h PanaudiaCore \<Rightarrow> nat option outcome" where
  "core_get_track name = with_impl (\<lambda>s. Done (get_track name s))"

definition core_write_audio :: "nat option \<Rightarrow> sample list \<Rightarrow> u32 \<Rightarrow> 'h PanaudiaCore \<Rightarrow> 'h PanaudiaCore outcome" where
  "core_write_audio track samples frame_count = on_impl (write_audio track samples frame_count)"

definition core_read_audio :: "nat option \<Rightarrow> sample list \<Rightarrow> u32 \<Rightarrow> 'h PanaudiaCore
    \<Rightarrow> (u32 \<times> sample list \<times> 'h PanaudiaCore) outcome" where
  "core_read_audio track buffer frame_count c =
     with_impl (\<lambda>s. and_then (read_audio track buffer frame_count s) (\<lambda>(frames, buffer, s').
       Done (frames, buffer, c\<lparr>core_impl := Some s'\<rparr>))) c"

definition core_send_data :: "environment \<Rightarrow> nat option \<Rightarrow> bytes option \<Rightarrow> u32 \<Rightarrow> 'h PanaudiaCore \<Rightarrow> 'h PanaudiaCore outcome" where
  "core_send_data Q track data data_len = on_impl (send_data Q track data data_len)"

definition core_get_connection_state :: "'h PanaudiaCore \<Rightarrow> ConnectionState outcome" where
  "core_get_connection_state = with_impl (\<lambda>s. Done (get_connection_state s))"

definition core_get_buffer_status :: "(u32 \<Rightarrow> u32 \<Rightarrow> 'r) \<Rightarrow> nat option \<Rightarrow> 'h PanaudiaCore \<Rightarrow> 'r BufferStatus outcome" where
  "core_get_buffer_status ratio track = with_impl (get_buffer_status ratio track)"

definition core_get_stats :: "'h PanaudiaCore \<Rightarrow> SessionStats outcome" where
  "core_get_stats = with_impl (\<lambda>s. Done (get_stats s))"

section \<open>A life of the object\<close>

text \<open>
  A step is a call of the host, one round of the session thread, or an event of msquic. A round is taken
  only by a running thread and an event reaches only a transport that can get it; otherwise nothing
  happens. The calls that only read are left out.
\<close>

datatype core_action =
    HostConfigure SessionConfig
  | HostConnect
  | HostDisconnect
  | HostUpdateJwt bytes
  | HostWriteAudio "nat option" "sample list" u32
  | HostReadAudio "nat option" "sample list" u32
  | HostSendData "nat option" "bytes option" u32
  | ThreadRound "nat \<Rightarrow> SubscribeParam list"
  | StreamEvent stream_event
  | ConnectionEvent connection_event

definition thread_round :: "'h opus_lib \<Rightarrow> environment \<Rightarrow> (nat \<Rightarrow> SubscribeParam list) \<Rightarrow> nat \<Rightarrow> 'h Session
    \<Rightarrow> 'h Session outcome option" where
  "thread_round L Q P now s = (if ss_session_running s then session_round L Q P now s else Some (Done s))"

definition msquic_stream_event :: "stream_event \<Rightarrow> 'h Session \<Rightarrow> 'h Session outcome" where
  "msquic_stream_event ev s = (if ss_transport s \<and> stream_event_possible ev s then on_stream_event ev s else Done s)"

definition msquic_connection_event :: "'h opus_lib \<Rightarrow> environment \<Rightarrow> nat \<Rightarrow> connection_event \<Rightarrow> 'h Session
    \<Rightarrow> 'h Session outcome" where
  "msquic_connection_event L Q now ev s =
     (if ss_transport s \<and> connection_event_possible ev s then on_connection_event Q (session_handler L Q now) ev s
      else Done s)"

definition core_step :: "'h opus_lib \<Rightarrow> environment \<Rightarrow> nat \<times> core_action \<Rightarrow> 'h PanaudiaCore \<Rightarrow> 'h PanaudiaCore outcome option" where
  "core_step L Q step c =
     (case step of (now, a) \<Rightarrow>
        (case a of
           HostConfigure config \<Rightarrow> Some (core_configure L config c)
         | HostConnect \<Rightarrow> Some (core_connect L Q now c)
         | HostDisconnect \<Rightarrow> Some (core_disconnect L Q now c)
         | HostUpdateJwt jwt \<Rightarrow> Some (core_update_jwt jwt c)
         | HostWriteAudio track samples n \<Rightarrow> Some (core_write_audio track samples n c)
         | HostReadAudio track buffer n \<Rightarrow> Some (and_then (core_read_audio track buffer n c) (\<lambda>(k, buffer, c). Done c))
         | HostSendData track data n \<Rightarrow> Some (core_send_data Q track data n c)
         | ThreadRound P \<Rightarrow>
             then_maybe (Some (with_impl Done c)) (\<lambda>s.
             then_maybe (thread_round L Q P now s) (\<lambda>s'. Some (Done (c\<lparr>core_impl := Some s'\<rparr>))))
         | StreamEvent ev \<Rightarrow> Some (on_impl (msquic_stream_event ev) c)
         | ConnectionEvent ev \<Rightarrow> Some (on_impl (msquic_connection_event L Q now ev) c)))"

fun core_run :: "'h opus_lib \<Rightarrow> environment \<Rightarrow> (nat \<times> core_action) list \<Rightarrow> 'h PanaudiaCore \<Rightarrow> 'h PanaudiaCore outcome option" where
  "core_run L Q [] c = Some (Done c)"
| "core_run L Q (a # as) c = then_maybe (core_step L Q a c) (core_run L Q as)"

text \<open>The host configures only while no session thread runs.\<close>

definition configures_stopped :: "nat \<times> core_action \<Rightarrow> 'h PanaudiaCore \<Rightarrow> bool" where
  "configures_stopped step c =
     (case snd step of HostConfigure config \<Rightarrow> (case core_impl c of Some s \<Rightarrow> \<not> ss_session_running s | None \<Rightarrow> True) | _ \<Rightarrow> True)"

fun used_well :: "'h opus_lib \<Rightarrow> environment \<Rightarrow> (nat \<times> core_action) list \<Rightarrow> 'h PanaudiaCore \<Rightarrow> bool" where
  "used_well L Q [] c = True"
| "used_well L Q (a # as) c =
     (configures_stopped a c \<and> (case core_step L Q a c of Some (Done c') \<Rightarrow> used_well L Q as c' | _ \<Rightarrow> True))"

definition configures :: "nat \<times> core_action \<Rightarrow> bool" where
  "configures step = (case snd step of HostConfigure config \<Rightarrow> True | _ \<Rightarrow> False)"

section \<open>A life stays within the reachable states\<close>

lemma on_impl_Done:
  "on_impl f c = Done c' \<longleftrightarrow> (\<exists>s s'. core_impl c = Some s \<and> f s = Done s' \<and> c' = c\<lparr>core_impl := Some s'\<rparr>)"
  by (auto simp: on_impl_def with_impl_def outcome_simps split: option.splits)

lemmas core_defs = core_configure_def core_connect_def core_disconnect_def core_update_jwt_def core_write_audio_def
  core_send_data_def

text \<open>What a step does to the session.\<close>

definition session_action :: "'h opus_lib \<Rightarrow> environment \<Rightarrow> nat \<Rightarrow> core_action \<Rightarrow> 'h Session \<Rightarrow> 'h Session outcome option" where
  "session_action L Q now a s =
     (case a of
        HostConfigure config \<Rightarrow> Some (configure L config s)
      | HostConnect \<Rightarrow> Some (session_connect L Q now s)
      | HostDisconnect \<Rightarrow> Some (session_disconnect L Q now s)
      | HostUpdateJwt jwt \<Rightarrow> Some (Done (update_jwt jwt s))
      | HostWriteAudio track samples n \<Rightarrow> Some (write_audio track samples n s)
      | HostReadAudio track buffer n \<Rightarrow> Some (and_then (read_audio track buffer n s) (\<lambda>(k, buffer', s'). Done s'))
      | HostSendData track data n \<Rightarrow> Some (send_data Q track data n s)
      | ThreadRound P \<Rightarrow> thread_round L Q P now s
      | StreamEvent ev \<Rightarrow> Some (msquic_stream_event ev s)
      | ConnectionEvent ev \<Rightarrow> Some (msquic_connection_event L Q now ev s))"

lemma then_maybe_Done: "then_maybe m f = Some (Done y) \<longleftrightarrow> (\<exists>x. m = Some (Done x) \<and> f x = Some (Done y))"
  by (auto simp: then_maybe_def split: option.splits outcome.splits)

lemma core_step_Done:
  assumes "core_step L Q step c = Some (Done c')"
  obtains s s' where "core_impl c = Some s" "core_impl c' = Some s'" "session_action L Q (fst step) (snd step) s = Some (Done s')"
proof -
  have "\<exists>s s'. core_impl c = Some s \<and> core_impl c' = Some s' \<and> session_action L Q (fst step) (snd step) s = Some (Done s')"
    using assms
    by (cases step; cases "snd step")
      (auto simp: core_step_def session_action_def core_defs on_impl_Done core_read_audio_def with_impl_def outcome_simps
        then_maybe_Done split: option.splits)
  then show ?thesis
    using that by blast
qed


lemma session_action_reach:
  assumes "session_reach L Q s" and "session_action L Q now a s = Some (Done s')" and "configures (now, a) \<longrightarrow> \<not> ss_session_running s"
  shows "session_reach L Q s'"
  using assms
  by (cases a)
    (auto simp: session_action_def configures_def thread_round_def msquic_stream_event_def msquic_connection_event_def
      outcome_simps split: if_splits intro: session_reach.intros)

lemma session_action_stay:
  assumes "tracks_stay K s" and "\<not> configures (now, a)"
  shows "maybe_allows (session_action L Q now a s) (tracks_stay K)"
  using assms
  by (cases a)
    (auto simp: session_action_def configures_def thread_round_def session_round_stay session_connect_stay session_disconnect_stay
      write_audio_stay send_data_stay msquic_stream_event_def msquic_connection_event_def session_stay.on_stream_event_inv
      session_stay.on_connection_event_inv intro!: allows_mono [OF read_audio_stay])

lemma core_run_keeps:
  assumes "core_run L Q steps c = Some (Done c')" and "core_impl c = Some s" and "I s"
    and "\<And>step s s'. step \<in> set steps \<Longrightarrow> I s \<Longrightarrow> session_action L Q (fst step) (snd step) s = Some (Done s') \<Longrightarrow> I s'"
  shows "\<exists>s'. core_impl c' = Some s' \<and> I s'"
  using assms
proof (induction steps arbitrary: c s)
  case (Cons a steps)
  obtain d where d: "core_step L Q a c = Some (Done d)" "core_run L Q steps d = Some (Done c')"
    using Cons.prems(1) by (auto simp: then_maybe_Done)
  obtain t t' where t: "core_impl c = Some t" "core_impl d = Some t'" "session_action L Q (fst a) (snd a) t = Some (Done t')"
    using core_step_Done [OF d(1)] .
  then have "I t'"
    using Cons.prems(4) [of a t t'] Cons.prems(2,3) by simp
  from Cons.IH [OF d(2) t(2) this] Cons.prems(4) show ?case
    by (metis list.set_intros(2))
qed simp

lemma core_run_reach:
  assumes "core_run L Q steps c = Some (Done c')" and "used_well L Q steps c" and "core_impl c = Some s"
    and "session_reach L Q s"
  shows "\<exists>s'. core_impl c' = Some s' \<and> session_reach L Q s'"
  using assms
proof (induction steps arbitrary: c s)
  case (Cons a steps)
  obtain d where d: "core_step L Q a c = Some (Done d)" "core_run L Q steps d = Some (Done c')"
    using Cons.prems(1) by (auto simp: then_maybe_Done)
  obtain t where t: "core_impl d = Some t" "session_action L Q (fst a) (snd a) s = Some (Done t)"
    using core_step_Done [OF d(1)] Cons.prems(3) by auto
  have "configures a \<longrightarrow> \<not> ss_session_running s"
    using Cons.prems(2,3) by (auto simp: configures_stopped_def configures_def split: core_action.splits)
  then have "session_reach L Q t"
    using session_action_reach [OF Cons.prems(4) t(2)] by simp
  with Cons.IH [OF d(2) _ t(1)] Cons.prems(2) d(1) show ?case
    by simp
qed simp

section \<open>Properties\<close>

text \<open>C4: the object can always be deleted: after any life in which the host configured only without a running
  session thread, the destructor returns, whatever msquic answers, and does not end the program through a
  thread that was not joined; every handle of msquic the library ever opened has then been closed, in an
  order msquic allows, and every block still allocated belongs to a send msquic has accepted.\<close>

theorem core_can_be_deleted:
  assumes "core_run L Q steps new_PanaudiaCore = Some (Done c)" and "used_well L Q steps new_PanaudiaCore"
  shows "\<exists>s c'. delete_PanaudiaCore L Q now c = Done (s, c') \<and> replay (tr_calls s) [] = Some [] \<and> mem_ok s
    \<and> ss_state s = CS_Disconnected \<and> core_impl c' = None"
proof -
  obtain s where s: "core_impl c = Some s" "session_reach L Q s"
    using core_run_reach [OF assms, of new_SessionManager] by (auto simp: new_PanaudiaCore_def sr_new)
  obtain s' where d: "session_disconnect L Q now s = Done s'" "ss_state s' = CS_Disconnected" "\<not> ss_transport s'"
      "\<not> ss_session_thread s'" "handles_of s' = []"
    using disconnect_completes [OF s(2), of now] by metis
  have "replay (tr_calls s') [] = Some []" "mem_ok s'"
    using session_reach_inv [OF sr_disconnect [OF s(2) d(1)]] d(5)
    by (simp_all add: session_inv_def session_ok_def transport_inv_def handles_inv_def)
  with d s(1) show ?thesis
    by (simp add: delete_PanaudiaCore_def with_impl_def destroy_SessionManager_def destroy_transport_def)
qed

text \<open>C5: handles are stable: from any state the object can reach, as long as the host does not configure
  again, no call of the host, no round of the session thread and no event of msquic changes what
  \<open>get_track\<close> returns for a name, and every track stays where it is with its configuration, through
  connecting, reconnecting and disconnecting.\<close>

theorem track_handles_stable:
  assumes "session_reach L Q s" and "core_impl c = Some s" and "core_run L Q steps c = Some (Done c')"
    and "\<forall>step\<in>set steps. \<not> configures step"
  shows "core_get_track name c' = core_get_track name c
    \<and> (\<forall>p t. deref p s = Done t \<longrightarrow> (\<exists>s' t'. core_impl c' = Some s' \<and> deref p s' = Done t' \<and> th_config t' = th_config t))"
proof -
  define K where "K = (ss_name_map s, track_ptrs s, \<lambda>x. x \<in> fixed_part ` set (ss_tracks s))"
  have inj: "distinct (track_ptrs s)"
    using session_invD(2) [OF session_reach_inv [OF assms(1)]] by (simp add: session_like_def session_typed_def)
  then have "tracks_stay K s"
    by (simp add: K_def tracks_stay_def)
  with core_run_keeps [OF assms(3,2), of "tracks_stay K"] assms(4) obtain s' where s': "core_impl c' = Some s'" "tracks_stay K s'"
    using session_action_stay [of K _ _ _ L Q] by (fastforce simp: maybe_allows_def allows_def)
  have "\<exists>t'. deref p s' = Done t' \<and> th_config t' = th_config t" if t: "deref p s = Done t" for p t
  proof -
    have "p \<in> set (track_ptrs s')"
      using s'(2) deref_Done [OF t] by (auto simp: K_def tracks_stay_def) (auto simp: track_ptrs_def)
    then obtain t' where t': "deref p s' = Done t'"
      using deref_exists by blast
    then have "fixed_part t' \<in> fixed_part ` set (ss_tracks s)"
      using tracks_stay_deref [OF s'(2) [unfolded K_def]] by blast
    then obtain u where u: "u \<in> set (ss_tracks s)" "fixed_part t' = fixed_part u"
      by blast
    moreover have "inj_on th_ptr (set (ss_tracks s))"
      using inj by (simp add: track_ptrs_def distinct_map)
    ultimately have "u = t"
      using deref_Done [OF t] deref_Done [OF t'] fixed_part_ptr [OF u(2)] by (metis inj_onD)
    with u(2) t' show ?thesis
      by (auto simp: fixed_part_def)
  qed
  moreover have "ss_name_map s' = ss_name_map s"
    using s'(2) by (simp add: K_def tracks_stay_def)
  ultimately show ?thesis
    using s'(1) assms(2) by (auto simp: core_get_track_def with_impl_def get_track_def)
qed


text \<open>Configuring makes new tracks at new addresses.\<close>

lemma configure_ptrs:
  "allows (configure L config s) (\<lambda>s'. (\<forall>t\<in>set (ss_tracks s'). ss_next_ptr s \<le> th_ptr t)
     \<and> ss_inbound_alias_map s' = ss_inbound_alias_map s \<and> ss_request_id_map s' = ss_request_id_map s)"
proof -
  define I :: "'a Session \<Rightarrow> bool" where
    "I u \<longleftrightarrow> ss_next_ptr s \<le> ss_next_ptr u \<and> (\<forall>t\<in>set (ss_tracks u). ss_next_ptr s \<le> th_ptr t)
       \<and> ss_inbound_alias_map u = ss_inbound_alias_map s \<and> ss_request_id_map u = ss_request_id_map s" for u
  have put: "I (u\<lparr>ss_name_map := m, ss_tracks := ss_tracks u @ [h], ss_next_ptr := ss_next_ptr u + 1\<rparr>)"
    if "I u" "th_ptr h = ss_next_ptr u" for u m h
    using that by (auto simp: I_def)
  have one: "allows (add_track L tc u) I" if "I u" for tc u
    unfolding add_track_def allows_simps by (rule allows_mono [OF make_track_typed]) (simp add: put [OF that, simplified])
  have "allows (add_tracks L tcs u) I" if "I u" for tcs u
    using that by (induction tcs arbitrary: u) (auto intro!: allows_mono [OF one])
  moreover have "I (s\<lparr>ss_tracks := [], ss_name_map := Map.empty, ss_config := config, ss_state := CS_Disconnected\<rparr>)"
    by (simp add: I_def)
  ultimately have "allows (configure L config s) I"
    by (simp add: configure_def)
  then show ?thesis
    by (rule allows_mono) (simp add: I_def)
qed

text \<open>C40: \<open>configure\<close> does not ask whether the session is connected: in every well-typed state (every reachable one is)
  it destroys the tracks and leaves the maps of the running conversation, so that the next datagram of any subscribed track, and the server's answer to
  any request that is still open, follows a pointer to a track that is gone.\<close>

theorem configure_while_subscribed_dangles:
  assumes "session_typed s" and "configure L config s = Done s'"
  shows "(ss_inbound_alias_map s (dg_track_alias dg) \<noteq> None \<longrightarrow> on_datagram L dg s' = Crash UseAfterFree)
    \<and> (ss_request_id_map s (okr_request_id r) \<noteq> None \<and> parse_subscribe_ok content = Done r
        \<longrightarrow> on_subscribe_ok content s' = Crash UseAfterFree)"
proof -
  have gone: "deref p s' = Crash UseAfterFree" if "p \<in> ran (ss_request_id_map s) \<union> ran (ss_inbound_alias_map s)" for p
  proof -
    have "p < ss_next_ptr s"
      using assms(1) that by (auto simp: session_typed_def)
    moreover have "\<forall>t\<in>set (ss_tracks s'). ss_next_ptr s \<le> th_ptr t"
      using allowsD [OF configure_ptrs assms(2)] by simp
    ultimately have "find (\<lambda>t. th_ptr t = p) (ss_tracks s') = None"
      by (auto simp: find_None_iff)
    then show ?thesis
      by (simp add: deref_def)
  qed
  have m: "ss_inbound_alias_map s' = ss_inbound_alias_map s" "ss_request_id_map s' = ss_request_id_map s"
    using allowsD [OF configure_ptrs assms(2)] by simp_all
  show ?thesis
    using gone by (auto simp: on_datagram_def on_subscribe_ok_def on_parsed_def m ranI)
qed


section \<open>Witnesses\<close>

lemma run_chat:
  "core_run counting_opus all_well [(0, HostConfigure chat_config), (0, HostConnect)] new_PanaudiaCore
    = Some (Done \<lparr>core_impl = Some connecting_chat\<rparr>)" (is ?A)
  "used_well counting_opus all_well [(0, HostConfigure chat_config), (0, HostConnect)] new_PanaudiaCore" (is ?B)
proof -
  have "\<not> ss_session_running (new_SessionManager :: nat Session)"
    by (simp add: new_session_simps)
  then show ?A ?B
    by (simp_all add: core_step_def core_defs on_impl_def with_impl_def new_PanaudiaCore_def configure_chat connect_chat(1)
        configures_stopped_def)
qed

theorem core_can_be_deleted_witness:
  "\<exists>s c. delete_PanaudiaCore counting_opus all_well 0 \<lparr>core_impl = Some connecting_chat\<rparr> = Done (s, c)
    \<and> replay (tr_calls s) [] = Some []"
  using core_can_be_deleted [OF run_chat, of 0] by blast

theorem track_handles_stable_witness:
  "core_run counting_opus all_well [(0, HostConnect)] \<lparr>core_impl = Some chat_session\<rparr>
      = Some (Done \<lparr>core_impl = Some connecting_chat\<rparr>)
    \<and> core_get_track [0x63] \<lparr>core_impl = Some connecting_chat\<rparr> = Done (Some 0)"
proof -
  have run: "core_run counting_opus all_well [(0, HostConnect)] \<lparr>core_impl = Some chat_session\<rparr>
      = Some (Done \<lparr>core_impl = Some connecting_chat\<rparr>)"
    by (simp add: core_step_def core_defs on_impl_def with_impl_def connect_chat(1))
  have "core_get_track [0x63] \<lparr>core_impl = Some (chat_session :: nat Session)\<rparr> = Done (Some 0)"
    by (simp add: core_get_track_def with_impl_def get_track_def chat_session_def)
  with track_handles_stable [OF session_reach_chat _ run] run show ?thesis
    by (simp add: configures_def)
qed

theorem configure_while_subscribed_dangles_witness:
  "\<exists>s'. configure counting_opus default_SessionConfig talking_chat = Done s'
    \<and> on_datagram counting_opus \<lparr>dg_track_alias = 5, dg_group_id = 0, dg_object_id = 0, dg_priority = 128,
         dg_payload = [1]\<rparr> s' = Crash UseAfterFree"
proof -
  obtain s' where c: "configure counting_opus default_SessionConfig talking_chat = Done s'"
    by (simp add: configure_def default_SessionConfig_def)
  have "session_typed talking_chat"
    by (simp add: session_typed_def talking_chat_def chat_session_def chat_track_def track_ptrs_def new_TrackHandle_def
        default_TrackConfig_def track_typed_def new_session_simps)
  moreover have "ss_inbound_alias_map talking_chat 5 = Some 0"
    by (simp add: talking_chat_def)
  ultimately show ?thesis
    using configure_while_subscribed_dangles [OF _ c] c by fastforce
qed

end
