(* ===== verification/Reconnection.thy ===== *)
theory Reconnection
  imports Facade "HOL-Library.Sublist"
begin

text \<open>
  A reconnection cycle as a whole: the rounds of the session thread with whatever msquic reports and the host
  does between them. Lemmas: what leaves the life cycle of a session alone; a transport that has just begun
  to connect has nothing to process, and the next round replaces it, since no attempt moves the deadline.
  Property: the cycle ends with the host told of the failure.
\<close>

section \<open>What leaves the life cycle alone\<close>

text \<open>\<open>lives K s\<close> fixes the fields of the session's life cycle.\<close>

definition life_of :: "'h Session \<Rightarrow> (ConnectionState \<times> string option) list \<times> bool \<times> ConnectionState \<times> u32 \<times> nat
    \<times> u32 \<times> bool \<times> bool \<times> bool" where
  "life_of s = (ss_status s, ss_reconnecting s, ss_state s, ss_reconnect_attempt s, ss_reconnect_deadline s,
     sc_max_reconnect_attempts (ss_config s), sc_status_callback (ss_config s), ss_session_running s, ss_transport s)"

definition lives :: "(ConnectionState \<times> string option) list \<times> bool \<times> ConnectionState \<times> u32 \<times> nat
    \<times> u32 \<times> bool \<times> bool \<times> bool \<Rightarrow> 'h Session \<Rightarrow> bool" where
  "lives K s \<longleftrightarrow> life_of s = K"

lemma lives_client: "same_client s s' \<Longrightarrow> lives K s' = lives K s"
  by (simp add: lives_def life_of_def client_simps)

lemma lives_fields [simp]:
  "lives K (update_track p f s) = lives K s" "lives K (update_jwt jwt s) = lives K s"
  "lives K (s\<lparr>ss_request_id_map := m\<rparr>) = lives K s" "lives K (s\<lparr>ss_inbound_alias_map := m\<rparr>) = lives K s"
  "lives K (s\<lparr>ss_outbound_alias_map := m\<rparr>) = lives K s" "lives K (s\<lparr>ss_next_track_alias := n\<rparr>) = lives K s"
  "lives K (s\<lparr>ss_next_request_id := n\<rparr>) = lives K s" "lives K (s\<lparr>ss_orchestration_started := b\<rparr>) = lives K s"
  "lives K (s\<lparr>ss_first_subscribe_sent := b\<rparr>) = lives K s" "lives K (s\<lparr>ss_data_received := x\<rparr>) = lives K s"
  "lives K (s\<lparr>tr_events := e\<rparr>) = lives K s" "lives K (s\<lparr>tr_max_dgram_size := w\<rparr>) = lives K s"
  "lives K (s\<lparr>tr_pending_connected := b\<rparr>) = lives K s" "lives K (s\<lparr>tr_pending_transport_shutdown := b\<rparr>) = lives K s"
  "lives K (s\<lparr>tr_pending_peer_shutdown := b\<rparr>) = lives K s" "lives K (s\<lparr>tr_datagram_sends := bs\<rparr>) = lives K s"
  by (simp_all add: lives_def life_of_def update_track_def update_jwt_def)

lemma send_framed_lives: "lives K s \<Longrightarrow> allows (send_framed Q m s) (lives K)"
  by (auto simp: send_framed_def intro!: allows_mono [OF send_control_same_client] dest: lives_client)

lemma write_jitter_lives: "lives K s \<Longrightarrow> allows (write_jitter p n s) (lives K)"
  by (auto simp: write_jitter_def intro!: allowsI [of "deref _ _"] allowsI [of "jb_write _ _ _"] split: option.split)

lemma on_datagram_lives: "lives K s \<Longrightarrow> allows (on_datagram L dg s) (lives K)"
  by (auto simp: on_datagram_def dispatch_audio_datagram_def dispatch_data_datagram_def Let_def
      intro!: allowsI [of "deref _ _"] allowsI [of "decode_opus _ _ _ _"] allowsI [of "pcm_unframe _ _ _ _"] write_jitter_lives
      split: option.split prod.split)

lemma send_datagram_lives: "lives K s \<Longrightarrow> allows (send_datagram Q dg n s) (\<lambda>(ok, s'). lives K s')"
  by (rule allows_mono [OF send_datagram_same_client]) (auto dest: lives_client)

text \<open>The calls of the host that do not connect, disconnect or configure, and the events of msquic.\<close>

lemma on_connection_event_lives:
  assumes "lives K s"
  shows "allows (on_connection_event Q (session_handler L Q now) ev s) (lives K)"
proof -
  have "lives K (snd (sys Q SetCallbackHandler s))"
    using assms lives_client [OF sys_same_client [of Q SetCallbackHandler s]] by (metis surjective_pairing)
  moreover have "allows (free_block b (s\<lparr>tr_datagram_sends := xs\<rparr>)) (lives K)" for b xs
    by (rule free_block_allows) (use assms lives_client in fastforce)
  ultimately show ?thesis
    using assms
    by (cases ev) (auto simp: on_connection_event_def fire_def session_handler_def Let_def on_datagram_lives
        split: outcome.split option.split)
qed

definition between_rounds :: "core_action \<Rightarrow> bool" where
  "between_rounds a \<longleftrightarrow>
     (case a of
        HostUpdateJwt _ \<Rightarrow> True | HostWriteAudio _ _ _ \<Rightarrow> True | HostReadAudio _ _ _ \<Rightarrow> True | HostSendData _ _ _ \<Rightarrow> True
      | StreamEvent _ \<Rightarrow> True | ConnectionEvent _ \<Rightarrow> True | _ \<Rightarrow> False)"

lemma between_rounds_lives:
  assumes "lives K s" and "between_rounds a"
  shows "\<exists>r. session_action L Q now a s = Some r \<and> allows r (lives K)"
proof -
  have "allows (write_audio track samples n s) (lives K)" for track samples n
    using assms(1) by (auto simp: write_audio_def intro!: allowsI [of "deref _ _"] allowsI [of "rb_write _ _ _"] split: option.split)
  moreover have rd: "allows (read_audio track buffer n s) (\<lambda>(k, buffer', s'). lives K s')" for track buffer n
    using assms(1) by (auto simp: read_audio_def intro!: allowsI [of "deref _ _"] allowsI [of "jb_read _ _ _"] split: option.split)
  have "allows (and_then (read_audio track buffer n s) (\<lambda>(k, buffer', s'). Done s')) (lives K)" for track buffer n
    unfolding allows_simps by (rule allows_mono [OF rd]) auto
  moreover have "allows (send_data Q track data n s) (lives K)" for track data n
    using assms(1) by (auto simp: send_data_def Let_def split: option.split intro!: allowsI [of "deref _ _"]
        allowsI [of "build_object_datagram _ _ _ _ _ _"] allows_mono [OF send_datagram_lives])
  moreover have "allows (on_stream_event ev s) (lives K)" for ev
    by (rule allows_mono [OF on_stream_event_same_client]) (use assms(1) lives_client in blast)
  ultimately show ?thesis
    using assms on_connection_event_lives [OF assms(1)]
    by (cases a) (simp_all add: between_rounds_def session_action_def msquic_stream_event_def msquic_connection_event_def)
qed

section \<open>A transport that has just begun to connect\<close>

definition quiet :: "'h Session \<Rightarrow> bool" where
  "quiet s \<longleftrightarrow>
     tr_current_state s = TS_Connecting \<and> \<not> tr_pending_connected s \<and> \<not> tr_pending_transport_shutdown s \<and>
     \<not> tr_pending_peer_shutdown s \<and> tr_pending_control_data s = [] \<and> tr_recv_buffer s = []"

lemma quiet_state_change: "quiet (handle_transport_state_change now ts m s) = quiet s"
  by (simp add: quiet_def handle_transport_state_change_def reconnecting_state_change_def notify_def split: TransportState.split)

text \<open>It has nothing to process.\<close>

lemma quiet_round:
  assumes "quiet s"
  shows "process_incoming Q H s = Done s"
proof -
  have "take_chunks s = s"
    using assms by (cases s) (simp add: quiet_def take_chunks_def)
  with assms show ?thesis
    by (simp add: process_incoming_def drain_and_parse_def take_connected_def take_transport_shutdown_def
        take_peer_shutdown_def parse_received_def quiet_def)
qed

lemma connect_new_quiet: "allows (connect_new L Q now s) (\<lambda>(ok, s'). ok \<longrightarrow> quiet s')"
proof -
  let ?H = "session_handler L Q now"
  have failed: "allows (connect_failed Q ?H msg u) (\<lambda>(ok, s'). ok \<longrightarrow> quiet s')" for msg and u :: "'a Session"
    by (simp add: connect_failed_def allowsI)
  have init: "quiet u'" if "init_quic Q config u = (ok, u')" "quiet u" for config ok and u u' :: "'a Session"
    using that by (auto simp: init_quic_def sys_def Let_def quiet_def split: if_splits)
  have start: "allows (start_connection Q config u) (\<lambda>(ok, u'). quiet u')" if "quiet u" for config and u :: "'a Session"
    using that by (simp add: start_connection_def sys_def Let_def quiet_def)
  have open_q: "allows (open_connection Q ?H config u) (\<lambda>(ok, s'). ok \<longrightarrow> quiet s')" if "quiet u" for config u
    using init [OF _ that] failed
    by (auto simp: open_connection_def split: prod.split intro!: allows_mono [OF start])
  have arriving: "allows (set_state ?H TS_Connecting m u) quiet"
    if "\<not> tr_pending_connected u" "\<not> tr_pending_transport_shutdown u" "\<not> tr_pending_peer_shutdown u"
      "tr_pending_control_data u = []" "tr_recv_buffer u = []" for m u
  proof -
    have "quiet (u\<lparr>tr_current_state := TS_Connecting, tr_events := es\<rparr>)" "quiet (u\<lparr>tr_current_state := TS_Connecting\<rparr>)" for es
      using that by (simp_all add: quiet_def)
    then show ?thesis
      by (simp add: set_state_def fire_def session_handler_def Let_def quiet_state_change)
  qed
  show ?thesis
    by (auto simp: connect_new_def transport_connect_def new_transport_def intro!: allows_mono [OF arriving] open_q)
qed

lemma attempt_reconnect_quiet:
  assumes "ss_reconnect_attempt s < sc_max_reconnect_attempts (ss_config s)"
  shows "allows (attempt_reconnect L Q now s) (\<lambda>s'. ss_transport s' \<longrightarrow> quiet s')"
proof -
  have d: "allows (destroy_transport L Q now v) (\<lambda>s'. \<not> ss_transport s')" for v
    by (rule yields_allows [OF yields_mono [OF destroy_transport_session]]) simp
  have "\<not> sc_max_reconnect_attempts (ss_config s) < ss_reconnect_attempt s + 1"
    using assms by (simp add: inc_le not_less)
  then show ?thesis
    by (auto simp: attempt_reconnect_def Let_def intro!: allowsI [of "tear_down _ _ _ _"] allows_mono [OF connect_new_quiet]
        allows_mono [OF d])
qed

section \<open>The rest of a round\<close>

lemma handle_control_message_lives: "lives K s \<Longrightarrow> allows (handle_control_message Q type content s) (lives K)"
  by (auto simp: handle_control_message_def on_subscribe_ok_def on_subscribe_error_def on_subscribe_def on_announce_def
      on_announce_ok_def on_subscribe_announces_def name_request_def Let_def intro!: on_parsed_allows allowsI [of "deref _ _"]
      send_framed_lives split: MessageType.split option.split)

lemma start_orchestration_lives:
  assumes "lives K s"
  shows "allows (start_orchestration Q P s) (lives K)"
proof -
  have assign: "lives K (assign_request_id p s) = lives K s" for p and s :: "'a Session"
    by (simp add: assign_request_id_def Let_def)
  have sub: "lives K s \<Longrightarrow> allows (subscribe_tracks Q P ps s) (lives K)" for ps and s :: "'a Session"
    by (induction ps arbitrary: s)
      (auto simp: subscribe_track_def Let_def assign intro!: allowsI [of "deref _ _"] allows_mono [OF send_framed_lives])
  have ann: "lives K s \<Longrightarrow> allows (announce_tracks Q ps s) (lives K)" for ps and s :: "'a Session"
    by (induction ps arbitrary: s)
      (auto simp: announce_track_def Let_def assign intro!: allowsI [of "deref _ _"] allows_mono [OF send_framed_lives])
  show ?thesis
    using assms by (auto simp: start_orchestration_def Let_def intro!: allows_mono [OF sub] ann)
qed

lemma take_frame_lives: "lives K s \<Longrightarrow> allows (take_frame p n s) (\<lambda>(t, s'). lives K s')"
  by (auto simp: take_frame_def Let_def split: option.split
      intro!: allowsI [of "deref _ _"] allowsI [of "rb_read _ _"] allowsI [of "mem_write _ _ _"])

lemma send_frame_lives: "lives K s \<Longrightarrow> allows (send_frame Q p n s) (lives K)"
  by (auto simp: send_frame_def Let_def intro!: allowsI [of "deref _ _"] allowsI [of "mem_read _ _ _"] allowsI [of "mem_write _ _ _"]
      allowsI [of "build_object_datagram_header _ _ _ _ _"] allows_mono [OF send_datagram_lives])

lemma pcm_round_lives: "lives K s \<Longrightarrow> allows (pcm_round Q p n s) (lives K)"
  by (auto simp: pcm_round_def intro!: allows_mono [OF take_frame_lives] allowsI [of "pcm_frame _ _ _ _"] send_frame_lives)

lemma opus_round_lives: "lives K s \<Longrightarrow> allows (opus_round L Q p n s) (lives K)"
  by (auto simp: opus_round_def Let_def split: option.split intro!: allows_mono [OF take_frame_lives]
      allowsI [of "encoder_encode _ _ _ _ _ _"] send_frame_lives)

lemma poll_tracks_lives: "lives K s \<Longrightarrow> maybe_allows (poll_tracks L Q ps s) (lives K)"
proof (induction ps arbitrary: s)
  case (Cons p ps)
  have "maybe_allows (poll_track L Q p s) (lives K)"
    using Cons.prems
    by (auto simp: poll_track_def send_audio_frame_def send_pcm_frame_def Let_def split: option.split
        intro!: maybe_allows_deref maybe_allows_loop pcm_round_lives opus_round_lives)
  with Cons.IH show ?case
    by (auto intro!: maybe_allows_then)
qed simp

section \<open>Being told of the failure\<close>

text \<open>The first thing the host has been told since it was told \<open>st\<close> is that reconnecting failed.\<close>

definition told_failed :: "(ConnectionState \<times> string option) list \<Rightarrow> 'h Session \<Rightarrow> bool" where
  "told_failed st s \<longleftrightarrow> prefix (st @ [(CS_Failed, Some ''Reconnection failed'')]) (ss_status s)"

lemma told_failed_lives: "told_failed st s \<Longrightarrow> lives (life_of s) s' \<Longrightarrow> told_failed st s'"
  by (simp add: told_failed_def lives_def life_of_def)

lemma lives_self: "lives (life_of s) s"
  by (simp add: lives_def)

lemma told_failed_allows: "(\<And>K. lives K s \<Longrightarrow> allows m (lives K)) \<Longrightarrow> told_failed st s \<Longrightarrow> allows m (told_failed st)"
  using told_failed_lives lives_self by (metis allows_mono)

lemma told_failed_fields [simp]:
  "told_failed st (s\<lparr>ss_transport := b\<rparr>) = told_failed st s" "told_failed st (s\<lparr>ss_reconnect_deadline := d\<rparr>) = told_failed st s"
  "told_failed st (s\<lparr>ss_reconnect_attempt := n\<rparr>) = told_failed st s"
  "told_failed st (s\<lparr>ss_total_reconnect_count := n\<rparr>) = told_failed st s"
  "told_failed st (s\<lparr>ss_reconnecting := b\<rparr>) = told_failed st s" "told_failed st (s\<lparr>ss_state := c\<rparr>) = told_failed st s"
  "told_failed st (reset_moq_state s) = told_failed st s" "told_failed st (flush_outbound s) = told_failed st s"
  "told_failed st (new_transport s) = told_failed st s"
  by (simp_all add: told_failed_def reset_moq_state_def flush_outbound_def new_transport_def)

lemma told_failed_notify: "told_failed st s \<Longrightarrow> told_failed st (notify c m s)"
  by (auto simp: told_failed_def notify_def)

lemma told_failed_state_change: "told_failed st s \<Longrightarrow> told_failed st (handle_transport_state_change now ts m s)"
  by (auto simp: handle_transport_state_change_def reconnecting_state_change_def told_failed_notify split: TransportState.split)

lemma told_failed_handler: "told_failed st s \<Longrightarrow> allows (session_handler L Q now ev s) (told_failed st)"
  by (cases ev) (auto simp: session_handler_def told_failed_state_change
      intro: told_failed_allows [OF handle_control_message_lives] told_failed_allows [OF on_datagram_lives])

interpretation told: client_state "session_handler L Q now" "told_failed st" for L Q now st
proof
  show "told_failed st s'" if "same_client s s'" and "told_failed st s" for s s' :: "'a Session"
    using that by (simp add: told_failed_def client_simps)
  show "told_failed st s'" if "told_failed st s" and "session_handler L Q now ev s = Done s'" for s s' :: "'a Session" and ev
    using allowsD [OF told_failed_handler [OF that(1)] that(2)] .
qed

lemma told_failed_attempt: "told_failed st s \<Longrightarrow> allows (attempt_reconnect L Q now s) (told_failed st)"
proof -
  have destroy: "allows (destroy_transport L Q now u) (told_failed st)" if "told_failed st u" for u
    using that by (simp add: destroy_transport_def told.transport_disconnect_inv)
  have tear: "allows (tear_down L Q now u) (told_failed st)" if "told_failed st u" for u
    using that by (auto simp: tear_down_def intro!: allows_mono [OF told.transport_disconnect_inv] destroy)
  have connect: "allows (connect_new L Q now u) (\<lambda>(ok, s'). told_failed st s')" if "told_failed st u" for u
    unfolding connect_new_def by (rule told.transport_connect_inv) (use that in simp)
  assume "told_failed st s"
  then show ?thesis
    by (auto simp: attempt_reconnect_def Let_def told_failed_notify intro!: allows_mono [OF tear] allows_mono [OF connect]
        allows_mono [OF destroy])
qed

lemma maybe_allows_mono: "maybe_allows m P \<Longrightarrow> (\<And>x. P x \<Longrightarrow> R x) \<Longrightarrow> maybe_allows m R"
  by (cases m) (auto elim!: allows_mono)

lemma told_failed_rest:
  assumes "told_failed st s"
  shows "maybe_allows (if ss_transport s then
         then_maybe (Some (process_incoming Q (session_handler L Q now) s)) (\<lambda>s.
         then_maybe (Some (orchestrate_if_ready Q P s)) (\<lambda>s.
           if ss_state s = CS_Connected then poll_outbound_tracks L Q s else Some (Done s)))
       else Some (Done s)) (told_failed st)"
proof -
  have orch: "allows (orchestrate_if_ready Q P u) (told_failed st)" if "told_failed st u" for u :: "'a Session"
    using that by (auto simp: orchestrate_if_ready_def intro: told_failed_allows [OF start_orchestration_lives])
  have poll: "maybe_allows (poll_outbound_tracks L Q u) (told_failed st)" if "told_failed st u" for u :: "'a Session"
    unfolding poll_outbound_tracks_def
    by (rule maybe_allows_mono [OF poll_tracks_lives [OF lives_self]]) (rule told_failed_lives [OF that])
  show ?thesis
    using assms
    by (auto simp: poll intro!: maybe_allows_then [where P = "told_failed st"] told.process_incoming_inv orch)
qed

lemma told_failed_round: "told_failed st s \<Longrightarrow> maybe_allows (session_round L Q P now s) (told_failed st)"
  unfolding session_round_def
  by (rule maybe_allows_then [where P = "told_failed st"]) (auto simp: told_failed_attempt told_failed_rest)

section \<open>A cycle\<close>

text \<open>
  A session that reconnects, \<open>m\<close> attempts allowed, and whose host has been told \<open>st\<close> so far. The deadline of
  a session with a transport has passed: no attempt moved it.
\<close>

definition in_cycle :: "nat \<Rightarrow> (ConnectionState \<times> string option) list \<Rightarrow> u32 \<Rightarrow> 'h Session \<Rightarrow> bool" where
  "in_cycle now st m s \<longleftrightarrow>
     ss_status s = st \<and> ss_reconnecting s \<and> ss_state s = CS_Reconnecting \<and> ss_session_running s \<and>
     sc_max_reconnect_attempts (ss_config s) = m \<and> sc_status_callback (ss_config s) \<and> ss_reconnect_attempt s \<le> m \<and>
     (ss_transport s \<longrightarrow> ss_reconnect_deadline s \<le> now)"

lemma in_cycle_lives:
  "in_cycle t st m s \<Longrightarrow> lives (life_of s) s' \<Longrightarrow> t \<le> now \<Longrightarrow>
     in_cycle now st m s' \<and> ss_reconnect_attempt s' = ss_reconnect_attempt s"
  by (auto simp: in_cycle_def lives_def life_of_def)

lemma waiting_round:
  "in_cycle t st m s \<Longrightarrow> t \<le> now \<Longrightarrow> \<not> reconnect_due now s \<Longrightarrow> session_round L Q P now s = Some (Done s)"
  by (auto simp: in_cycle_def reconnect_due_def session_round_def)

text \<open>A round that is due and has an attempt left always returns.\<close>

lemma attempt_round:
  assumes "in_cycle t st m s" and "reconnect_due now s" and "ss_reconnect_attempt s < m"
  shows "\<exists>s'. session_round L Q P now s = Some (Done s') \<and> (ss_transport s' \<longrightarrow> quiet s')
    \<and> (if ss_reconnecting s' then in_cycle now st m s' \<and> ss_reconnect_attempt s' = ss_reconnect_attempt s + 1
       else told_failed st s' \<and> \<not> ss_transport s')"
proof -
  have s: "ss_reconnecting s" "ss_status s = st" "ss_state s = CS_Reconnecting" "ss_session_running s"
    "sc_max_reconnect_attempts (ss_config s) = m" "sc_status_callback (ss_config s)" "ss_reconnect_deadline s \<le> now"
    using assms(1,2) by (simp_all add: in_cycle_def reconnect_due_def)
  obtain u where u: "attempt_reconnect L Q now s = Done u" "attempt_outcome now s u"
    using attempt_reconnect_session [of s L Q now] s assms(3) by (auto elim: yieldsE)
  have q: "ss_transport u \<Longrightarrow> quiet u"
    using allowsD [OF attempt_reconnect_quiet u(1)] s(5) assms(3) by simp
  have a: "ss_reconnect_attempt u = ss_reconnect_attempt s + 1" "ss_config u = ss_config s" "ss_session_running u"
    using u(2) s(4) by (simp_all add: attempt_outcome_def life_kept_def)
  have le: "ss_reconnect_attempt s + 1 \<le> m"
    using assms(3) by (rule inc_le)
  have "ss_state u \<noteq> CS_Connected"
    using u(2) s(3) by (auto simp: attempt_outcome_def still_trying_def given_up_def split: if_splits)
  then have "session_round L Q P now s = Some (Done u)"
    using assms(2) u(1) q by (auto simp: session_round_def quiet_round orchestrate_if_ready_def quiet_def)
  moreover have "if ss_reconnecting u then in_cycle now st m u \<and> ss_reconnect_attempt u = ss_reconnect_attempt s + 1
       else told_failed st u \<and> \<not> ss_transport u"
    using u(2) s a le
    by (auto simp: attempt_outcome_def still_trying_def given_up_def in_cycle_def told_failed_def split: if_splits)
  ultimately show ?thesis
    using q by blast
qed

text \<open>One that has none left tells the host first.\<close>

lemma last_round:
  assumes "in_cycle t st m s" and "reconnect_due now s" and "ss_reconnect_attempt s = m" and "unat m + 1 < 2 ^ 32"
  shows "maybe_allows (session_round L Q P now s) (told_failed st)"
    and "ss_transport s \<longrightarrow> quiet s \<Longrightarrow> \<exists>s'. session_round L Q P now s = Some (Done s') \<and> told_failed st s'
           \<and> \<not> ss_reconnecting s' \<and> ss_state s' = CS_Failed"
proof -
  define u where "u = notify CS_Failed (Some ''Reconnection failed'') (s\<lparr>ss_reconnect_attempt := m + 1,
     ss_total_reconnect_count := ss_total_reconnect_count s + 1, ss_reconnecting := False, ss_state := CS_Failed\<rparr>)"
  have s: "sc_max_reconnect_attempts (ss_config s) = m" "sc_status_callback (ss_config s)" "ss_status s = st"
    using assms(1) by (simp_all add: in_cycle_def)
  have "m < m + 1"
    using assms(4) by (simp add: word_less_nat_alt unat_plus_no_wrap)
  then have a: "attempt_reconnect L Q now s = Done u"
    using s(1) assms(3) by (simp add: attempt_reconnect_def Let_def u_def)
  have u: "told_failed st u" "\<not> ss_reconnecting u" "ss_state u = CS_Failed" "ss_transport u = ss_transport s"
    "quiet u = quiet s"
    using s(2,3) by (simp_all add: u_def notify_def told_failed_def quiet_def)
  show "maybe_allows (session_round L Q P now s) (told_failed st)"
    unfolding session_round_def using assms(2) told_failed_rest [OF u(1)] by (simp add: a)
  show "\<exists>s'. session_round L Q P now s = Some (Done s') \<and> told_failed st s' \<and> \<not> ss_reconnecting s' \<and> ss_state s' = CS_Failed"
    if "ss_transport s \<longrightarrow> quiet s"
    using that u assms(2) by (auto simp: session_round_def a quiet_round orchestrate_if_ready_def quiet_def)
qed

section \<open>Any run during a cycle\<close>

text \<open>
  The steps of a life (\<open>Facade\<close>) except that the host does not configure, connect or disconnect. The run
  counts the rounds that found the deadline passed.
\<close>

definition leaves_session :: "core_action \<Rightarrow> bool" where
  "leaves_session a \<longleftrightarrow> between_rounds a \<or> (case a of ThreadRound P \<Rightarrow> True | _ \<Rightarrow> False)"

definition due_round :: "nat \<times> core_action \<Rightarrow> 'h Session \<Rightarrow> bool" where
  "due_round step s \<longleftrightarrow>
     (case snd step of ThreadRound P \<Rightarrow> ss_session_running s \<and> reconnect_due (fst step) s | _ \<Rightarrow> False)"

fun cycle_run :: "'h opus_lib \<Rightarrow> environment \<Rightarrow> (nat \<times> core_action) list \<Rightarrow> nat \<Rightarrow> 'h Session
    \<Rightarrow> (nat \<times> 'h Session) outcome option" where
  "cycle_run L Q [] n s = Some (Done (n, s))"
| "cycle_run L Q (a # as) n s =
     then_maybe (session_action L Q (fst a) (snd a) s) (cycle_run L Q as (if due_round a s then n + 1 else n))"

text \<open>Either the host has been told, or every such round has used up one attempt.\<close>

definition cycle_inv :: "nat \<Rightarrow> (ConnectionState \<times> string option) list \<Rightarrow> u32 \<Rightarrow> nat \<Rightarrow> 'h Session \<Rightarrow> bool" where
  "cycle_inv now st m k s \<longleftrightarrow> told_failed st s \<or> (in_cycle now st m s \<and> unat (ss_reconnect_attempt s) = k)"

lemma maybe_allows_conj: "maybe_allows r P \<Longrightarrow> maybe_allows r R \<Longrightarrow> maybe_allows r (\<lambda>x. P x \<and> R x)"
  by (cases r) (auto intro!: allowsI)

lemma cycle_round:
  assumes "cycle_inv t st m k s" and "t \<le> now" and "unat m + 1 < 2 ^ 32"
  shows "maybe_allows (session_round L Q P now s)
     (cycle_inv now st m (if reconnect_due now s then k + 1 else k))"
proof (cases "told_failed st s")
  case True
  show ?thesis
    by (rule maybe_allows_mono [OF told_failed_round [OF True]]) (simp add: cycle_inv_def)
next
  case False
  then have c: "in_cycle t st m s" "unat (ss_reconnect_attempt s) = k" "ss_reconnect_attempt s \<le> m"
    using assms(1) by (simp_all add: cycle_inv_def in_cycle_def)
  consider "\<not> reconnect_due now s" | "reconnect_due now s" "ss_reconnect_attempt s < m"
    | "reconnect_due now s" "ss_reconnect_attempt s = m"
    using c(3) by fastforce
  then show ?thesis
  proof cases
    case 1
    with waiting_round [OF c(1) assms(2) 1] in_cycle_lives [OF c(1) lives_self assms(2)] c(2) show ?thesis
      by (simp add: cycle_inv_def)
  next
    case 2
    have "unat (ss_reconnect_attempt s + 1) = k + 1"
      using 2(2) assms(3) c(2) by (simp add: word_less_nat_alt unat_plus_no_wrap)
    with attempt_round [OF c(1) 2, of L Q P] 2(1) show ?thesis
      by (auto simp: cycle_inv_def split: if_splits)
  next
    case 3
    show ?thesis
      by (rule maybe_allows_mono [OF last_round(1) [OF c(1) 3 assms(3)]]) (simp add: cycle_inv_def)
  qed
qed

lemma cycle_step:
  assumes "tracks_stay (h, ps, drained) s" and "cycle_inv t st m k s" and "t \<le> now" and "unat m + 1 < 2 ^ 32"
    and "leaves_session a"
  shows "\<exists>r. session_action L Q now a s = Some r
     \<and> allows r (\<lambda>s'. tracks_stay (h, ps, drained) s' \<and> cycle_inv now st m (if due_round (now, a) s then k + 1 else k) s')"
proof -
  have "maybe_allows (session_action L Q now a s) (cycle_inv now st m (if due_round (now, a) s then k + 1 else k))
      \<and> session_action L Q now a s \<noteq> None"
  proof (cases "between_rounds a")
    case True
    then have d: "\<not> due_round (now, a) s"
      by (simp add: between_rounds_def due_round_def split: core_action.splits)
    obtain r where r: "session_action L Q now a s = Some r" "allows r (lives (life_of s))"
      using between_rounds_lives [OF lives_self True] by blast
    have "cycle_inv now st m k s'" if "lives (life_of s) s'" for s'
      using assms(2) told_failed_lives [OF _ that] in_cycle_lives [OF _ that assms(3)] by (auto simp: cycle_inv_def)
    with r d show ?thesis
      by (auto elim!: allows_mono)
  next
    case False
    then obtain P where a: "a = ThreadRound P"
      using assms(5) by (auto simp: leaves_session_def split: core_action.splits)
    have idle: "cycle_inv now st m k s"
      using assms(2) in_cycle_lives [OF _ lives_self assms(3)] by (auto simp: cycle_inv_def)
    show ?thesis
      using cycle_round [OF assms(2-4)] session_round_returns_staying [OF assms(1), of L Q P now] idle
      by (auto simp: a session_action_def thread_round_def due_round_def returns_staying_def)
  qed
  moreover have "maybe_allows (session_action L Q now a s) (tracks_stay (h, ps, drained))"
    by (rule session_action_stay [OF assms(1)]) (use assms(5) in
        \<open>auto simp: leaves_session_def between_rounds_def configures_def split: core_action.splits\<close>)
  ultimately show ?thesis
    using maybe_allows_conj [of "session_action L Q now a s"] by (cases "session_action L Q now a s") auto
qed

lemma cycle_run_ends:
  "tracks_stay (h, ps, drained) s \<Longrightarrow> cycle_inv t st m (k + n) s \<Longrightarrow> sorted (t # map fst steps) \<Longrightarrow>
     list_all (leaves_session \<circ> snd) steps \<Longrightarrow> unat m + 1 < 2 ^ 32 \<Longrightarrow>
     \<exists>r. cycle_run L Q steps n s = Some r \<and> allows r (\<lambda>(n, s'). \<exists>now. cycle_inv now st m (k + n) s')"
proof (induction steps arbitrary: t n s)
  case (Cons a steps)
  obtain now act where a: "a = (now, act)"
    by (cases a)
  let ?n = "if due_round a s then n + 1 else n"
  obtain r where r: "session_action L Q now act s = Some r"
    "allows r (\<lambda>s'. tracks_stay (h, ps, drained) s' \<and> cycle_inv now st m (k + ?n) s')"
    using cycle_step [OF Cons.prems(1,2) _ Cons.prems(5), of now act L Q] Cons.prems(3,4) a by (auto split: if_splits)
  show ?case
  proof (cases r)
    case (Done s')
    with r(2) have "tracks_stay (h, ps, drained) s'" "cycle_inv now st m (k + ?n) s'"
      by simp_all
    from Cons.IH [OF this _ _ Cons.prems(5)] Cons.prems(3,4) a show ?thesis
      by (simp add: r(1) Done)
  qed (simp_all add: a r(1))
qed auto

section \<open>Rounds only\<close>

lemma late_rounds_over:
  "\<not> ss_reconnecting s \<Longrightarrow> \<not> ss_transport s \<Longrightarrow> late_rounds L Q P ws s = Some (Done s)"
  by (induction ws) (simp_all add: session_round_def reconnect_due_def)

lemma late_rounds_fail:
  "in_cycle t st m s \<Longrightarrow> ss_reconnect_attempt s < m \<or> (ss_transport s \<longrightarrow> quiet s) \<Longrightarrow> unat m + 1 < 2 ^ 32 \<Longrightarrow>
     unat (ss_reconnect_attempt s) + length ws = unat m + 1 \<Longrightarrow>
     \<exists>s'. late_rounds L Q P ws s = Some (Done s') \<and> told_failed st s' \<and> \<not> ss_reconnecting s'"
proof (induction ws arbitrary: t s)
  case Nil
  then show ?case
    by (simp add: in_cycle_def word_le_nat_alt)
next
  case (Cons w ws)
  let ?now = "ss_reconnect_deadline s + w"
  have due: "reconnect_due ?now s"
    using Cons.prems(1) by (simp add: reconnect_due_def in_cycle_def)
  show ?case
  proof (cases "ss_reconnect_attempt s < m")
    case True
    obtain u where u: "session_round L Q P ?now s = Some (Done u)" "ss_transport u \<longrightarrow> quiet u"
      "if ss_reconnecting u then in_cycle ?now st m u \<and> ss_reconnect_attempt u = ss_reconnect_attempt s + 1
       else told_failed st u \<and> \<not> ss_transport u"
      using attempt_round [OF Cons.prems(1) due True] by blast
    have "unat (ss_reconnect_attempt s + 1) = unat (ss_reconnect_attempt s) + 1"
      using True Cons.prems(3) by (simp add: word_less_nat_alt unat_plus_no_wrap)
    with Cons.IH [of ?now u] Cons.prems(3,4) u late_rounds_over [of u L Q P ws] show ?thesis
      by (cases "ss_reconnecting u") auto
  next
    case False
    then have last: "ss_reconnect_attempt s = m"
      using Cons.prems(1) by (simp add: in_cycle_def)
    then have "ws = []"
      using Cons.prems(4) by simp
    have "ss_transport s \<longrightarrow> quiet s"
      using Cons.prems(2) last by auto
    from last_round(2) [OF Cons.prems(1) due last Cons.prems(3) this, of L Q P] \<open>ws = []\<close> show ?thesis
      by auto
  qed
qed

section \<open>Properties\<close>

text \<open>C14: from its first deadline on, a reconnection cycle always ends with the host told of the failure.
  Whatever msquic answers and reports between the rounds (connections that are made, refused or lost,
  messages of the server), whatever the host does short of configuring, connecting and disconnecting, and
  however late the rounds of the session thread come: no run goes on forever (no frame is empty); every
  round that finds the deadline passed uses up one attempt; after one more than there are attempts left,
  and possibly before, the first thing the host has been told since is \<open>Reconnection failed\<close>, and never
  \<open>Reconnected\<close>. The reason is that an attempt whose \<open>connect\<close> succeeds does not move the deadline, so that
  the next round, which comes before anything that has arrived is processed, replaces the connection by
  the next attempt. A step may fault (a datagram of the host that is shorter than it says); if only rounds
  happen, none does.\<close>

theorem reconnect_cycle_fails:
  fixes s :: "'h Session"
  defines "m \<equiv> unat (sc_max_reconnect_attempts (ss_config s))" and "a \<equiv> unat (ss_reconnect_attempt s)"
  assumes "all_drain s" and "ss_reconnecting s" and "ss_state s = CS_Reconnecting" and "ss_session_running s"
    and "sc_status_callback (ss_config s)" and "a < m" and "m + 1 < 2 ^ 32"
    and "ss_transport s \<longrightarrow> ss_reconnect_deadline s \<le> t" and "sorted (t # map fst steps)"
    and "list_all (leaves_session \<circ> snd) steps" and "a + length ws = m + 1"
  shows "(\<exists>r. cycle_run L Q steps 0 s = Some r \<and> allows r (\<lambda>(n, s').
        prefix (ss_status s @ [(CS_Failed, Some ''Reconnection failed'')]) (ss_status s')
        \<or> (a + n \<le> m \<and> ss_status s' = ss_status s \<and> ss_reconnecting s' \<and> unat (ss_reconnect_attempt s') = a + n)))
    \<and> (\<exists>s'. late_rounds L Q P ws s = Some (Done s') \<and> \<not> ss_reconnecting s'
        \<and> prefix (ss_status s @ [(CS_Failed, Some ''Reconnection failed'')]) (ss_status s'))"
proof -
  let ?m = "sc_max_reconnect_attempts (ss_config s)"
  have less: "ss_reconnect_attempt s < ?m"
    using assms(8) by (simp add: m_def a_def word_less_nat_alt)
  then have c: "in_cycle t (ss_status s) ?m s"
    using assms(4-7,10) by (simp add: in_cycle_def order_less_imp_le)
  have m: "unat ?m + 1 < 2 ^ 32"
    using assms(9) by (simp add: m_def)
  have "cycle_inv t (ss_status s) ?m (a + 0) s"
    using c by (simp add: cycle_inv_def a_def)
  from cycle_run_ends [OF all_drain_stay [OF assms(3)] this assms(11,12) m, of L Q]
  have "\<exists>r. cycle_run L Q steps 0 s = Some r \<and> allows r (\<lambda>(n, s'). \<exists>now. cycle_inv now (ss_status s) ?m (a + n) s')" .
  moreover have "prefix (ss_status s @ [(CS_Failed, Some ''Reconnection failed'')]) (ss_status s')
      \<or> (a + n \<le> m \<and> ss_status s' = ss_status s \<and> ss_reconnecting s' \<and> unat (ss_reconnect_attempt s') = a + n)"
    if "cycle_inv now (ss_status s) ?m (a + n) s'" for now n and s' :: "'h Session"
    using that by (auto simp: cycle_inv_def told_failed_def in_cycle_def m_def word_le_nat_alt)
  moreover have "\<exists>s'. late_rounds L Q P ws s = Some (Done s') \<and> told_failed (ss_status s) s' \<and> \<not> ss_reconnecting s'"
    by (rule late_rounds_fail [OF c _ m]) (use less assms(13) in \<open>simp_all add: m_def a_def\<close>)
  ultimately show ?thesis
    by (fastforce simp: told_failed_def elim!: allows_mono)
qed

text \<open>Two attempts, an msquic that accepts every call and reports every connection, and rounds every 5 ms.\<close>

definition lucky_steps :: "(nat \<times> core_action) list" where
  "lucky_steps = [(0, ThreadRound (\<lambda>_. [])), (2, ConnectionEvent CE_Connected), (5, ThreadRound (\<lambda>_. [])),
     (7, ConnectionEvent CE_Connected), (10, ThreadRound (\<lambda>_. []))]"

theorem reconnect_cycle_fails_witness:
  "(\<exists>r. cycle_run counting_opus all_well lucky_steps 0 lost_chat = Some r \<and> allows r (\<lambda>(n, s').
      prefix [(CS_Failed, Some ''Reconnection failed'')] (ss_status s') \<or> (n \<le> 2 \<and> ss_reconnecting s')))
    \<and> (\<exists>s'. late_rounds counting_opus all_well (\<lambda>_. []) [0, 5, 10] lost_chat = Some (Done s')
        \<and> prefix [(CS_Failed, Some ''Reconnection failed'')] (ss_status s'))"
proof -
  have l: "ss_reconnecting lost_chat" "ss_status lost_chat = []" "sc_status_callback (ss_config lost_chat)"
    "ss_reconnect_attempt lost_chat = 0" "sc_max_reconnect_attempts (ss_config lost_chat) = 2" "ss_session_running lost_chat"
    "ss_state lost_chat = CS_Reconnecting" "\<not> ss_transport lost_chat"
    by (simp_all add: lost_chat_def chat_session_def new_session_simps)
  have "all_drain lost_chat"
    by (simp add: all_drain_def lost_chat_def chat_session_def drains_def fixed_part_def track_ptrs_def chat_track_def
        new_TrackHandle_def default_TrackConfig_def)
  moreover have "sorted (0 # map fst lucky_steps)" and "list_all (leaves_session \<circ> snd) lucky_steps"
    by (simp_all add: lucky_steps_def leaves_session_def between_rounds_def)
  ultimately show ?thesis
    using reconnect_cycle_fails [of lost_chat 0 lucky_steps "[0, 5, 10]" counting_opus all_well "\<lambda>_. []"] l
    by (fastforce elim!: allows_mono)
qed

end
