(* ===== verification/Spec2Isabelle.thy ===== *)
theory Spec2Isabelle
  imports Messages Datagram TopicMerger RingThreads JitterThreads Codec Reassembly Url Tracks Facade Reconnection
begin

text \<open>
  A model of \<open>libpanaudia-core\<close>, the C++ client library of the Panaudia audio service, and what makes it
  correct. The library keeps one session with a server: it speaks MOQ Transport (draft 16) over QUIC,
  sends and receives audio and data tracks, and helps the host to merge cached topic state.

  \<^bold>\<open>The parts and how they meet.\<close> The host talks to \<open>PanaudiaCore\<close>, which owns a \<open>SessionManager\<close>. The session
  owns the tracks, each with a ring buffer and an encoder (outbound audio), a jitter buffer and a decoder
  (inbound audio), or neither (data), and a \<open>MoqTransport\<close>, which owns the msquic handles. msquic calls the
  transport on threads of its own; the transport only leaves flags and bytes behind, and the session
  thread picks them up in \<open>process_incoming\<close>, cuts the control stream into messages and calls the session
  back; datagrams reach the session on msquic's thread. The session answers with messages built by
  \<open>moq_protocol.cpp\<close>. Between the host and a cache topic stands \<open>TopicMerger\<close>, which the session does not
  know: it decodes cache envelopes into a \<open>CacheMap\<close> and gives the host the id from which to resume, which
  the host hands to the session as a parameter of its next SUBSCRIBE.

  \<^bold>\<open>Theories and code.\<close> Paths are under \<open>src/src\<close>, with the headers under \<open>src/include/panaudia\<close>.

    \<^item> \<open>Prelude\<close>: words for the fixed-width integers, the type \<open>outcome\<close> (\<open>Done\<close> a value, \<open>Reject\<close> what the
      code reports as an error, \<open>Crash\<close> behaviour C++ leaves undefined or an exception nobody catches),
      checked accesses to memory blocks, the loop \<open>loop_while\<close>, and the predicates \<open>yields\<close> (returns with a
      postcondition), \<open>allows\<close> (a postcondition if it returns) and \<open>maybe_allows\<close> (the same for what may loop).
    \<^item> \<open>Varint\<close>, \<open>Wire\<close>, \<open>Params\<close>, \<open>Framing\<close>, \<open>Messages\<close>, \<open>Datagram\<close>: \<open>moq_protocol.cpp\<close>, from the integer encoding
      up to one builder and parser per control message and the object datagrams.
    \<^item> \<open>CacheWire\<close>: \<open>cache_wire.cpp\<close>. \<open>OrderedMap\<close>: the part of \<open>std::map\<close> in use. \<open>CacheMap\<close>: \<open>cache_map.cpp\<close>.
      \<open>TopicMerger\<close>: \<open>topic_merger.cpp\<close>.
    \<^item> \<open>Ring\<close>: the circular storage both buffers copy to and from. \<open>RingBuffer\<close>: \<open>ring_buffer.cpp\<close>. \<open>JitterBuffer\<close>:
      \<open>jitter_buffer.cpp\<close>. \<open>RingThreads\<close> and \<open>JitterThreads\<close>: the same methods cut into steps, one per access to
      an atomic member and one per float copied, for the two threads that share a buffer. \<open>Codec\<close>:
      \<open>opus_codec.cpp\<close>.
    \<^item> \<open>Transport\<close>: \<open>moq_transport.cpp\<close>, with \<open>TransportSafety\<close> (handles and memory), \<open>ClientState\<close> (what an
      operation does to the transport's client) and \<open>Reassembly\<close> (the control stream).
    \<^item> \<open>Url\<close>, \<open>Tracks\<close>, \<open>Session\<close>, \<open>Orchestration\<close>, \<open>SessionThread\<close>: \<open>session_manager.cpp\<close> and the configuration types
      of \<open>core.h\<close>. A session is the transport's state extended by the members of \<open>SessionManager\<close>, so that the
      transport's callbacks (\<open>session_handler\<close>) are functions on the whole state. Proofs are in \<open>SessionSafety\<close>,
      \<open>SessionTypes\<close>, \<open>SessionInvariant\<close> (the invariant of all reachable states), \<open>Subscription\<close>, \<open>DataPath\<close>,
      \<open>SessionAudio\<close>, \<open>SessionReconnect\<close>, \<open>SessionLiveness\<close>.
    \<^item> \<open>Facade\<close>: \<open>panaudia_core.cpp\<close>, and lives of the object as lists of steps. \<open>Reconnection\<close>: the part of such a
      life that is a reconnection cycle.

  A member of a class is a field of the record of the same name with a prefix (\<open>rb_\<close>, \<open>jb_\<close>, \<open>tr_\<close>, \<open>ss_\<close>,
  \<open>th_\<close>), a method a definition of its name. Fields the code does not have are bookkeeping for the
  properties: the calls made to msquic with their results, the events passed to the client, the blocks
  allocated and not freed, and what the host was told.

  \<^bold>\<open>Contracts.\<close> \<open>reader\<close> and \<open>codec\<close> (in \<open>Wire\<close>) say what an offset-passing parser and its encoder promise; the
  varint, the string, the namespace tuple and the parameter list interpret them. \<open>ordered_map\<close> is what the
  cache uses of \<open>std::map\<close>, \<open>op_gated_cache\<close> what a merger relies on in \<open>CacheMap\<close>, \<open>bounded_fifo\<close> what a sender
  relies on in \<open>RingBuffer\<close>. \<open>transport_client\<close>, \<open>client_state\<close> and \<open>stream_client\<close> are what the transport asks of
  the callbacks and gives in return; the session interprets all three.

  \<^bold>\<open>What is shown.\<close> For the wire formats: parsing undoes building, prefixes are refused,
  trailing bytes are not looked at. For the buffers: each method implements an operation on the list of buffered
  samples, and none leaves its memory; with the methods in steps, the outbound ring is a queue under every
  interleaving in which it neither overflows nor is flushed, and what an overflow or a flush that meets a
  read does is shown too, for every ring and for every jitter buffer in order. For the cache: gating by
  operation id, convergence, the resume id. For the transport: the calls msquic gets are admissible and the memory handed over is accounted for, whatever msquic answers and whatever a
  client does within its contract; messages do not depend on how the stream is cut. For the session: the
  invariant of every reachable state, the requests it sends, the path of data and audio, that a round of its
  thread and a disconnect return, and how a reconnection cycle ends. Below: the resume id on its way from a
  merger to the server.

  \<^bold>\<open>Loops.\<close> Recursion is structural where the code counts. The parse loop and the split of a stream recurse on
  the bytes left. The extension loop of a datagram is a \<open>function\<close> over its counter, the measure of its termination
  proof, because its offset can go back; its value includes the rounds it ran, and that they can be 2^62 - 1
  is proved.
  The loops that drain a ring buffer are \<open>loop_while\<close>: the value \<open>None\<close> is a loop that never ends; that it is
  not \<open>None\<close> is proved where it holds (frames that are not empty), and that it is \<open>None\<close> where it is (empty
  frames). No definition uses fuel.

  \<^bold>\<open>Parameters.\<close> msquic and \<open>malloc\<close> are a function from the calls made so far to the success of the next one;
  libopus and the JSON library are records of the functions the code calls. Nothing is assumed about them
  except where a property says that every call succeeds (\<open>all_well\<close>) and in the examples. An event of msquic is only assumed to be one it can send:
  a send completes once, a connection is reported while there is one.

  \<^bold>\<open>Not modelled.\<close>

    \<^item> Interleavings within a method, except those of the two audio buffers. A call of the host, an event of
      msquic and a round of the session thread are one step each, and the buffers in them are sequential.
      \<open>RingThreads\<close> and \<open>JitterThreads\<close> interleave the accesses to one buffer, each taking effect at once: what
      the memory orders allow beyond that is left out, and a read of the jitter buffer is one step there
      too. A callback of the host that calls back into the library is not modelled.
    \<^item> Log messages, text on stderr and the sleep of the session thread. The clock is read once per step.
    \<^item> Floating-point arithmetic: samples are bit patterns, the fill ratio and the milliseconds of the
      statistics are parameters.
    \<^item> Running out of memory outside \<open>malloc\<close>, and the limits of \<open>std::vector\<close> other than the one a count from
      the wire exceeds.
    \<^item> \<open>send_worker.cpp\<close> and \<open>recv_worker.cpp\<close>, which hold no code, the tests and the build.
\<close>

section \<open>Resuming a cache topic\<close>

lemma resume_key: "kResumeParamKey \<le> varint_max" "is_odd_key kResumeParamKey" "kResumeParamKey \<notin> set reserved_subscribe_keys"
  by (simp_all add: kResumeParamKey_def varint_max_def is_odd_key_def reserved_subscribe_keys_def param_keys)

text \<open>The parameter of the host is one the server sees.\<close>

lemma resume_param_on_wire:
  assumes "subc_extra_params c = [bytes_param kResumeParamKey bs]"
  shows "bytes_param kResumeParamKey bs \<in> set (wire_params (subscribe_params c))"
proof -
  have "bytes_param kResumeParamKey bs \<in> set (subscribe_params c)"
    by (simp add: subscribe_params_def assms)
  then have "kvp_canonical (bytes_param kResumeParamKey bs) \<in> set (wire_params (subscribe_params c))"
    by (simp add: wire_params_def)
  then show ?thesis
    by (simp add: canonical_bytes_param resume_key)
qed

text \<open>C6: a host that attaches its resume id to the SUBSCRIBE of a cache topic resumes where it stopped. The
  merger has been fed with any payloads; its resume id is the largest id of the operations in them. The
  message the session sends for the track is parsed by the server into a SUBSCRIBE with a parameter
  under the resume key, whose bytes, read big-endian, are that id; and no entry of the merger's cache is
  newer.\<close>

theorem resume_id_reaches_server:
  assumes "can_send s" and "deref p s = Done t" and "cfg_direction (th_config t) = Inbound"
    and "sc_subscribe_params_callback (ss_config s)" and "ss_next_request_id s \<le> varint_max"
    and "P p = [\<lparr>sp_key = kResumeParamKey, sp_value = encode_resume_op_id (resume_op_id m)\<rparr>]"
    and "length (subscribe_content (subscribe_config P t s)) < 65536"
    and "apply_envelopes J raws (new_TopicMerger None) = Done m"
  shows "resume_op_id m = Max (insert 0 (op_op_id ` set (concat (map (envelope_ops J) raws))))
    \<and> (\<exists>s' msg content r x. subscribe_track all_well P p s = Done s' \<and> stream_contents s' = stream_contents s @ [msg]
    \<and> parse_control_message msg = Done (MT_Subscribe, content, length msg) \<and> parse_subscribe content = Done r
    \<and> x \<in> set (subr_params r) \<and> kvp_key x = kResumeParamKey \<and> read_u64_be (kvp_bytes_value x) 0 = Done (resume_op_id m))
    \<and> (\<forall>(k, e)\<in>set (cm_entries (tm_cache m)). ce_op_id e \<le> resume_op_id m)"
proof -
  let ?c = "subscribe_config P t s" and ?x = "bytes_param kResumeParamKey (encode_resume_op_id (resume_op_id m))"
  have ptr: "th_ptr t = p"
    using deref_Done [OF assms(2)] by simp
  have extra: "subc_extra_params ?c = [?x]" "subc_request_id ?c = ss_next_request_id s" "subc_filter_type ?c = kFilterLatestGroup"
    using assms(4,6) by (simp_all add: subscribe_config_def ptr host_param_def)
  have fits: "fits_i32 (subscribe_content ?c)"
    using assms(7) by (simp add: fits_i32_def i32_max_def)
  have "parse_subscribe (subscribe_content ?c) = Done
    \<lparr>subr_request_id = subc_request_id ?c, subr_track_namespace = subc_track_namespace ?c,
     subr_track_name = subc_track_name ?c, subr_priority = subc_priority ?c,
     subr_group_order = subc_group_order ?c, subr_forward = subc_forward ?c,
     subr_filter_type = subc_filter_type ?c, subr_params = wire_params (subscribe_params ?c)\<rparr>"
    by (rule parse_subscribe_result [OF _ _ _ _ fits])
      (use assms(5) resume_key in \<open>simp_all add: extra kFilterLatestGroup_def varint_max_def bytes_param_def kvp_encodable_def\<close>)
  moreover have "parse_control_message (build_subscribe ?c) = Done (MT_Subscribe, subscribe_content ?c, length (build_subscribe ?c))"
    using parse_build_control_message [of MT_Subscribe "subscribe_content ?c" "[]"] assms(7)
    by (simp add: build_subscribe_def known_type_def)
  moreover have "as_sent (build_subscribe ?c) = build_subscribe ?c"
    by (rule as_sent_whole)
      (use assms(7) in \<open>simp add: build_subscribe_def length_build_control_message varint_size_def type_code.simps\<close>)
  moreover have "\<exists>s'. subscribe_track all_well P p s = Done s' \<and> stream_contents s' = stream_contents s @ [as_sent (build_subscribe ?c)]"
  proof -
    have "subscribes P (ss_config s) (ss_first_subscribe_sent s) (ss_next_request_id s) [(p, th_config t)] = [?c]"
      by (simp add: subscribe_config_def attaches_jwt_def ptr)
    with subscribe_track_spec [OF assms(1,2), of P] assms(3) show ?thesis
      by (auto simp: subscribed_def simp del: subscribes.simps elim!: yieldsE)
  qed
  moreover have "read_u64_be (encode_resume_op_id (resume_op_id m)) 0 = Done (resume_op_id m)"
    by (simp add: encode_resume_op_id_eq read_be_at(3) [where pre = "[]" and post = "[]"])
  moreover have "\<forall>(k, e)\<in>set (cm_entries (tm_cache m)). ce_op_id e \<le> resume_op_id m"
    using apply_envelopes_resume(2) [OF assms(8)] by (simp add: cache_ok_def resume_op_id_def highest_op_id_def)
  ultimately show ?thesis
    using resume_param_on_wire [OF extra(1)] apply_envelopes_resume(1) [OF assms(8)]
    by (force simp: bytes_param_def)
qed

text \<open>A merger that has seen one envelope, and the example's session with the host's callback set.\<close>

definition seen_payloads :: "bytes list" where
  "seen_payloads = [envelope 0 (toy_envelope [1])]"

lemma seen_payloads_ops:
  "concat (map (envelope_ops toy_lib) seen_payloads) = [(toy_envelope [8])\<lparr>op_key := [7]\<rparr>]"
proof -
  have "js_parse toy_lib (op_value (toy_envelope [1])) = Some (Toy_Object [7] [8])"
    "batch_of toy_lib (Toy_Object [7] [8]) = Some [Toy_Object [7] [8]]"
    by (simp_all add: toy_lib_def toy_envelope_def batch_of_def)
  with decode_toy_envelope [of "[1]"] toy_names show ?thesis
    by (simp add: seen_payloads_def envelope_ops_def batch_ops_def map_filter_simps inner_op_def template_of_def
        toy_lib_def toy_envelope_def)
qed

definition resuming_chat :: "nat Session" where
  "resuming_chat = connected_chat\<lparr>ss_config := (ss_config connected_chat)\<lparr>sc_subscribe_params_callback := True\<rparr>\<rparr>"

theorem resume_id_reaches_server_witness:
  "\<exists>m s' msg content r x. apply_envelopes toy_lib seen_payloads (new_TopicMerger None) = Done m \<and> resume_op_id m = 6
    \<and> subscribe_track all_well
         (\<lambda>_. [\<lparr>sp_key = kResumeParamKey, sp_value = encode_resume_op_id (resume_op_id m)\<rparr>]) 0 resuming_chat = Done s'
    \<and> stream_contents s' = [default_client_setup, msg]
    \<and> parse_control_message msg = Done (MT_Subscribe, content, length msg) \<and> parse_subscribe content = Done r
    \<and> x \<in> set (subr_params r) \<and> kvp_key x = kResumeParamKey \<and> read_u64_be (kvp_bytes_value x) 0 = Done 6"
proof -
  obtain m where m: "apply_envelopes toy_lib seen_payloads (new_TopicMerger None) = Done m"
    using apply_envelopes_cache by blast
  have id: "resume_op_id m = 6"
    using apply_envelopes_resume(1) [OF m] seen_payloads_ops by (simp add: toy_envelope_def)
  let ?P = "\<lambda>_ :: nat. [\<lparr>sp_key = kResumeParamKey, sp_value = encode_resume_op_id (resume_op_id m)\<rparr>]"
  have "stream_contents resuming_chat = stream_contents connected_chat"
    by (simp add: resuming_chat_def stream_contents_def)
  then have t: "can_send resuming_chat" "deref 0 resuming_chat = Done chat_track" "ss_next_request_id resuming_chat = 0"
    "stream_contents resuming_chat = [default_client_setup]" "\<not> ss_first_subscribe_sent resuming_chat"
    "sc_subscribe_params_callback (ss_config resuming_chat)"
    by (simp_all add: resuming_chat_def can_send_def round_chat deref_def chat_track_def new_TrackHandle_def)
  have jwt: "sc_jwt (ss_config connected_chat) = []"
    by (simp add: connected_chat_def arriving_chat_def connecting_simps polling_simps)
  have c: "subscribe_config ?P chat_track resuming_chat = default_SubscribeConfig
      \<lparr>subc_track_namespace := [[0x63]], subc_track_name := [0x63], subc_forward := 1, subc_group_order := 1,
       subc_extra_params := [bytes_param kResumeParamKey (encode_resume_op_id 6)]\<rparr>"
    by (simp add: subscribe_config_def t id host_param_def default_SubscribeConfig_def chat_track_def new_TrackHandle_def
        default_TrackConfig_def attaches_jwt_def) (simp add: resuming_chat_def jwt new_TrackHandle_def)
  have "length (subscribe_content (subscribe_config ?P chat_track resuming_chat)) \<le> 63"
    unfolding c by code_simp
  then show ?thesis
    using resume_id_reaches_server [OF t(1,2) _ t(6), of ?P m toy_lib seen_payloads] t(3,4) m id
    by (auto simp: chat_track_def new_TrackHandle_def default_TrackConfig_def varint_max_def)
qed

end
